(* ===== verification/DFS_Prelude.thy ===== *)
theory DFS_Prelude
  imports Main "HOL-Library.Word" "HOL-Library.List_Lexorder" "HOL-Library.Char_ord"
begin

text \<open>
  Shared vocabulary of the development: bytes and byte strings, the error values of the
  program, big-endian integers, decimal numerals and the string functions of the Go standard
  library that the program calls, and the generic lemmas on lists and association lists that
  the component theories use.
\<close>

named_theorems be_simps \<open>evaluation of big-endian integers\<close>

section \<open>Bytes, strings and machine integers\<close>

type_synonym byte = "8 word"
type_synonym bytes = "byte list"
type_synonym u16 = "16 word"
type_synonym u32 = "32 word"
type_synonym u64 = "64 word"

text \<open>
  A Go \<open>string\<close> is a sequence of bytes, and so is an Isabelle \<^typ>\<open>string\<close> (a \<^typ>\<open>char\<close> has
  eight bits). The conversions \<open>[]byte(s)\<close> and \<open>string(b)\<close> are mutually inverse.
\<close>

definition bytes_of_string :: "string \<Rightarrow> bytes" where
  "bytes_of_string s = map (\<lambda>c. word_of_nat (of_char c)) s"

definition string_of_bytes :: "bytes \<Rightarrow> string" where
  "string_of_bytes b = map (\<lambda>x. char_of (unat x)) b"

lemma char_of_unat_of_char [simp]: "char_of (unat (word_of_nat (of_char c) :: byte)) = c"
proof -
  have "of_char c < (256 :: nat)" by simp
  then have "unat (word_of_nat (of_char c) :: byte) = of_char c"
    by (simp add: unat_of_nat)
  then show ?thesis by simp
qed

lemma word_of_nat_unat_mod_256 [simp]: "word_of_nat (unat x mod 256) = (x :: byte)"
proof -
  have "unat x < 2 ^ 8" using unsigned_less [of x] by simp
  then have "unat x mod 256 = unat x" by simp
  then show ?thesis by simp
qed

lemma string_of_bytes_of_string [simp]: "string_of_bytes (bytes_of_string s) = s"
  by (induction s) (simp_all add: string_of_bytes_def bytes_of_string_def)

lemma bytes_of_string_of_bytes [simp]: "bytes_of_string (string_of_bytes b) = b"
  by (induction b) (simp_all add: string_of_bytes_def bytes_of_string_def)

lemma length_bytes_of_string [simp]: "length (bytes_of_string s) = length s"
  by (simp add: bytes_of_string_def)

lemma length_string_of_bytes [simp]: "length (string_of_bytes b) = length b"
  by (simp add: string_of_bytes_def)

section \<open>Errors\<close>

text \<open>
  The sentinel errors of the program and of the standard library, and \<open>Errorf\<close> for the values
  made by \<open>fmt.Errorf\<close>: the wrapped error is present exactly when the format string uses
  \<open>%w\<close>. Comparing with \<open>==\<close> is equality of these values; \<open>errors.Is\<close> also looks through the
  wrappers.
\<close>

datatype go_error =
    EOF | ErrUnexpectedEOF | ErrNotExist | ErrIO | ErrSyntax | ErrRange | ErrClosedConn
  | ErrInvalidMagic | ErrUnsupportedVersion | ErrPayloadTooLarge
  | ErrNegativeFileDepth | ErrCheckSumNotMatching
  | ErrReadEmptyLogFile | ErrCRCVerificationFailed | ErrNoLogFiles | ErrNoSnapshotFile
  | ErrTCPAccept | ErrPoolClosed | ErrWriteCancelled | ErrReadCancelled
  | ErrProto | ErrGob | Panic
  | Errorf string "go_error option"

fun errors_Is :: "go_error \<Rightarrow> go_error \<Rightarrow> bool" where
  "errors_Is (Errorf m (Some e)) t = (Errorf m (Some e) = t \<or> errors_Is e t)"
| "errors_Is e t = (e = t)"

definition wrap :: "string \<Rightarrow> go_error \<Rightarrow> go_error" where
  "wrap m e = Errorf m (Some e)"

definition errmsg :: "string \<Rightarrow> go_error" where
  "errmsg m = Errorf m None"

lemma wrap_neq [simp]:
  "wrap m e \<noteq> EOF" "wrap m e \<noteq> ErrNoSnapshotFile" "wrap m e \<noteq> ErrReadEmptyLogFile"
  "wrap m e \<noteq> ErrCheckSumNotMatching"
  by (simp_all add: wrap_def)

lemma errmsg_neq [simp]:
  "errmsg m \<noteq> EOF" "errmsg m \<noteq> ErrNoSnapshotFile" "errmsg m \<noteq> ErrReadEmptyLogFile"
  "errmsg m \<noteq> ErrCheckSumNotMatching"
  by (simp_all add: errmsg_def)

lemma errors_Is_wrap [simp]:
  "errors_Is (wrap m e) EOF = errors_Is e EOF"
  "errors_Is (wrap m e) ErrNoSnapshotFile = errors_Is e ErrNoSnapshotFile"
  "errors_Is (wrap m e) ErrReadEmptyLogFile = errors_Is e ErrReadEmptyLogFile"
  by (simp_all add: wrap_def)

lemma errors_Is_errmsg [simp]:
  "\<not> errors_Is (errmsg m) EOF" "\<not> errors_Is (errmsg m) ErrNoSnapshotFile"
  "\<not> errors_Is (errmsg m) ErrReadEmptyLogFile"
  by (simp_all add: errmsg_def)

section \<open>Big-endian integers\<close>

text \<open>
  \<open>binary.BigEndian\<close>: \<open>be_bytes k n\<close> is the low \<open>k\<close> bytes of \<open>n\<close>, most significant first, and
  \<open>be_val\<close> reads such a list back.
\<close>

fun be_bytes :: "nat \<Rightarrow> nat \<Rightarrow> bytes" where
  "be_bytes 0 n = []"
| "be_bytes (Suc k) n = be_bytes k (n div 256) @ [word_of_nat n]"

definition be_val :: "bytes \<Rightarrow> nat" where
  "be_val b = foldl (\<lambda>acc x. acc * 256 + unat x) 0 b"

lemma length_be_bytes [simp]: "length (be_bytes k n) = k"
  by (induction k arbitrary: n) simp_all

lemma be_val_snoc [simp]: "be_val (b @ [x]) = be_val b * 256 + unat x"
  by (simp add: be_val_def)

lemma be_val_Nil [simp]: "be_val [] = 0"
  by (simp add: be_val_def)

lemma unat_byte_lt [simp]: "unat (x :: byte) < 256"
proof -
  have "unat x < 2 ^ LENGTH(8)" by (rule unsigned_less)
  then show ?thesis by simp
qed

lemma unat_byte_of_nat: "unat (word_of_nat n :: byte) = n mod 256"
  by (simp add: unat_of_nat)

lemma be_val_be_bytes: "be_val (be_bytes k n) = n mod 256 ^ k"
proof (induction k arbitrary: n)
  case 0
  then show ?case by simp
next
  case (Suc k)
  have "n mod (256 * 256 ^ k) = 256 * (n div 256 mod 256 ^ k) + n mod 256"
    by (rule mod_mult2_eq)
  with Suc show ?case by (simp add: unat_byte_of_nat)
qed

definition put_uint32 :: "u32 \<Rightarrow> bytes" where
  "put_uint32 v = be_bytes 4 (unat v)"

definition get_uint32 :: "bytes \<Rightarrow> u32" where
  "get_uint32 b = word_of_nat (be_val b)"

definition put_uint64 :: "u64 \<Rightarrow> bytes" where
  "put_uint64 v = be_bytes 8 (unat v)"

definition get_uint64 :: "bytes \<Rightarrow> u64" where
  "get_uint64 b = word_of_nat (be_val b)"

lemma length_put_uint32 [simp]: "length (put_uint32 v) = 4"
  by (simp add: put_uint32_def)

lemma length_put_uint64 [simp]: "length (put_uint64 v) = 8"
  by (simp add: put_uint64_def)

lemma get_put_uint32 [simp]: "get_uint32 (put_uint32 v) = v"
proof -
  have "unat v < 256 ^ 4" using unsigned_less [of v] by simp
  then show ?thesis by (simp add: get_uint32_def put_uint32_def be_val_be_bytes)
qed

lemma get_put_uint64 [simp]: "get_uint64 (put_uint64 v) = v"
proof -
  have "unat v < 256 ^ 8" using unsigned_less [of v] by simp
  then show ?thesis by (simp add: get_uint64_def put_uint64_def be_val_be_bytes)
qed

lemma put_uint32_eval [be_simps]:
  "put_uint32 v = [word_of_nat (unat v div 256 div 256 div 256), word_of_nat (unat v div 256 div 256),
     word_of_nat (unat v div 256), word_of_nat (unat v)]"
proof -
  have "(4 :: nat) = Suc (Suc (Suc (Suc 0)))" by simp
  then show ?thesis by (simp only: put_uint32_def be_bytes.simps append.simps)
qed

lemma put_uint64_eval [be_simps]:
  "put_uint64 v = be_bytes (Suc (Suc (Suc (Suc (Suc (Suc (Suc (Suc 0)))))))) (unat v)"
proof -
  have "(8 :: nat) = Suc (Suc (Suc (Suc (Suc (Suc (Suc (Suc 0)))))))" by simp
  then show ?thesis by (simp only: put_uint64_def)
qed

lemma get_uint32_eval [be_simps]:
  "get_uint32 [a, b, c, d] = word_of_nat (((unat a * 256 + unat b) * 256 + unat c) * 256 + unat d)"
  by (simp add: get_uint32_def be_val_def)

lemma put_uint32_nonempty [simp]: "put_uint32 v \<noteq> []"
  by (metis length_put_uint32 list.size(3) zero_neq_numeral)

section \<open>Strings: decimal numerals, splitting, prefixes and suffixes\<close>

definition digit_char :: "nat \<Rightarrow> char" where
  "digit_char n = char_of (48 + n)"

fun dec_of_nat :: "nat \<Rightarrow> string" where
  "dec_of_nat n = (if n < 10 then [digit_char n] else dec_of_nat (n div 10) @ [digit_char (n mod 10)])"

declare dec_of_nat.simps [simp del]

text \<open>\<open>strconv.Itoa\<close>, on a signed 64-bit \<open>int\<close>.\<close>

definition Itoa :: "int \<Rightarrow> string" where
  "Itoa i = (if i < 0 then CHR ''-'' # dec_of_nat (nat (- i)) else dec_of_nat (nat i))"

definition digit_val :: "char \<Rightarrow> nat option" where
  "digit_val c = (if 48 \<le> (of_char c :: nat) \<and> (of_char c :: nat) \<le> 57 then Some (of_char c - 48) else None)"

fun dec_val :: "nat \<Rightarrow> string \<Rightarrow> nat option" where
  "dec_val acc [] = Some acc"
| "dec_val acc (c # cs) = (case digit_val c of None \<Rightarrow> None | Some d \<Rightarrow> dec_val (acc * 10 + d) cs)"

text \<open>\<open>strconv.ParseUint(s, 10, 64)\<close> and \<open>strconv.Atoi\<close>.\<close>

definition ParseUint :: "string \<Rightarrow> go_error + u64" where
  "ParseUint s = (if s = [] then Inl ErrSyntax else
     case dec_val 0 s of None \<Rightarrow> Inl ErrSyntax
     | Some n \<Rightarrow> if n < 2 ^ 64 then Inr (word_of_nat n) else Inl ErrRange)"

definition Atoi :: "string \<Rightarrow> go_error + int" where
  "Atoi s =
     (let (neg, ds) = (case s of [] \<Rightarrow> (False, [])
                       | c # cs \<Rightarrow> if c = CHR ''-'' then (True, cs)
                                  else if c = CHR ''+'' then (False, cs) else (False, s))
      in if ds = [] then Inl ErrSyntax else
         case dec_val 0 ds of None \<Rightarrow> Inl ErrSyntax
         | Some n \<Rightarrow> if neg then (if n \<le> 2 ^ 63 then Inr (- int n) else Inl ErrRange)
                    else (if n < 2 ^ 63 then Inr (int n) else Inl ErrRange))"

lemma of_char_digit_char: "n < 10 \<Longrightarrow> of_char (digit_char n) = 48 + n"
  by (simp add: digit_char_def)

lemma digit_val_digit_char [simp]: "n < 10 \<Longrightarrow> digit_val (digit_char n) = Some n"
  by (simp add: digit_val_def of_char_digit_char)

lemma dec_val_append: "dec_val acc (xs @ ys) =
    (case dec_val acc xs of None \<Rightarrow> None | Some a \<Rightarrow> dec_val a ys)"
  by (induction xs arbitrary: acc) (auto split: option.splits)

lemma dec_val_dec_of_nat: "dec_val 0 (dec_of_nat n) = Some n"
proof (induction n rule: dec_of_nat.induct)
  case (1 n)
  then show ?case
    by (subst dec_of_nat.simps) (auto simp: dec_val_append)
qed

lemma dec_of_nat_nonempty [simp]: "dec_of_nat n \<noteq> []"
  by (subst dec_of_nat.simps) simp

lemma dec_of_nat_inject [simp]: "dec_of_nat m = dec_of_nat n \<longleftrightarrow> m = n"
  by (metis dec_val_dec_of_nat option.inject)

lemma digit_char_neq_dash: "n < 10 \<Longrightarrow> digit_char n \<noteq> CHR ''-''"
  using of_char_digit_char [of n] by auto

lemma digit_char_neq_plus: "n < 10 \<Longrightarrow> digit_char n \<noteq> CHR ''+''"
  using of_char_digit_char [of n] by auto

lemma dec_of_nat_chars: "c \<in> set (dec_of_nat n) \<Longrightarrow> c \<noteq> CHR ''-'' \<and> c \<noteq> CHR ''+''"
proof (induction n rule: dec_of_nat.induct)
  case (1 n)
  show ?case
  proof (cases "n < 10")
    case True
    with "1.prems" show ?thesis
      by (auto simp: dec_of_nat.simps [of n] digit_char_neq_dash digit_char_neq_plus)
  next
    case False
    with 1 have "c \<in> set (dec_of_nat (n div 10)) \<or> c = digit_char (n mod 10)"
      by (auto simp: dec_of_nat.simps [of n])
    with 1 False show ?thesis
      by (auto simp: digit_char_neq_dash digit_char_neq_plus)
  qed
qed

lemma ParseUint_dec_of_nat: "n < 2 ^ 64 \<Longrightarrow> ParseUint (dec_of_nat n) = Inr (word_of_nat n)"
  by (simp add: ParseUint_def dec_val_dec_of_nat)

lemma Atoi_dec_of_nat: "n < 2 ^ 63 \<Longrightarrow> Atoi (dec_of_nat n) = Inr (int n)"
  using dec_of_nat_chars [of "hd (dec_of_nat n)" n] dec_val_dec_of_nat [of n]
  by (cases "dec_of_nat n") (auto simp: Atoi_def)

text \<open>\<open>strings.Split(s, c)\<close> for a one-character separator: never the empty list.\<close>

fun split_on :: "char \<Rightarrow> string \<Rightarrow> string list" where
  "split_on c [] = [[]]"
| "split_on c (x # xs) =
     (if x = c then [] # split_on c xs
      else case split_on c xs of [] \<Rightarrow> [[x]] | y # ys \<Rightarrow> (x # y) # ys)"

lemma split_on_nonempty [simp]: "split_on c s \<noteq> []"
  by (induction s) (auto split: list.splits)

lemma split_on_no_sep: "c \<notin> set s \<Longrightarrow> split_on c s = [s]"
  by (induction s) auto

lemma split_on_append: "split_on c (s @ c # t) = split_on c s @ split_on c t"
proof (induction s)
  case (Cons x s)
  then show ?case by (cases "split_on c s") auto
qed simp

lemma last_split_on_append: "c \<notin> set t \<Longrightarrow> last (split_on c (s @ c # t)) = t"
  by (simp add: split_on_append split_on_no_sep)

definition HasPrefix :: "string \<Rightarrow> string \<Rightarrow> bool" where
  "HasPrefix s p = (take (length p) s = p)"

lemma HasPrefix_append [simp]: "HasPrefix (p @ s) p"
  by (simp add: HasPrefix_def)

text \<open>\<open>strings.LastIndex\<close> for a one-character pattern; \<open>-1\<close> when it does not occur.\<close>

fun LastIndex :: "string \<Rightarrow> char \<Rightarrow> int" where
  "LastIndex [] c = - 1"
| "LastIndex (x # xs) c =
     (let i = LastIndex xs c in if i \<noteq> - 1 then i + 1 else if x = c then 0 else - 1)"

lemma LastIndex_absent: "c \<notin> set s \<Longrightarrow> LastIndex s c = - 1"
  by (induction s) auto

lemma LastIndex_ge: "LastIndex s c \<ge> - 1"
  by (induction s) (auto simp: Let_def)

lemma LastIndex_append: "c \<notin> set t \<Longrightarrow> LastIndex (s @ c # t) c = int (length s)"
  by (induction s) (auto simp: LastIndex_absent Let_def)

section \<open>Generic lemmas\<close>

lemma take_append_exact [simp]: "length xs = n \<Longrightarrow> take n (xs @ ys) = xs"
  by simp

lemma drop_append_exact [simp]: "length xs = n \<Longrightarrow> drop n (xs @ ys) = ys"
  by simp

lemma take_min_length [simp]: "take (min (length xs) n) xs = take n xs"
  by (cases "length xs \<le> n") (simp_all add: min_def)

lemma foldl_keeps: "(\<And>s x. P s \<Longrightarrow> P (f s x)) \<Longrightarrow> P s \<Longrightarrow> P (foldl f s xs)"
  by (induction xs arbitrary: s) auto

text \<open>
  A directory is an association list sorted by name, the order in which \<open>os.ReadDir\<close>
  returns its entries.
\<close>

fun dir_put :: "string \<Rightarrow> 'a \<Rightarrow> (string \<times> 'a) list \<Rightarrow> (string \<times> 'a) list" where
  "dir_put k v [] = [(k, v)]"
| "dir_put k v ((k', v') # d) =
     (if k = k' then (k, v) # d else if k < k' then (k, v) # (k', v') # d
      else (k', v') # dir_put k v d)"

definition dir_del :: "string \<Rightarrow> (string \<times> 'a) list \<Rightarrow> (string \<times> 'a) list" where
  "dir_del k d = filter (\<lambda>(k', v). k' \<noteq> k) d"

definition dir_wf :: "(string \<times> 'a) list \<Rightarrow> bool" where
  "dir_wf d \<longleftrightarrow> sorted (map fst d) \<and> distinct (map fst d)"

lemma map_of_dir_put [simp]: "map_of (dir_put k v d) = (map_of d)(k \<mapsto> v)"
  by (induction k v d rule: dir_put.induct) auto

lemma map_of_dir_del [simp]: "map_of (dir_del k d) = (map_of d)(k := None)"
  by (induction d) (auto simp: dir_del_def)

lemma set_keys_dir_put [simp]: "fst ` set (dir_put k v d) = insert k (fst ` set d)"
  by (induction k v d rule: dir_put.induct) auto

lemma dir_wf_put [simp]: "dir_wf d \<Longrightarrow> dir_wf (dir_put k v d)"
proof (induction k v d rule: dir_put.induct)
  case (2 k v k' v' d)
  then show ?case by (force simp: dir_wf_def)
qed (simp add: dir_wf_def)

lemma dir_wf_del [simp]: "dir_wf d \<Longrightarrow> dir_wf (dir_del k d)"
  by (induction d) (auto simp: dir_wf_def dir_del_def)

lemma dir_wf_Nil [simp]: "dir_wf []"
  by (simp add: dir_wf_def)

end
