(* ===== verification/Go_IO.thy ===== *)
theory Go_IO
  imports DFS_Prelude
begin

text \<open>
  The parts of Go's \<open>io\<close>, \<open>encoding/binary\<close> and \<open>bufio\<close> packages that the program calls.
  A reader is the list of bytes it will still deliver before it reports EOF. An \<open>io.Writer\<close>
  is a function from the bytes and the state of the sink to the count written, the error and
  the new state; its contract is the locale \<open>io_writer\<close>, interpreted here for a network
  connection, in \<open>File_System\<close> for a file, and in \<open>Adaptors\<close> for the program's
  \<open>WriterAt\<close> adapter.
\<close>

section \<open>Readers\<close>

text \<open>
  \<open>io.ReadFull\<close> into a buffer of \<open>n\<close> bytes: EOF only if nothing was read,
  \<open>ErrUnexpectedEOF\<close> if the input ended in the middle.
\<close>

definition ReadFull :: "nat \<Rightarrow> bytes \<Rightarrow> go_error + (bytes \<times> bytes)" where
  "ReadFull n inp =
     (if n \<le> length inp then Inr (take n inp, drop n inp)
      else if inp = [] then Inl EOF else Inl ErrUnexpectedEOF)"

text \<open>\<open>binary.Read(r, binary.BigEndian, &v)\<close> for a \<open>uint32\<close> and a \<open>uint64\<close>.\<close>

definition binary_Read32 :: "bytes \<Rightarrow> go_error + (u32 \<times> bytes)" where
  "binary_Read32 inp = (case ReadFull 4 inp of Inl e \<Rightarrow> Inl e | Inr (b, r) \<Rightarrow> Inr (get_uint32 b, r))"

definition binary_Read64 :: "bytes \<Rightarrow> go_error + (u64 \<times> bytes)" where
  "binary_Read64 inp = (case ReadFull 8 inp of Inl e \<Rightarrow> Inl e | Inr (b, r) \<Rightarrow> Inr (get_uint64 b, r))"

lemma ReadFull_append [simp]: "length xs = n \<Longrightarrow> ReadFull n (xs @ ys) = Inr (xs, ys)"
  by (simp add: ReadFull_def)

lemma ReadFull_Nil [simp]: "0 < n \<Longrightarrow> ReadFull n [] = Inl EOF"
  by (simp add: ReadFull_def)

lemma ReadFull_short: "inp \<noteq> [] \<Longrightarrow> length inp < n \<Longrightarrow> ReadFull n inp = Inl ErrUnexpectedEOF"
  by (simp add: ReadFull_def)

lemma ReadFull_InrD: "ReadFull n inp = Inr (b, r) \<Longrightarrow> inp = b @ r \<and> length b = n"
  by (auto simp: ReadFull_def split: if_splits)

lemma ReadFull_InlD: "ReadFull n inp = Inl e \<Longrightarrow> length inp < n \<and> (e = EOF \<longleftrightarrow> inp = [])"
  by (auto simp: ReadFull_def split: if_splits)

lemma binary_Read32_put [simp]: "binary_Read32 (put_uint32 v @ r) = Inr (v, r)"
  by (simp add: binary_Read32_def)

lemma binary_Read64_put [simp]: "binary_Read64 (put_uint64 v @ r) = Inr (v, r)"
  by (simp add: binary_Read64_def)

lemma binary_Read32_Nil [simp]: "binary_Read32 [] = Inl EOF"
  by (simp add: binary_Read32_def)

lemma binary_Read32_short:
  "inp \<noteq> [] \<Longrightarrow> length inp < 4 \<Longrightarrow> binary_Read32 inp = Inl ErrUnexpectedEOF"
  by (simp add: binary_Read32_def ReadFull_short)

lemma binary_Read32_InrD: "binary_Read32 inp = Inr (v, r) \<Longrightarrow> length inp = 4 + length r"
  by (auto simp: binary_Read32_def dest: ReadFull_InrD split: sum.splits)

lemma binary_Read32_InlD:
  "binary_Read32 inp = Inl e \<Longrightarrow> length inp < 4 \<and> (e = EOF \<longleftrightarrow> inp = [])"
  by (auto simp: binary_Read32_def dest: ReadFull_InlD split: sum.splits)

section \<open>Writers\<close>

type_synonym 's write_fn = "bytes \<Rightarrow> 's \<Rightarrow> nat \<times> go_error option \<times> 's"

text \<open>
  The contract of \<open>io.Writer\<close>: a prefix of the bytes reaches the sink, and all of them do if
  no error is returned. \<open>ok\<close> is the sink's own invariant, \<open>view\<close> what has reached it, and
  \<open>healthy\<close> a state in which writes do not fail.
\<close>

locale io_writer =
  fixes wr :: "'s write_fn"
    and ok :: "'s \<Rightarrow> bool"
    and healthy :: "'s \<Rightarrow> bool"
    and view :: "'s \<Rightarrow> bytes"
  assumes ok_wr: "ok s \<Longrightarrow> wr p s = (n, e, s') \<Longrightarrow> ok s'"
    and view_wr: "ok s \<Longrightarrow> wr p s = (n, e, s') \<Longrightarrow> n \<le> length p \<and> view s' = view s @ take n p"
    and full_wr: "ok s \<Longrightarrow> wr p s = (n, None, s') \<Longrightarrow> n = length p"
    and healthy_wr: "ok s \<Longrightarrow> healthy s \<Longrightarrow> wr p s = (n, e, s') \<Longrightarrow> e = None \<and> healthy s'"

text \<open>
  \<open>io.CopyN(w, r, n)\<close> and \<open>io.Copy(w, r)\<close>: the error, the bytes left unread in the reader
  and the new state of the sink. A failed write comes after its 32 KiB block has been taken
  from the reader.
\<close>

definition CopyN :: "'s write_fn \<Rightarrow> nat \<Rightarrow> bytes \<Rightarrow> 's \<Rightarrow> go_error option \<times> bytes \<times> 's" where
  "CopyN wr n src s =
     (if take n src = [] then (if n = 0 then None else Some EOF, src, s)
      else let (m, e, s') = wr (take n src) s
           in case e of
                Some er \<Rightarrow> (Some er, drop (min n ((m div 32768 + 1) * 32768)) src, s')
              | None \<Rightarrow> (if length src < n then Some EOF else None, drop n src, s'))"

definition Copy :: "'s write_fn \<Rightarrow> bytes \<Rightarrow> 's \<Rightarrow> go_error option \<times> 's" where
  "Copy wr src s = (if src = [] then (None, s) else let (m, e, s') = wr src s in (e, s'))"

text \<open>
  \<open>bufio.Writer\<close>: buffered bytes and the sticky error. \<open>Flush\<close> and \<open>Write\<close> follow the
  library: a write larger than an empty buffer goes straight to the sink, one that does not
  fit tops the buffer up and flushes it.
\<close>

record bufio =
  bbuf :: bytes
  berr :: "go_error option"

definition bufio_size :: nat where
  "bufio_size = 4096"

definition NewWriter :: bufio where
  "NewWriter = \<lparr>bbuf = [], berr = None\<rparr>"

definition bufio_Flush :: "'s write_fn \<Rightarrow> bufio \<Rightarrow> 's \<Rightarrow> go_error option \<times> bufio \<times> 's" where
  "bufio_Flush wr b s =
     (if berr b \<noteq> None then (berr b, b, s)
      else if bbuf b = [] then (None, b, s)
      else let (m, e, s') = wr (bbuf b) s
           in (e, b\<lparr>bbuf := drop m (bbuf b), berr := e\<rparr>, s'))"

definition bufio_put :: "'s write_fn \<Rightarrow> bytes \<Rightarrow> bufio \<Rightarrow> 's \<Rightarrow> go_error option \<times> bufio \<times> 's" where
  "bufio_put wr p b s =
     (if berr b \<noteq> None then (berr b, b, s)
      else if length p \<le> bufio_size - length (bbuf b) then (None, b\<lparr>bbuf := bbuf b @ p\<rparr>, s)
      else let (m, e, s') = wr p s in (e, b\<lparr>berr := e\<rparr>, s'))"

definition bufio_Write :: "'s write_fn \<Rightarrow> bytes \<Rightarrow> bufio \<Rightarrow> 's \<Rightarrow> go_error option \<times> bufio \<times> 's" where
  "bufio_Write wr p b s =
     (let n = bufio_size - length (bbuf b)
      in if length p \<le> n \<or> bbuf b = [] then bufio_put wr p b s
         else if berr b \<noteq> None then (berr b, b, s)
         else let (e, b', s') = bufio_Flush wr (b\<lparr>bbuf := bbuf b @ take n p\<rparr>) s
              in bufio_put wr (drop n p) b' s')"

context io_writer
begin

lemma wr_None: "ok s \<Longrightarrow> wr p s = (m, None, s') \<Longrightarrow> m = length p \<and> ok s' \<and> view s' = view s @ p"
  using full_wr [of s p m s'] view_wr [of s p m None s'] ok_wr [of s p m None s'] by simp

lemma wr_healthy:
  assumes "ok s" "healthy s"
  shows "\<exists>s'. wr p s = (length p, None, s') \<and> ok s' \<and> healthy s' \<and> view s' = view s @ p"
proof -
  obtain m e s' where w: "wr p s = (m, e, s')" by (cases "wr p s")
  with healthy_wr [OF assms w] wr_None [OF assms(1), of p m s'] show ?thesis by auto
qed

lemma CopyN_ok: "ok s \<Longrightarrow> CopyN wr n src s = (e, left, s') \<Longrightarrow> ok s'"
  by (auto simp: CopyN_def Let_def split: prod.splits option.splits if_splits dest: ok_wr)

lemma CopyN_None:
  assumes "ok s" "CopyN wr n src s = (None, left, s')"
  shows "n \<le> length src \<and> view s' = view s @ take n src \<and> left = drop n src"
proof (cases "take n src = []")
  case True
  with assms show ?thesis by (auto simp: CopyN_def split: if_splits)
next
  case False
  with assms obtain m where w: "wr (take n src) s = (m, None, s')"
    and "n \<le> length src" "left = drop n src"
    by (auto simp: CopyN_def Let_def split: prod.splits option.splits if_splits)
  with wr_None [OF assms(1) w] show ?thesis by simp
qed

lemma CopyN_healthy:
  assumes "ok s" "healthy s" "n \<le> length src"
  shows "\<exists>s'. CopyN wr n src s = (None, drop n src, s') \<and> ok s' \<and> healthy s'
           \<and> view s' = view s @ take n src"
proof (cases "take n src = []")
  case True
  with assms show ?thesis by (auto simp: CopyN_def)
next
  case False
  from wr_healthy [OF assms(1,2), of "take n src"] False assms show ?thesis by (auto simp: CopyN_def)
qed

lemma CopyN_short:
  assumes "ok s" "length src < n"
  shows "fst (CopyN wr n src s) \<noteq> None"
  using assms by (auto simp: CopyN_def Let_def split: prod.splits option.splits)

lemma CopyN_view:
  assumes "ok s" "CopyN wr n src s = (e, left, s')"
  shows "\<exists>k \<le> length (take n src). view s' = view s @ take k (take n src)"
proof (cases "take n src = []")
  case True
  with assms show ?thesis by (auto simp: CopyN_def)
next
  case False
  with assms obtain m e' where "wr (take n src) s = (m, e', s')"
    by (auto simp: CopyN_def Let_def split: prod.splits option.splits if_splits)
  from view_wr [OF assms(1) this] show ?thesis by auto
qed

lemma Copy_healthy:
  assumes "ok s" "healthy s"
  shows "\<exists>s'. Copy wr src s = (None, s') \<and> ok s' \<and> healthy s' \<and> view s' = view s @ src"
proof (cases "src = []")
  case True
  with assms show ?thesis by (auto simp: Copy_def)
next
  case False
  from wr_healthy [OF assms(1,2), of src] False assms show ?thesis by (auto simp: Copy_def)
qed

lemma Copy_None:
  assumes "ok s" "Copy wr src s = (None, s')"
  shows "view s' = view s @ src \<and> ok s'"
proof (cases "src = []")
  case True
  with assms show ?thesis by (auto simp: Copy_def)
next
  case False
  with assms obtain m where w: "wr src s = (m, None, s')"
    by (auto simp: Copy_def Let_def split: prod.splits)
  from wr_None [OF assms(1) w] show ?thesis by simp
qed

lemma bufio_Flush_ok: "ok s \<Longrightarrow> bufio_Flush wr b s = (e, b', s') \<Longrightarrow> ok s'"
  by (auto simp: bufio_Flush_def Let_def split: prod.splits if_splits dest: ok_wr)

lemma bufio_Flush_view:
  "ok s \<Longrightarrow> bufio_Flush wr b s = (e, b', s') \<Longrightarrow> view s' @ bbuf b' = view s @ bbuf b \<and> berr b' = e"
  by (auto simp: bufio_Flush_def Let_def split: prod.splits if_splits dest!: view_wr)

lemma bufio_Flush_None:
  assumes "ok s" "bufio_Flush wr b s = (None, b', s')"
  shows "bbuf b' = [] \<and> berr b' = None \<and> view s' = view s @ bbuf b"
proof (cases "bbuf b = []")
  case True
  with assms show ?thesis by (auto simp: bufio_Flush_def Let_def split: prod.splits if_splits)
next
  case False
  with assms obtain m where w: "wr (bbuf b) s = (m, None, s')"
    and "b' = b\<lparr>bbuf := drop m (bbuf b), berr := None\<rparr>"
    by (auto simp: bufio_Flush_def Let_def split: prod.splits if_splits)
  with wr_None [OF assms(1) w] show ?thesis by simp
qed

lemma bufio_Flush_healthy:
  assumes "ok s" "healthy s" "berr b = None"
  shows "\<exists>s'. bufio_Flush wr b s = (None, NewWriter, s') \<and> ok s' \<and> healthy s'
           \<and> view s' = view s @ bbuf b"
proof (cases "bbuf b = []")
  case True
  with assms show ?thesis by (auto simp: bufio_Flush_def NewWriter_def)
next
  case False
  from wr_healthy [OF assms(1,2), of "bbuf b"] False assms show ?thesis by (auto simp: bufio_Flush_def NewWriter_def)
qed

lemma bufio_put_healthy:
  assumes "ok s" "healthy s" "berr b = None"
    "length p \<le> bufio_size - length (bbuf b) \<or> bbuf b = []"
  shows "\<exists>b' s'. bufio_put wr p b s = (None, b', s') \<and> ok s' \<and> healthy s' \<and> berr b' = None
           \<and> view s' @ bbuf b' = view s @ bbuf b @ p"
proof (cases "length p \<le> bufio_size - length (bbuf b)")
  case True
  with assms show ?thesis by (auto simp: bufio_put_def)
next
  case False
  from wr_healthy [OF assms(1,2), of p] False assms show ?thesis by (auto simp: bufio_put_def)
qed

lemma bufio_Write_healthy:
  assumes "ok s" "healthy s" "berr b = None"
  shows "\<exists>b' s'. bufio_Write wr p b s = (None, b', s') \<and> ok s' \<and> healthy s' \<and> berr b' = None
           \<and> view s' @ bbuf b' = view s @ bbuf b @ p"
proof (cases "length p \<le> bufio_size - length (bbuf b) \<or> bbuf b = []")
  case True
  with bufio_put_healthy [OF assms True] show ?thesis by (simp add: bufio_Write_def)
next
  case False
  let ?n = "bufio_size - length (bbuf b)" and ?b = "b\<lparr>bbuf := bbuf b @ take (bufio_size - length (bbuf b)) p\<rparr>"
  from assms(3) have "berr ?b = None" by simp
  from bufio_Flush_healthy [OF assms(1,2) this] obtain s1 where
    f: "bufio_Flush wr ?b s = (None, NewWriter, s1)" "ok s1" "healthy s1" "view s1 = view s @ bbuf ?b"
    by blast
  from f bufio_put_healthy [of s1 NewWriter "drop ?n p"] obtain b' s' where
    "bufio_put wr (drop ?n p) NewWriter s1 = (None, b', s')" "ok s'" "healthy s'" "berr b' = None"
    "view s' @ bbuf b' = view s1 @ drop ?n p"
    by (auto simp: NewWriter_def)
  with f False assms(3) show ?thesis by (auto simp: bufio_Write_def Let_def)
qed

text \<open>A write through the buffer only adds to what has reached the sink.\<close>

lemma bufio_Flush_extends: "ok s \<Longrightarrow> bufio_Flush wr b s = (e, b', s') \<Longrightarrow> ok s' \<and> (\<exists>q. view s' = view s @ q)"
  by (auto simp: bufio_Flush_def Let_def split: prod.splits if_splits dest: ok_wr view_wr)

lemma bufio_put_extends: "ok s \<Longrightarrow> bufio_put wr p b s = (e, b', s') \<Longrightarrow> ok s' \<and> (\<exists>q. view s' = view s @ q)"
  by (auto simp: bufio_put_def Let_def split: prod.splits if_splits dest: ok_wr view_wr)

lemma bufio_Write_extends:
  assumes "ok s" "bufio_Write wr p b s = (e, b', s')"
  shows "ok s' \<and> (\<exists>q. view s' = view s @ q)"
proof (cases "length p \<le> bufio_size - length (bbuf b) \<or> bbuf b = [] \<or> berr b \<noteq> None")
  case True
  with assms bufio_put_extends [OF assms(1)] show ?thesis
    by (auto simp: bufio_Write_def Let_def split: if_splits)
next
  case False
  let ?n = "bufio_size - length (bbuf b)"
  obtain e1 b1 s1 where f: "bufio_Flush wr (b\<lparr>bbuf := bbuf b @ take ?n p\<rparr>) s = (e1, b1, s1)"
    by (cases "bufio_Flush wr (b\<lparr>bbuf := bbuf b @ take ?n p\<rparr>) s")
  with False assms(2) have p: "bufio_put wr (drop ?n p) b1 s1 = (e, b', s')" by (auto simp: bufio_Write_def Let_def)
  from bufio_Flush_extends [OF assms(1) f] obtain q where "ok s1" "view s1 = view s @ q" by blast
  with bufio_put_extends [OF _ p] show ?thesis by auto
qed

end

section \<open>Network connections\<close>

text \<open>
  The outgoing half of a TCP connection: what has been sent, and how many more bytes the
  connection accepts before it breaks (\<open>None\<close> for a connection that does not break).
\<close>

record conn =
  cout :: bytes
  croom :: "nat option"

definition conn_Write :: "conn write_fn" where
  "conn_Write p c =
     (case croom c of
        None \<Rightarrow> (length p, None, c\<lparr>cout := cout c @ p\<rparr>)
      | Some k \<Rightarrow> if length p \<le> k
                   then (length p, None, c\<lparr>cout := cout c @ p, croom := Some (k - length p)\<rparr>)
                   else (k, Some ErrClosedConn, c\<lparr>cout := cout c @ take k p, croom := Some 0\<rparr>))"

definition new_conn :: conn where
  "new_conn = \<lparr>cout = [], croom = None\<rparr>"

interpretation cw: io_writer conn_Write "\<lambda>_. True" "\<lambda>c. croom c = None" cout
  by unfold_locales (auto simp: conn_Write_def split: option.splits if_splits)

lemma new_conn_simps [simp]: "cout new_conn = []" "croom new_conn = None"
  by (simp_all add: new_conn_def)

lemma conn_Write_healthy [simp]:
  "croom c = None \<Longrightarrow> conn_Write p c = (length p, None, c\<lparr>cout := cout c @ p\<rparr>)"
  by (simp add: conn_Write_def)

end
