(* ===== verification/File_System.thy ===== *)
theory File_System
  imports Go_IO
begin

text \<open>
  The operating-system files the program works on, as far as package \<open>os\<close> shows them: named
  files with their contents and the part of the contents that \<open>Sync\<close> has made durable,
  sub-directories, and an environment that may make any operation fail. \<open>faults\<close> says which
  operations fail on which name, and \<open>room\<close> how many more bytes can be written to a file
  before a write fails (\<open>None\<close>: no limit).
\<close>

datatype fs_op = OpOpen | OpCreate | OpMkdirAll | OpReadDir | OpStat | OpSync | OpRemove | OpRename

datatype node = File (fdata: bytes) (fsynced: bytes) | Dir

record fs =
  entries :: "(string \<times> node) list"
  faults :: "fs_op \<Rightarrow> string \<Rightarrow> bool"
  room :: "string \<Rightarrow> nat option"

definition fs_node :: "fs \<Rightarrow> string \<Rightarrow> node option" where
  "fs_node s nm = map_of (entries s) nm"

definition fs_put :: "string \<Rightarrow> node \<Rightarrow> fs \<Rightarrow> fs" where
  "fs_put nm nd s = s\<lparr>entries := dir_put nm nd (entries s)\<rparr>"

definition is_file :: "fs \<Rightarrow> string \<Rightarrow> bool" where
  "is_file s nm = (case fs_node s nm of Some (File d y) \<Rightarrow> True | _ \<Rightarrow> False)"

definition file_data :: "string \<Rightarrow> fs \<Rightarrow> bytes" where
  "file_data nm s = (case fs_node s nm of Some (File d y) \<Rightarrow> d | _ \<Rightarrow> [])"

definition file_synced :: "string \<Rightarrow> fs \<Rightarrow> bytes" where
  "file_synced nm s = (case fs_node s nm of Some (File d y) \<Rightarrow> y | _ \<Rightarrow> [])"

text \<open>An environment in which nothing fails.\<close>

definition no_faults :: "fs \<Rightarrow> bool" where
  "no_faults s \<longleftrightarrow> faults s = (\<lambda>_ _. False) \<and> room s = (\<lambda>_. None)"

definition empty_fs :: fs where
  "empty_fs = \<lparr>entries = [], faults = (\<lambda>_ _. False), room = (\<lambda>_. None)\<rparr>"

section \<open>Operations\<close>

text \<open>Opening a file for reading yields its contents; a missing file is \<open>ErrNotExist\<close>.\<close>

definition fs_Open :: "string \<Rightarrow> fs \<Rightarrow> go_error + bytes" where
  "fs_Open nm s =
     (if faults s OpOpen nm then Inl ErrIO
      else case fs_node s nm of
             None \<Rightarrow> Inl ErrNotExist | Some Dir \<Rightarrow> Inl ErrIO | Some (File d y) \<Rightarrow> Inr d)"

text \<open>\<open>os.Create\<close>, and \<open>os.OpenFile\<close> with \<open>O_CREATE | O_TRUNC\<close>: the file is emptied.\<close>

definition fs_Create :: "string \<Rightarrow> fs \<Rightarrow> go_error option \<times> fs" where
  "fs_Create nm s =
     (if faults s OpCreate nm \<or> fs_node s nm = Some Dir then (Some ErrIO, s)
      else (None, fs_put nm (File [] []) s))"

text \<open>\<open>os.OpenFile\<close> with \<open>O_CREATE\<close> but without \<open>O_TRUNC\<close>: existing contents stay.\<close>

definition fs_OpenCreate :: "string \<Rightarrow> fs \<Rightarrow> go_error option \<times> fs" where
  "fs_OpenCreate nm s =
     (if faults s OpCreate nm \<or> fs_node s nm = Some Dir then (Some ErrIO, s)
      else case fs_node s nm of None \<Rightarrow> (None, fs_put nm (File [] []) s) | Some nd \<Rightarrow> (None, s))"

definition fs_Remove :: "string \<Rightarrow> fs \<Rightarrow> go_error option \<times> fs" where
  "fs_Remove nm s =
     (if fs_node s nm = None then (Some ErrNotExist, s)
      else if faults s OpRemove nm then (Some ErrIO, s)
      else (None, s\<lparr>entries := dir_del nm (entries s)\<rparr>))"

definition fs_Rename :: "string \<Rightarrow> string \<Rightarrow> fs \<Rightarrow> go_error option \<times> fs" where
  "fs_Rename old new s =
     (case fs_node s old of
        None \<Rightarrow> (Some ErrNotExist, s)
      | Some nd \<Rightarrow> if faults s OpRename old \<or> fs_node s new = Some Dir then (Some ErrIO, s)
                   else (None, s\<lparr>entries := dir_put new nd (dir_del old (entries s))\<rparr>))"

definition fs_Sync :: "string \<Rightarrow> fs \<Rightarrow> go_error option \<times> fs" where
  "fs_Sync nm s =
     (if faults s OpSync nm then (Some ErrIO, s)
      else case fs_node s nm of
             Some (File d y) \<Rightarrow> (None, fs_put nm (File d d) s) | _ \<Rightarrow> (None, s))"

text \<open>\<open>os.ReadDir\<close>: the entries in name order, each with \<open>IsDir\<close>.\<close>

definition fs_ReadDir :: "string \<Rightarrow> fs \<Rightarrow> go_error + (string \<times> bool) list" where
  "fs_ReadDir dir s =
     (if faults s OpReadDir dir then Inl ErrIO
      else Inr (map (\<lambda>(nm, nd). (nm, nd = Dir)) (entries s)))"

text \<open>
  Writing. \<open>write_at off p d\<close> puts \<open>p\<close> at offset \<open>off\<close>, filling a gap with zeros; \<open>fs_Append\<close>
  is \<open>Write\<close> on a file opened at its end, \<open>fs_WriteAt\<close> is \<open>WriteAt\<close>, and \<open>file_Write\<close> is
  \<open>Write\<close> on a handle that carries its own offset.
\<close>

definition write_at :: "nat \<Rightarrow> bytes \<Rightarrow> bytes \<Rightarrow> bytes" where
  "write_at off p d =
     take off (d @ replicate (off - length d) 0) @ p @ drop (off + length p) d"

definition fs_WriteAt :: "string \<Rightarrow> nat \<Rightarrow> fs write_fn" where
  "fs_WriteAt nm off p s =
     (let (n, e, s1) = (case room s nm of
            None \<Rightarrow> (length p, None, s)
          | Some k \<Rightarrow> if length p \<le> k
                       then (length p, None, s\<lparr>room := (room s)(nm := Some (k - length p))\<rparr>)
                       else (k, Some ErrIO, s\<lparr>room := (room s)(nm := Some 0)\<rparr>))
      in (n, e, case fs_node s nm of
                  Some (File d y) \<Rightarrow> if n = 0 then s1 else fs_put nm (File (write_at off (take n p) d) y) s1
                | _ \<Rightarrow> s1))"

definition fs_Append :: "string \<Rightarrow> fs write_fn" where
  "fs_Append nm p s = fs_WriteAt nm (length (file_data nm s)) p s"

definition file_Write :: "string \<Rightarrow> (nat \<times> fs) write_fn" where
  "file_Write nm p h = (let (n, e, s') = fs_WriteAt nm (fst h) p (snd h) in (n, e, (fst h + n, s')))"

section \<open>Lemmas\<close>

lemma fs_node_put [simp]: "fs_node (fs_put nm nd s) x = (if x = nm then Some nd else fs_node s x)"
  by (simp add: fs_node_def fs_put_def)

lemma faults_put [simp]: "faults (fs_put nm nd s) = faults s" "room (fs_put nm nd s) = room s"
  by (simp_all add: fs_put_def)

lemma fs_node_room [simp]: "fs_node (s\<lparr>room := r\<rparr>) = fs_node s"
  by (simp add: fs_node_def fun_eq_iff)

lemma is_file_iff: "is_file s nm \<longleftrightarrow> (\<exists>y. fs_node s nm = Some (File (file_data nm s) y))"
  by (auto simp: is_file_def file_data_def split: option.splits node.splits)

lemma file_data_put [simp]:
  "file_data x (fs_put nm (File d y) s) = (if x = nm then d else file_data x s)"
  by (simp add: file_data_def)

lemma file_synced_put [simp]:
  "file_synced x (fs_put nm (File d y) s) = (if x = nm then y else file_synced x s)"
  by (simp add: file_synced_def)

lemma is_file_put [simp]:
  "is_file (fs_put nm (File d y) s) x \<longleftrightarrow> x = nm \<or> is_file s x"
  by (simp add: is_file_def)

lemma dir_wf_fs_put [simp]: "dir_wf (entries s) \<Longrightarrow> dir_wf (entries (fs_put nm nd s))"
  by (simp add: fs_put_def)

lemma no_faults_put [simp]: "no_faults (fs_put nm nd s) = no_faults s"
  by (simp add: no_faults_def)

lemma no_faultsD:
  "no_faults s \<Longrightarrow> \<not> faults s op nm" "no_faults s \<Longrightarrow> room s nm = None"
  by (simp_all add: no_faults_def)

lemma no_faults_entries [simp]: "no_faults (s\<lparr>entries := x\<rparr>) = no_faults s"
  by (simp add: no_faults_def)

lemma file_data_room [simp]: "file_data nm (s\<lparr>room := r\<rparr>) = file_data nm s"
  by (simp add: file_data_def)

lemma is_file_room [simp]: "is_file (s\<lparr>room := r\<rparr>) nm = is_file s nm"
  by (simp add: is_file_def)

lemma write_at_end [simp]: "write_at (length d) p d = d @ p"
  by (simp add: write_at_def)

lemma length_write_at: "length (write_at off p d) = max (length d) (off + length p)"
  by (auto simp: write_at_def max_def min_def)

lemma write_at_zero [simp]: "write_at 0 p d = p @ drop (length p) d"
  by (simp add: write_at_def)

lemma take_write_at: "off \<le> length d \<Longrightarrow> take (off + length p) (write_at off p d) = take off d @ p"
  by (simp add: write_at_def)

lemma fs_WriteAt_no_room_limit:
  "room s nm = None \<Longrightarrow> fs_node s nm = Some (File d y) \<Longrightarrow>
   fs_WriteAt nm off p s =
     (length p, None, if p = [] then s else fs_put nm (File (write_at off p d) y) s)"
  by (simp add: fs_WriteAt_def)

lemma fs_WriteAt_other:
  "fs_WriteAt nm off p s = (n, e, s') \<Longrightarrow> x \<noteq> nm \<Longrightarrow> fs_node s' x = fs_node s x"
  by (auto simp: fs_WriteAt_def split: option.splits node.splits if_splits)

lemma fs_WriteAt_file:
  assumes "fs_WriteAt nm off p s = (n, e, s')" "fs_node s nm = Some (File d y)"
  shows "n \<le> length p \<and> (e = None \<longrightarrow> n = length p) \<and>
    fs_node s' nm = Some (File (if n = 0 then d else write_at off (take n p) d) y)"
  using assms by (auto simp: fs_WriteAt_def split: option.splits if_splits)

lemma fs_WriteAt_dir_wf:
  "dir_wf (entries s) \<Longrightarrow> fs_WriteAt nm off p s = (n, e, s') \<Longrightarrow> dir_wf (entries s')"
  by (auto simp: fs_WriteAt_def split: option.splits node.splits if_splits)

lemma fs_WriteAt_faults: "fs_WriteAt nm off p s = (n, e, s') \<Longrightarrow> faults s' = faults s"
  by (auto simp: fs_WriteAt_def split: option.splits node.splits if_splits)

lemma fs_WriteAt_healthy:
  "room s nm = None \<Longrightarrow> fs_WriteAt nm off p s = (n, e, s') \<Longrightarrow> e = None \<and> room s' = room s"
  by (auto simp: fs_WriteAt_def split: option.splits node.splits if_splits)

text \<open>A file opened at its end and a handle with an offset meet the contract of \<open>io.Writer\<close>.\<close>

interpretation fw: io_writer "fs_Append nm" "\<lambda>s. is_file s nm" "\<lambda>s. room s nm = None" "file_data nm"
  for nm
proof unfold_locales
  fix s p n e s'
  assume a: "is_file s nm" "fs_Append nm p s = (n, e, s')"
  from a(1) obtain y where f: "fs_node s nm = Some (File (file_data nm s) y)"
    by (auto simp: is_file_iff)
  from fs_WriteAt_file [OF _ f] a(2) have
    "n \<le> length p \<and> (e = None \<longrightarrow> n = length p) \<and>
     fs_node s' nm = Some (File (file_data nm s @ take n p) y)"
    by (fastforce simp: fs_Append_def)
  then show "is_file s' nm" "n \<le> length p \<and> file_data nm s' = file_data nm s @ take n p"
    by (simp_all add: is_file_def file_data_def)
next
  fix s p n s'
  assume a: "is_file s nm" "fs_Append nm p s = (n, None, s')"
  from a(1) obtain y where f: "fs_node s nm = Some (File (file_data nm s) y)"
    by (auto simp: is_file_iff)
  from fs_WriteAt_file [OF _ f] a(2) show "n = length p"
    by (fastforce simp: fs_Append_def)
next
  fix s p n e s'
  assume "is_file s nm" and h: "room s nm = None" and w: "fs_Append nm p s = (n, e, s')"
  from fs_WriteAt_healthy [OF h w [unfolded fs_Append_def]] h
  show "e = None \<and> room s' nm = None" by simp
qed

definition handle_ok :: "string \<Rightarrow> nat \<times> fs \<Rightarrow> bool" where
  "handle_ok nm h \<longleftrightarrow> is_file (snd h) nm \<and> fst h \<le> length (file_data nm (snd h))"

definition handle_view :: "string \<Rightarrow> nat \<times> fs \<Rightarrow> bytes" where
  "handle_view nm h = take (fst h) (file_data nm (snd h))"

lemma file_Write_step:
  assumes "handle_ok nm h" "file_Write nm p h = (n, e, h')"
  shows "n \<le> length p \<and> (e = None \<longrightarrow> n = length p) \<and> handle_ok nm h' \<and>
    handle_view nm h' = handle_view nm h @ take n p"
proof -
  from assms(2) obtain s' where w: "fs_WriteAt nm (fst h) p (snd h) = (n, e, s')"
    and h': "h' = (fst h + n, s')" by (auto simp: file_Write_def split: prod.splits)
  from assms(1) obtain y where f: "fs_node (snd h) nm = Some (File (file_data nm (snd h)) y)"
    and le: "fst h \<le> length (file_data nm (snd h))" by (auto simp: handle_ok_def is_file_iff)
  from fs_WriteAt_file [OF w f] have n: "n \<le> length p" "e = None \<longrightarrow> n = length p"
    and g: "fs_node s' nm = Some (File (if n = 0 then file_data nm (snd h)
              else write_at (fst h) (take n p) (file_data nm (snd h))) y)" by blast+
  have d: "file_data nm s' = (if n = 0 then file_data nm (snd h)
              else write_at (fst h) (take n p) (file_data nm (snd h)))"
    using g by (simp add: file_data_def)
  from n(1) le take_write_at [OF le, of "take n p"] d
  have "take (fst h + n) (file_data nm s') = take (fst h) (file_data nm (snd h)) @ take n p"
    by (cases "n = 0") (auto simp: min_def split: if_splits)
  moreover have "fst h + n \<le> length (file_data nm s')"
    using le n(1) d by (cases "n = 0") (simp_all add: length_write_at)
  moreover have "is_file s' nm" using g by (simp add: is_file_def)
  ultimately show ?thesis using n h' by (simp add: handle_ok_def handle_view_def)
qed

interpretation fh: io_writer "file_Write nm" "handle_ok nm" "\<lambda>h. room (snd h) nm = None" "handle_view nm"
  for nm
proof unfold_locales
  fix h p n e h'
  assume a: "handle_ok nm h" "file_Write nm p h = (n, e, h')"
  from file_Write_step [OF a]
  show "handle_ok nm h'" "n \<le> length p \<and> handle_view nm h' = handle_view nm h @ take n p" by blast+
next
  fix h p n h'
  assume a: "handle_ok nm h" "file_Write nm p h = (n, None, h')"
  from file_Write_step [OF a] show "n = length p" by blast
next
  fix h p n e h'
  assume "handle_ok nm h" and r: "room (snd h) nm = None" and w: "file_Write nm p h = (n, e, h')"
  from w obtain s' where "fs_WriteAt nm (fst h) p (snd h) = (n, e, s')" "h' = (fst h + n, s')"
    by (auto simp: file_Write_def split: prod.splits)
  with fs_WriteAt_healthy [OF r] r show "e = None \<and> room (snd h') nm = None" by fastforce
qed

end
