(* ===== verification/File_Types.thy ===== *)
theory File_Types
  imports DFS_Prelude
begin

text \<open>
  The data exchanged between client, metadata server and chunk servers: the protobuf messages
  of \<open>internal/files/file_meta.pb.go\<close> and \<open>internal/wal/wal_entry.pb.go\<close>, the chunk types of
  \<open>internal/files/file_types.go\<close>, and the two serialisation libraries, which are parameters of
  the model (\<open>google.golang.org/protobuf\<close> and, behind the interface \<open>Encoder\<close>,
  \<open>encoding/gob\<close>). An \<open>int64\<close> field is an \<^typ>\<open>int\<close>.
\<close>

record ChunkInfo =
  ci_Size :: u32
  ci_Offset :: int
  ci_Addr :: string

record FileMetadata =
  fm_Size :: int
  fm_Name :: string
  fm_ChunkInfo :: "string \<rightharpoonup> ChunkInfo"

record ChunkMetaData =
  cm_Id :: string
  cm_ChunkInfo :: ChunkInfo

record WAL_Entry =
  LogSequenceNo :: u64
  Data :: bytes
  CRC :: u32
  IsDelete :: "bool option"

text \<open>The generated getters on a possibly nil pointer.\<close>

definition GetName :: "FileMetadata option \<Rightarrow> string" where
  "GetName x = (case x of None \<Rightarrow> '''' | Some m \<Rightarrow> fm_Name m)"

definition GetLogSequenceNo :: "WAL_Entry option \<Rightarrow> u64" where
  "GetLogSequenceNo x = (case x of None \<Rightarrow> 0 | Some e \<Rightarrow> LogSequenceNo e)"

definition GetData :: "WAL_Entry option \<Rightarrow> bytes" where
  "GetData x = (case x of None \<Rightarrow> [] | Some e \<Rightarrow> Data e)"

definition GetCRC :: "WAL_Entry option \<Rightarrow> u32" where
  "GetCRC x = (case x of None \<Rightarrow> 0 | Some e \<Rightarrow> CRC e)"

definition GetIsDelete :: "WAL_Entry option \<Rightarrow> bool" where
  "GetIsDelete x = (case x of Some e \<Rightarrow> (case IsDelete e of Some b \<Rightarrow> b | None \<Rightarrow> False) | None \<Rightarrow> False)"

lemmas getter_defs = GetName_def GetLogSequenceNo_def GetData_def GetCRC_def GetIsDelete_def

text \<open>
  A protobuf message type as the program uses it: \<open>proto.Marshal\<close> may fail (a string that is
  not UTF-8), \<open>proto.Unmarshal\<close> may fail on foreign bytes. What the program relies on is that
  \<open>Unmarshal\<close> inverts \<open>Marshal\<close> and that no bytes at all decode to the empty message.
\<close>

record 'a proto =
  Marshal :: "'a \<Rightarrow> go_error + bytes"
  Unmarshal :: "bytes \<Rightarrow> go_error + 'a"

definition proto_ok :: "'a proto \<Rightarrow> bool" where
  "proto_ok P \<longleftrightarrow> (\<forall>m b. Marshal P m = Inr b \<longrightarrow> Unmarshal P b = Inr m)"

definition empty_meta :: FileMetadata where
  "empty_meta = \<lparr>fm_Size = 0, fm_Name = '''', fm_ChunkInfo = Map.empty\<rparr>"

definition proto_empty_ok :: "FileMetadata proto \<Rightarrow> bool" where
  "proto_empty_ok P \<longleftrightarrow> Unmarshal P [] = Inr empty_meta"

text \<open>
  \<open>encoding/gob\<close> at the chunk metadata: \<open>gob_Decode\<close> returns the value and the bytes of the reader
  it has not consumed. \<open>encoder_Encode\<close> and \<open>encoder_Decode\<close> are \<open>internal/encoder/encoder.go\<close> over it.
\<close>

record gob =
  gob_Encode :: "ChunkMetaData \<Rightarrow> go_error + bytes"
  gob_Decode :: "bytes \<Rightarrow> go_error + (ChunkMetaData \<times> bytes)"

definition encoder_Encode :: "gob \<Rightarrow> ChunkMetaData \<Rightarrow> go_error + bytes" where
  "encoder_Encode G v =
     (case gob_Encode G v of Inl e \<Rightarrow> Inl (wrap ''failed to encode struct'' e) | Inr b \<Rightarrow> Inr b)"

definition encoder_Decode :: "gob \<Rightarrow> bytes \<Rightarrow> go_error + (ChunkMetaData \<times> bytes)" where
  "encoder_Decode G r =
     (case gob_Decode G r of Inl e \<Rightarrow> Inl (wrap ''failed to decode to struct'' e) | Inr x \<Rightarrow> Inr x)"

definition gob_ok :: "gob \<Rightarrow> bool" where
  "gob_ok G \<longleftrightarrow> (\<forall>m b. gob_Encode G m = Inr b \<longrightarrow> gob_Decode G b = Inr (m, []))"

lemma proto_okD: "proto_ok P \<Longrightarrow> Marshal P m = Inr b \<Longrightarrow> Unmarshal P b = Inr m"
  by (simp add: proto_ok_def)

lemma gob_okD: "gob_ok G \<Longrightarrow> gob_Encode G m = Inr b \<Longrightarrow> gob_Decode G b = Inr (m, [])"
  by (simp add: gob_ok_def)

end
