(* ===== verification/Framing.thy ===== *)
theory Framing
  imports Go_IO
begin

text \<open>
  Streams of self-delimiting records. The program has three of them: messages on a
  connection, entries in a log segment and file records in a snapshot. The locale \<open>framing\<close>
  is what a decoder promises about its encoder, for a codec \<open>c\<close> (the serialisation library
  the record contents go through) that is \<open>ok\<close>, and for values that are \<open>wf\<close>;
  \<open>strict_framing\<close> adds that a record cut short is rejected with an error other than EOF.
\<close>

locale framing =
  fixes ok :: "'c \<Rightarrow> bool"
    and wf :: "'c \<Rightarrow> 'a \<Rightarrow> bool"
    and put :: "'c \<Rightarrow> 'a \<Rightarrow> bytes"
    and get :: "'c \<Rightarrow> bytes \<Rightarrow> go_error + ('a \<times> bytes)"
  assumes get_put: "ok c \<Longrightarrow> wf c x \<Longrightarrow> get c (put c x @ r) = Inr (x, r)"
    and put_nonempty: "put c x \<noteq> []"
    and get_end: "\<exists>e. get c [] = Inl e \<and> errors_Is e EOF"
begin

definition frames :: "'c \<Rightarrow> 'a list \<Rightarrow> bytes" where
  "frames c xs = concat (map (put c) xs)"

lemma frames_simps [simp]:
  "frames c [] = []" "frames c (x # xs) = put c x @ frames c xs"
  "frames c (xs @ ys) = frames c xs @ frames c ys"
  by (simp_all add: frames_def)

lemma frames_eq_Nil [simp]: "frames c xs = [] \<longleftrightarrow> xs = []"
  by (cases xs) (simp_all add: put_nonempty)

lemma get_frames:
  "ok c \<Longrightarrow> list_all (wf c) (x # xs) \<Longrightarrow> get c (frames c (x # xs) @ t) = Inr (x, frames c xs @ t)"
  by (simp add: get_put)

text \<open>A stream determines the records in it.\<close>

lemma frames_inject:
  "ok c \<Longrightarrow> list_all (wf c) xs \<Longrightarrow> list_all (wf c) ys \<Longrightarrow> frames c xs = frames c ys \<Longrightarrow> xs = ys"
proof (induction xs arbitrary: ys)
  case Nil
  then have "frames c ys = []" by simp
  then show ?case by (simp only: frames_eq_Nil)
next
  case (Cons x xs)
  then have "ys \<noteq> []" by (metis frames_eq_Nil list.distinct(1))
  then obtain y ys' where ys: "ys = y # ys'" by (cases ys) auto
  from Cons.prems ys have e: "put c x @ frames c xs = put c y @ frames c ys'" by simp
  have gx: "get c (put c x @ frames c xs) = Inr (x, frames c xs)"
    using Cons.prems(1,2) by (simp add: get_put)
  have gy: "get c (put c y @ frames c ys') = Inr (y, frames c ys')"
    using Cons.prems(1,3) ys by (simp add: get_put)
  from gx [unfolded e] gy have "x = y" "frames c xs = frames c ys'" by simp_all
  with Cons.IH [of ys'] Cons.prems ys show ?case by simp
qed

lemma frames_split:
  assumes "ok c" "list_all (wf c) xs" "list_all (wf c) ys" "frames c xs = frames c ys @ r"
  shows "\<exists>zs. xs = ys @ zs \<and> r = frames c zs"
  using assms
proof (induction ys arbitrary: xs)
  case (Cons y ys)
  then obtain x xs' where xs: "xs = x # xs'" by (cases xs) (auto simp: put_nonempty)
  from Cons.prems xs have e: "put c x @ frames c xs' = put c y @ (frames c ys @ r)" by simp
  have gx: "get c (put c x @ frames c xs') = Inr (x, frames c xs')"
    using Cons.prems(1,2) xs by (simp add: get_put)
  have gy: "get c (put c y @ (frames c ys @ r)) = Inr (y, frames c ys @ r)"
    using Cons.prems(1,3) by (simp add: get_put)
  from gx [unfolded e] gy have "x = y" "frames c xs' = frames c ys @ r" by simp_all
  with Cons.IH [of xs'] Cons.prems xs show ?case by auto
qed simp

text \<open>A stream cut somewhere: whole records, and a part of the next one.\<close>

lemma frames_cut:
  "s @ r = frames c xs \<Longrightarrow> \<exists>ys zs t. xs = ys @ zs \<and> s = frames c ys @ t \<and>
     (t = [] \<or> (\<exists>z zs' u. zs = z # zs' \<and> put c z = t @ u \<and> u \<noteq> []))"
proof (induction xs arbitrary: s)
  case Nil
  then show ?case by (intro exI [of _ "[]"]) simp
next
  case (Cons x xs)
  then obtain us where "s = put c x @ us \<and> us @ r = frames c xs \<or> s @ us = put c x \<and> r = us @ frames c xs"
    by (auto simp: append_eq_append_conv2)
  then show ?case
  proof
    assume a: "s = put c x @ us \<and> us @ r = frames c xs"
    with Cons.IH [of us] obtain ys zs t where "xs = ys @ zs" "us = frames c ys @ t"
      "t = [] \<or> (\<exists>z zs' u. zs = z # zs' \<and> put c z = t @ u \<and> u \<noteq> [])" by blast
    with a show ?thesis by (intro exI [of _ "x # ys"] exI [of _ zs] exI [of _ t]) simp
  next
    assume a: "s @ us = put c x \<and> r = us @ frames c xs"
    show ?thesis
    proof (cases "us = []")
      case True
      with a show ?thesis by (intro exI [of _ "[x]"] exI [of _ xs] exI [of _ "[]"]) simp
    next
      case False
      with a show ?thesis by (intro exI [of _ "[]"] exI [of _ "x # xs"] exI [of _ s]) auto
    qed
  qed
qed

end

locale strict_framing = framing +
  assumes get_torn: "ok c \<Longrightarrow> wf c x \<Longrightarrow> put c x = t @ u \<Longrightarrow> t \<noteq> [] \<Longrightarrow> u \<noteq> [] \<Longrightarrow>
    \<exists>e. get c t = Inl e \<and> \<not> errors_Is e EOF"

end
