(* ===== verification/Wal_Segments.thy ===== *)
theory Wal_Segments
  imports File_System File_Types Framing
begin

text \<open>
  The log segments of the write-ahead log: their names (\<open>internal/wal/utils.go\<close>), the CRC, the
  framing of entries and the functions that read segments (\<open>read.go\<close>, and the search for the
  last record and sequence number in \<open>manager.go\<close>). The WAL directory is the file system, keyed
  by base name; the protobuf codec of \<open>WAL_Entry\<close> is the parameter \<open>P\<close>.
\<close>

unbundle bit_operations_syntax

section \<open>Checksums\<close>

text \<open>\<open>crc32.ChecksumIEEE\<close>, bit by bit with the reflected polynomial.\<close>

definition crc_bit :: "u32 \<Rightarrow> u32" where
  "crc_bit c = (if bit c 0 then drop_bit 1 c XOR 0xEDB88320 else drop_bit 1 c)"

definition crc_byte :: "u32 \<Rightarrow> byte \<Rightarrow> u32" where
  "crc_byte c b = (crc_bit ^^ 8) (c XOR ucast b)"

definition ChecksumIEEE :: "bytes \<Rightarrow> u32" where
  "ChecksumIEEE data = NOT (foldl crc_byte (NOT 0) data)"

definition generateCRC :: "bytes \<Rightarrow> u32" where
  "generateCRC data = ChecksumIEEE data"

definition verifyCRC :: "WAL_Entry \<Rightarrow> bool" where
  "verifyCRC e = (GetCRC (Some e) = ChecksumIEEE (GetData (Some e)))"

section \<open>Segment names\<close>

definition WalLogPrefix :: string where
  "WalLogPrefix = ''wal-log-''"

definition SnapshotFile :: string where
  "SnapshotFile = ''wal-snapshot''"

definition generateLogFilePath :: "u64 \<Rightarrow> string" where
  "generateLogFilePath segNo = WalLogPrefix @ Itoa (sint segNo)"

definition getSegmentNoFromFileName :: "string \<Rightarrow> go_error + u64" where
  "getSegmentNoFromFileName name =
     (case ParseUint (last (split_on CHR ''-'' name)) of
        Inl e \<Rightarrow> Inl (wrap ''failed to convert file segment number to integer'' e)
      | Inr segNo \<Rightarrow> Inr segNo)"

definition getPreviousSegmentNo :: "string \<Rightarrow> go_error + u64" where
  "getPreviousSegmentNo f =
     (case getSegmentNoFromFileName f of Inl e \<Rightarrow> Inl e | Inr segNo \<Rightarrow> Inr (segNo - 1))"

lemma Itoa_negative: "i < 0 \<Longrightarrow> Itoa i = CHR ''-'' # dec_of_nat (nat (- i))"
  by (simp add: Itoa_def)

lemma generateLogFilePath_nonneg:
  "0 \<le> sint v \<Longrightarrow> generateLogFilePath v = ''wal-log'' @ CHR ''-'' # dec_of_nat (nat (sint v))"
  by (simp add: generateLogFilePath_def WalLogPrefix_def Itoa_def)

lemma generateLogFilePath_neg:
  "sint v < 0 \<Longrightarrow> generateLogFilePath v = ''wal-log-'' @ CHR ''-'' # dec_of_nat (nat (- sint v))"
  by (simp add: generateLogFilePath_def WalLogPrefix_def Itoa_def)

lemma no_dash_dec: "CHR ''-'' \<notin> set (dec_of_nat n)"
  using dec_of_nat_chars by blast

lemma sint_u64_bounds: "- (2 ^ 63) \<le> sint (v :: u64)" "sint v < 2 ^ 63"
  using sint_greater_eq [of v] sint_less [of v] by simp_all

lemma getSegmentNo_dec:
  "n < 2 ^ 64 \<Longrightarrow> getSegmentNoFromFileName (s @ CHR ''-'' # dec_of_nat n) = Inr (word_of_nat n)"
  by (simp only: getSegmentNoFromFileName_def last_split_on_append [OF no_dash_dec] ParseUint_dec_of_nat
      sum.case)

lemma word_of_nat_nat: "0 \<le> i \<Longrightarrow> word_of_nat (nat i) = (word_of_int i :: u64)"
  using of_int_of_nat_eq [of "nat i", where ?'a = u64, symmetric] by (simp only: int_nat_eq if_True)

lemma getSegmentNo_generate:
  "getSegmentNoFromFileName (generateLogFilePath v) = Inr (if sint v < 0 then - v else v)"
proof (cases "sint v < 0")
  case True
  have "nat (- sint v) < 2 ^ 64" using sint_u64_bounds [of v] by simp
  moreover have "word_of_nat (nat (- sint v)) = - v"
    using True by (simp add: word_of_nat_nat)
  ultimately show ?thesis
    by (simp only: generateLogFilePath_neg [OF True] getSegmentNo_dec True if_True)
next
  case False
  then have nn: "0 \<le> sint v" by simp
  have "nat (sint v) < 2 ^ 64" using sint_u64_bounds [of v] by simp
  moreover have "word_of_nat (nat (sint v)) = v"
    using nn by (simp add: word_of_nat_nat)
  ultimately show ?thesis
    by (simp only: generateLogFilePath_nonneg [OF nn] getSegmentNo_dec False if_False)
qed

section \<open>Reading entries\<close>

definition unmarshallEntry :: "WAL_Entry proto \<Rightarrow> bytes \<Rightarrow> go_error + WAL_Entry" where
  "unmarshallEntry P data =
     (case Unmarshal P data of
        Inl e \<Rightarrow> Inl (wrap ''failed to unmarshall data'' e)
      | Inr entry \<Rightarrow> if \<not> verifyCRC entry then Inl ErrCRCVerificationFailed else Inr entry)"

definition readEntry :: "WAL_Entry proto \<Rightarrow> bytes \<Rightarrow> go_error + (WAL_Entry \<times> bytes)" where
  "readEntry P f =
     (case binary_Read32 f of
        Inl e \<Rightarrow> Inl (wrap ''failed to decode wal entry length'' e)
      | Inr (n, r) \<Rightarrow>
          (case ReadFull (unat n) r of
             Inl e \<Rightarrow> Inl (errmsg ''failed to read wal'')
           | Inr (entryData, r') \<Rightarrow>
               (case unmarshallEntry P entryData of Inl e \<Rightarrow> Inl e | Inr entry \<Rightarrow> Inr (entry, r'))))"

lemma readEntry_shrinks: "readEntry P f = Inr (e, r) \<Longrightarrow> length r < length f"
  by (auto simp: readEntry_def dest!: binary_Read32_InrD ReadFull_InrD split: sum.splits)

text \<open>The loop of \<open>readAllEntriesFromFile\<close>: it stops at the end of the file or after the entry \<open>seqNo\<close>.\<close>

function read_entries :: "WAL_Entry proto \<Rightarrow> u64 \<Rightarrow> bytes \<Rightarrow> WAL_Entry list \<Rightarrow> go_error + WAL_Entry list" where
  "read_entries P seqNo f acc =
     (case readEntry P f of
        Inl e \<Rightarrow> if errors_Is e EOF then Inr acc else Inl e
      | Inr (entry, r) \<Rightarrow>
          if LogSequenceNo entry = seqNo then Inr (acc @ [entry])
          else read_entries P seqNo r (acc @ [entry]))"
  by pat_completeness auto
termination
  by (relation "measure (\<lambda>(P, seqNo, f, acc). length f)") (auto dest: readEntry_shrinks)

declare read_entries.simps [simp del]

definition readAllEntriesFromFile :: "WAL_Entry proto \<Rightarrow> string \<Rightarrow> u64 \<Rightarrow> fs \<Rightarrow> go_error + WAL_Entry list" where
  "readAllEntriesFromFile P filePath seqNo s =
     (case fs_Open filePath s of
        Inl e \<Rightarrow> Inl (wrap ''failed to open wal log file'' e)
      | Inr f \<Rightarrow> read_entries P seqNo f [])"

text \<open>
  \<open>findLastRecord\<close> walks over the lengths with \<open>Seek\<close>, which may pass the end of the file, and
  at EOF goes back by the last length.
\<close>

function findLastRecord_loop :: "WAL_Entry proto \<Rightarrow> bytes \<Rightarrow> nat \<Rightarrow> nat \<Rightarrow> go_error + WAL_Entry" where
  "findLastRecord_loop P f offset prevLength =
     (case binary_Read32 (drop offset f) of
        Inl e \<Rightarrow>
          if e = EOF then
            if offset = 0 then Inl ErrReadEmptyLogFile
            else (case ReadFull prevLength (drop (offset - prevLength) f) of
                    Inl e' \<Rightarrow> Inl (wrap ''failed to read log entry data'' e')
                  | Inr (entryData, r) \<Rightarrow> unmarshallEntry P entryData)
          else Inl (wrap ''failed to read size of log entry'' e)
      | Inr (n, r) \<Rightarrow> findLastRecord_loop P f (offset + 4 + unat n) (unat n))"
  by pat_completeness auto
termination
  by (relation "measure (\<lambda>(P, f, offset, prevLength). length f - offset)")
    (auto dest!: binary_Read32_InrD)

declare findLastRecord_loop.simps [simp del]

definition findLastRecord :: "WAL_Entry proto \<Rightarrow> bytes \<Rightarrow> go_error + WAL_Entry" where
  "findLastRecord P f = findLastRecord_loop P f 0 0"

text \<open>
  The last sequence number of a segment; for an empty one that of the segment before it, found by
  name. The recursion ends because the numbers go down to zero, which the wrap-around of
  \<open>segNo - 1\<close> and of the conversion to \<open>int\<close> in the file name can delay by at most one step.
\<close>

definition segno_rank :: "string \<Rightarrow> nat" where
  "segno_rank f =
     (case getSegmentNoFromFileName f of
        Inl e \<Rightarrow> 0 | Inr v \<Rightarrow> if v = 0 \<or> 2 ^ 63 < unat v then 2 ^ 64 else unat v)"

lemma sint_neg_iff: "sint (v :: u64) < 0 \<longleftrightarrow> 2 ^ 63 \<le> unat v"
proof -
  have u: "0 \<le> uint v" "uint v < 2 ^ 64" using uint_lt2p [of v] by simp_all
  then have "uint v div 2 ^ 63 < 2" by simp
  moreover have "0 \<le> uint v div 2 ^ 63" using u(1) by (rule pos_imp_zdiv_nonneg_iff [THEN iffD2, rotated]) simp
  ultimately have "uint v div 2 ^ 63 = 0 \<or> uint v div 2 ^ 63 = 1" by linarith
  then have b: "bit (uint v) 63 \<longleftrightarrow> 2 ^ 63 \<le> uint v"
    using u by (auto simp: bit_iff_odd div_eq_0_iff)
  have "sint v = uint v - (if 2 ^ 63 \<le> uint v then 2 ^ 64 else 0)"
    using b u by (simp add: sint_uint signed_take_bit_eq_take_bit_minus take_bit_int_eq_self)
  with u have "sint v < 0 \<longleftrightarrow> 2 ^ 63 \<le> uint v" by (simp split: if_splits)
  moreover have "2 ^ 63 \<le> unat v \<longleftrightarrow> int (2 ^ 63) \<le> int (unat v)" by (rule of_nat_le_iff [symmetric])
  then have "2 ^ 63 \<le> uint v \<longleftrightarrow> 2 ^ 63 \<le> unat v" by simp
  ultimately show ?thesis by blast
qed

lemma unat_u64_lt: "unat (v :: u64) < 2 ^ 64"
proof -
  have "unat v < 2 ^ LENGTH(64)" by (rule unsigned_less)
  then show ?thesis by simp
qed

lemma unat_uminus_u64: "v \<noteq> 0 \<Longrightarrow> unat (- v :: u64) = 2 ^ 64 - unat v"
proof -
  assume "v \<noteq> 0"
  then have "0 < unat v" by (simp add: unat_gt_0)
  then have "(2 ^ 64 - unat v) mod 2 ^ 64 = 2 ^ 64 - unat v" by (intro mod_less) simp
  moreover have "- v = word_of_nat (2 ^ 64 - unat v)"
    using unat_u64_lt [of v] by (simp add: of_nat_diff)
  ultimately show ?thesis by (simp add: unat_of_nat)
qed

lemma segno_rank_decreases:
  assumes "getPreviousSegmentNo f = Inr v" "v \<noteq> 0"
  shows "segno_rank (generateLogFilePath v) < segno_rank f"
proof -
  from assms(1) obtain w where w: "getSegmentNoFromFileName f = Inr w" and v: "v = w - 1"
    by (auto simp: getPreviousSegmentNo_def split: sum.splits)
  define g where "g = (if sint v < 0 then - v else v)"
  have r: "segno_rank (generateLogFilePath v) = (if g = 0 \<or> 2 ^ 63 < unat g then 2 ^ 64 else unat g)"
    by (simp only: segno_rank_def getSegmentNo_generate g_def sum.case)
  have g: "g \<noteq> 0" "unat g \<le> 2 ^ 63"
    using assms(2) sint_neg_iff [of v] unat_uminus_u64 [OF assms(2)] by (auto simp: g_def)
  have "unat g < segno_rank f"
  proof (cases "w = 0 \<or> 2 ^ 63 < unat w")
    case True
    then have "segno_rank f = 2 ^ 64" using w by (simp add: segno_rank_def)
    with g(2) show ?thesis by simp
  next
    case False
    then have "segno_rank f = unat w" "unat v = unat w - 1" "0 < unat w"
      using w v by (simp_all add: segno_rank_def unat_minus_one unat_gt_0)
    moreover have "g = v" using False calculation sint_neg_iff [of v] by (auto simp: g_def)
    ultimately show ?thesis by simp
  qed
  with g show ?thesis unfolding r by simp
qed

function findLastSequenceNumberInLogFile ::
  "WAL_Entry proto \<Rightarrow> string \<Rightarrow> bytes \<Rightarrow> fs \<Rightarrow> go_error + u64" where
  "findLastSequenceNumberInLogFile P f content s =
     (case findLastRecord P content of
        Inl err \<Rightarrow>
          if errors_Is err ErrReadEmptyLogFile then
            (case getPreviousSegmentNo f of
               Inl e \<Rightarrow> Inl e
             | Inr segNo \<Rightarrow>
                 if segNo = 0 then Inr 0
                 else (case fs_Open (generateLogFilePath segNo) s of
                         Inl e \<Rightarrow> Inl (wrap ''failed to open wal log file'' e)
                       | Inr content' \<Rightarrow>
                           findLastSequenceNumberInLogFile P (generateLogFilePath segNo) content' s))
          else Inl err
      | Inr entry \<Rightarrow> Inr (GetLogSequenceNo (Some entry)))"
  by pat_completeness auto
termination
  by (relation "measure (\<lambda>(P, f, content, s). segno_rank f)") (auto intro: segno_rank_decreases)

declare findLastSequenceNumberInLogFile.simps [simp del]

section \<open>The log format\<close>

text \<open>
  What \<open>appendEntry\<close> writes for an entry, and the entries it can write: those that the codec
  marshals to fewer than \<open>2 ^ 32\<close> bytes and that carry the checksum of their data.
\<close>

definition entry_bytes :: "WAL_Entry proto \<Rightarrow> WAL_Entry \<Rightarrow> bytes" where
  "entry_bytes P e =
     (case Marshal P e of Inl er \<Rightarrow> put_uint32 0 | Inr b \<Rightarrow> put_uint32 (word_of_nat (length b)) @ b)"

definition entry_wf :: "WAL_Entry proto \<Rightarrow> WAL_Entry \<Rightarrow> bool" where
  "entry_wf P e \<longleftrightarrow>
     (case Marshal P e of Inl er \<Rightarrow> False | Inr b \<Rightarrow> length b < 2 ^ 32) \<and> verifyCRC e"

lemma unat_word_of_length32: "n < 2 ^ 32 \<Longrightarrow> unat (word_of_nat n :: u32) = n"
  by (simp add: unat_of_nat)

lemma entry_wfE:
  assumes "entry_wf P e"
  obtains b where "Marshal P e = Inr b" "length b < 2 ^ 32" "verifyCRC e"
    "entry_bytes P e = put_uint32 (word_of_nat (length b)) @ b"
  using assms by (auto simp: entry_wf_def entry_bytes_def split: sum.splits)

lemma readEntry_entry_bytes:
  assumes "proto_ok P" "entry_wf P e"
  shows "readEntry P (entry_bytes P e @ r) = Inr (e, r)"
proof -
  from assms(2) obtain b where b: "Marshal P e = Inr b" "length b < 2 ^ 32" "verifyCRC e"
    "entry_bytes P e = put_uint32 (word_of_nat (length b)) @ b" by (rule entry_wfE)
  from proto_okD [OF assms(1) b(1)] b(3) have "unmarshallEntry P b = Inr e"
    by (simp add: unmarshallEntry_def)
  with b show ?thesis by (simp add: readEntry_def unat_word_of_length32)
qed

lemma readEntry_Nil: "readEntry P [] = Inl (wrap ''failed to decode wal entry length'' EOF)"
  by (simp add: readEntry_def)

lemma readEntry_torn:
  assumes "entry_wf P e" "entry_bytes P e = t @ u" "t \<noteq> []" "u \<noteq> []"
  shows "\<exists>er. readEntry P t = Inl er \<and> \<not> errors_Is er EOF"
proof -
  from assms(1) obtain b where b: "length b < 2 ^ 32"
    "entry_bytes P e = put_uint32 (word_of_nat (length b)) @ b" by (rule entry_wfE) blast
  show ?thesis
  proof (cases "length t < 4")
    case True
    with assms(3) binary_Read32_short [of t] show ?thesis by (simp add: readEntry_def)
  next
    case False
    from b(2) assms(2) have e: "t @ u = put_uint32 (word_of_nat (length b)) @ b" by simp
    have t: "t = put_uint32 (word_of_nat (length b)) @ drop 4 t"
      using arg_cong [OF e, of "take 4"] False by (metis (no_types, lifting) append_take_drop_id
        length_put_uint32 linorder_not_less take_append_exact take_append diff_is_0_eq take_0 append_Nil2)
    define t' where "t' = drop 4 t"
    have "b = t' @ u" using arg_cong [OF e, of "drop 4"] False by (simp add: t'_def)
    with assms(4) have "length t' < length b" by simp
    with b(1) have "ReadFull (unat (word_of_nat (length b) :: u32)) t' =
        Inl (if t' = [] then EOF else ErrUnexpectedEOF)"
      by (simp add: ReadFull_def unat_word_of_length32)
    then have "\<exists>er. readEntry P (put_uint32 (word_of_nat (length b)) @ t') = Inl er \<and> \<not> errors_Is er EOF"
      by (simp add: readEntry_def)
    with t show ?thesis by (simp only: t'_def)
  qed
qed

interpretation wl: strict_framing proto_ok entry_wf entry_bytes readEntry
proof unfold_locales
  show "entry_bytes P e \<noteq> []" for P :: "WAL_Entry proto" and e
    by (simp add: entry_bytes_def split: sum.splits)
qed (auto simp: readEntry_entry_bytes readEntry_Nil intro: readEntry_torn)

text \<open>The entries up to and including the first one with the given number.\<close>

fun upto_seq :: "u64 \<Rightarrow> WAL_Entry list \<Rightarrow> WAL_Entry list" where
  "upto_seq n [] = []"
| "upto_seq n (e # es) = (if LogSequenceNo e = n then [e] else e # upto_seq n es)"

lemma upto_seq_absent: "n \<notin> LogSequenceNo ` set es \<Longrightarrow> upto_seq n es = es"
  by (induction es) auto

lemma upto_seq_snoc: "n \<notin> LogSequenceNo ` set es \<Longrightarrow> LogSequenceNo e = n \<Longrightarrow> upto_seq n (es @ [e]) = es @ [e]"
  by (induction es) auto

lemma read_entries_frames:
  assumes "proto_ok P"
  shows "list_all (entry_wf P) es \<Longrightarrow> read_entries P n (wl.frames P es) acc = Inr (acc @ upto_seq n es)"
proof (induction es arbitrary: acc)
  case Nil
  show ?case by (simp add: read_entries.simps [of P n "[]"] readEntry_Nil)
next
  case (Cons e es)
  then have "readEntry P (wl.frames P (e # es)) = Inr (e, wl.frames P es)"
    using wl.get_frames [OF assms, of e es "[]"] by simp
  with Cons show ?case by (simp add: read_entries.simps [of P n "wl.frames P (e # es)"] del: wl.frames_simps)
qed

lemma read_entries_torn:
  assumes "proto_ok P" "\<exists>e. readEntry P t = Inl e \<and> \<not> errors_Is e EOF"
  shows "list_all (entry_wf P) es \<Longrightarrow> n \<notin> LogSequenceNo ` set es \<Longrightarrow>
    \<exists>er. read_entries P n (wl.frames P es @ t) acc = Inl er \<and> \<not> errors_Is er EOF"
proof (induction es arbitrary: acc)
  case Nil
  from assms(2) show ?case by (auto simp: read_entries.simps [of P n t])
next
  case (Cons e es)
  then have "readEntry P (wl.frames P (e # es) @ t) = Inr (e, wl.frames P es @ t)"
    using wl.get_frames [OF assms(1), of e es t] by simp
  with Cons show ?case
    by (auto simp: read_entries.simps [of P n "wl.frames P (e # es) @ t"] simp del: wl.frames_simps)
qed

text \<open>
  On a log \<open>findLastRecord\<close> returns the last entry. The loop invariant: the offset is the length
  of the entries passed, and the last length passed is that of the marshalled last entry.
\<close>

lemma findLastRecord_loop_end:
  assumes "proto_ok P" "entry_wf P e" "Marshal P e = Inr b" "offset = length pre + length (entry_bytes P e)"
  shows "findLastRecord_loop P (pre @ entry_bytes P e) offset (length b) = Inr e"
proof -
  from assms(2,3) have b: "verifyCRC e" "entry_bytes P e = put_uint32 (word_of_nat (length b)) @ b"
    by (auto elim!: entry_wfE)
  then have d: "drop offset (pre @ entry_bytes P e) = []" and z: "offset \<noteq> 0"
    and k: "drop (offset - length b) (pre @ entry_bytes P e) = b"
    using assms(4) by simp_all
  have "ReadFull (length b) b = Inr (b, [])" by (simp add: ReadFull_def)
  with proto_okD [OF assms(1,3)] b(1) z show ?thesis
    unfolding findLastRecord_loop.simps [of P "pre @ entry_bytes P e" offset] d k
    by (simp add: unmarshallEntry_def)
qed

lemma findLastRecord_loop_frames:
  assumes "proto_ok P"
  shows "list_all (entry_wf P) (e # es) \<Longrightarrow>
    findLastRecord_loop P (pre @ wl.frames P (e # es)) (length pre) k = Inr (last (e # es))"
proof (induction es arbitrary: e pre k)
  case Nil
  then obtain b where b: "Marshal P e = Inr b" "length b < 2 ^ 32"
    "entry_bytes P e = put_uint32 (word_of_nat (length b)) @ b" by (auto elim: entry_wfE)
  then have "binary_Read32 (drop (length pre) (pre @ entry_bytes P e)) = Inr (word_of_nat (length b), b)"
    by simp
  with b findLastRecord_loop_end [OF assms _ b(1), of "length pre + 4 + length b" pre] Nil show ?case
    by (simp add: findLastRecord_loop.simps [of P _ "length pre" k] unat_word_of_length32)
next
  case (Cons e' es)
  then obtain b where b: "Marshal P e = Inr b" "length b < 2 ^ 32"
    "entry_bytes P e = put_uint32 (word_of_nat (length b)) @ b" by (auto elim: entry_wfE)
  then have r: "binary_Read32 (drop (length pre) (pre @ wl.frames P (e # e' # es))) =
      Inr (word_of_nat (length b), b @ wl.frames P (e' # es))"
    by simp
  from Cons.IH [of e' "pre @ entry_bytes P e" "length b"] Cons.prems b
  have "findLastRecord_loop P (pre @ wl.frames P (e # e' # es)) (length pre + 4 + length b) (length b)
      = Inr (last (e' # es))" by (simp add: add.assoc)
  then show ?case unfolding findLastRecord_loop.simps [of P _ "length pre" k] r
    using b(2) by (simp add: unat_word_of_length32 del: wl.frames_simps)
qed

lemma findLastRecord_frames:
  assumes "proto_ok P" "list_all (entry_wf P) es"
  shows "findLastRecord P (wl.frames P es) = (if es = [] then Inl ErrReadEmptyLogFile else Inr (last es))"
proof (cases es)
  case Nil
  then show ?thesis by (simp add: findLastRecord_def findLastRecord_loop.simps [of P "[]"])
next
  case (Cons e es')
  with findLastRecord_loop_frames [OF assms(1), of e es' "[]" 0] assms(2) show ?thesis
    by (simp add: findLastRecord_def del: wl.frames_simps)
qed

end
