(* ===== verification/Sample_Codecs.thy ===== *)
theory Sample_Codecs
  imports File_Types Go_IO
begin

text \<open>
  Concrete serialisation functions that satisfy what the development assumes of the external
  libraries. They are used only to show that the hypotheses of the properties can hold; no
  property is about them.
\<close>

definition sample_gob :: gob where
  "sample_gob = \<lparr>
     gob_Encode = (\<lambda>md.
       if length (cm_Id md) < 2 ^ 32 \<and> - (2 ^ 63) \<le> ci_Offset (cm_ChunkInfo md) \<and> ci_Offset (cm_ChunkInfo md) < 2 ^ 63
       then Inr (put_uint32 (word_of_nat (length (cm_Id md))) @ bytes_of_string (cm_Id md) @
                 put_uint32 (ci_Size (cm_ChunkInfo md)) @
                 put_uint64 (word_of_int (ci_Offset (cm_ChunkInfo md))) @
                 bytes_of_string (ci_Addr (cm_ChunkInfo md)))
       else Inl ErrGob),
     gob_Decode = (\<lambda>b0.
       case binary_Read32 b0 of Inl e \<Rightarrow> Inl e | Inr (n, b1) \<Rightarrow>
       (case ReadFull (unat n) b1 of Inl e \<Rightarrow> Inl e | Inr (k, b2) \<Rightarrow>
       (case binary_Read32 b2 of Inl e \<Rightarrow> Inl e | Inr (sz, b3) \<Rightarrow>
       (case binary_Read64 b3 of Inl e \<Rightarrow> Inl e | Inr (off, b4) \<Rightarrow>
          Inr (\<lparr>cm_Id = string_of_bytes k,
                cm_ChunkInfo = \<lparr>ci_Size = sz, ci_Offset = sint off, ci_Addr = string_of_bytes b4\<rparr>\<rparr>, [])))))\<rparr>"

lemma sint_word_of_int64: "- (2 ^ 63) \<le> i \<Longrightarrow> i < 2 ^ 63 \<Longrightarrow> sint (word_of_int i :: u64) = i"
  by (simp add: signed_of_int signed_take_bit_int_eq_self)

lemma sample_gob_ok: "gob_ok sample_gob"
proof -
  have "gob_Decode sample_gob b = Inr (md, [])" if "gob_Encode sample_gob md = Inr b" for md b
  proof -
    from that have l: "length (cm_Id md) < 2 ^ 32"
      and o: "- (2 ^ 63) \<le> ci_Offset (cm_ChunkInfo md)" "ci_Offset (cm_ChunkInfo md) < 2 ^ 63"
      and b: "b = put_uint32 (word_of_nat (length (cm_Id md))) @ bytes_of_string (cm_Id md) @
                 put_uint32 (ci_Size (cm_ChunkInfo md)) @
                 put_uint64 (word_of_int (ci_Offset (cm_ChunkInfo md))) @
                 bytes_of_string (ci_Addr (cm_ChunkInfo md))"
      by (auto simp: sample_gob_def split: if_splits)
    from l have "unat (word_of_nat (length (cm_Id md)) :: u32) = length (cm_Id md)"
      by (simp add: unat_of_nat)
    then show ?thesis unfolding b
      by (simp add: sample_gob_def sint_word_of_int64 [OF o])
  qed
  then show ?thesis by (simp add: gob_ok_def)
qed

definition sample_flag :: "bool option \<Rightarrow> byte" where
  "sample_flag f = (case f of None \<Rightarrow> 0 | Some False \<Rightarrow> 1 | Some True \<Rightarrow> 2)"

definition sample_entry :: "WAL_Entry proto" where
  "sample_entry = \<lparr>
     Marshal = (\<lambda>e. Inr (put_uint64 (LogSequenceNo e) @ put_uint32 (CRC e) @ [sample_flag (IsDelete e)] @ Data e)),
     Unmarshal = (\<lambda>b0.
       case binary_Read64 b0 of Inl e \<Rightarrow> Inl ErrProto | Inr (n, b1) \<Rightarrow>
       (case binary_Read32 b1 of Inl e \<Rightarrow> Inl ErrProto | Inr (c, b2) \<Rightarrow>
       (case b2 of [] \<Rightarrow> Inl ErrProto
        | f # d \<Rightarrow> Inr \<lparr>LogSequenceNo = n, Data = d, CRC = c,
                        IsDelete = (if f = 0 then None else Some (f = 2))\<rparr>)))\<rparr>"

lemma sample_entry_ok: "proto_ok sample_entry"
proof -
  have "(if sample_flag f = 0 then None else Some (sample_flag f = 2)) = f" for f
    by (auto simp: sample_flag_def split: option.splits bool.splits)
  then show ?thesis by (simp add: proto_ok_def sample_entry_def)
qed

text \<open>A codec for a finite list of file records: the record at index \<open>i\<close> is the byte \<open>i + 1\<close>.\<close>

fun sample_index :: "'a \<Rightarrow> 'a list \<Rightarrow> nat option" where
  "sample_index x [] = None"
| "sample_index x (y # ys) = (if x = y then Some 0 else map_option Suc (sample_index x ys))"

definition sample_meta :: "FileMetadata list \<Rightarrow> FileMetadata proto" where
  "sample_meta ms = \<lparr>
     Marshal = (\<lambda>m. case sample_index m ms of
        None \<Rightarrow> if m = empty_meta then Inr [] else Inl ErrProto
      | Some i \<Rightarrow> if i < 255 then Inr [word_of_nat (i + 1)] else Inl ErrProto),
     Unmarshal = (\<lambda>b. case b of [] \<Rightarrow> Inr empty_meta
      | [x] \<Rightarrow> if x \<noteq> 0 \<and> unat x \<le> length ms then Inr (ms ! (unat x - 1)) else Inl ErrProto
      | _ \<Rightarrow> Inl ErrProto)\<rparr>"

lemma sample_index_nth: "sample_index x ys = Some i \<Longrightarrow> i < length ys \<and> ys ! i = x"
  by (induction ys arbitrary: i) (auto split: if_splits)

lemma sample_meta_ok: "proto_ok (sample_meta ms)"
proof -
  have "Unmarshal (sample_meta ms) b = Inr m" if "Marshal (sample_meta ms) m = Inr b" for m b
  proof (cases "sample_index m ms")
    case None
    with that show ?thesis by (auto simp: sample_meta_def split: if_splits)
  next
    case (Some i)
    with that have "i < 255" and b: "b = [word_of_nat (i + 1)]" by (auto simp: sample_meta_def split: if_splits)
    from \<open>i < 255\<close> have u: "unat (word_of_nat (i + 1) :: byte) = i + 1"
      using unat_byte_of_nat [of "i + 1"] by (simp only:) simp
    then have "(word_of_nat (i + 1) :: byte) \<noteq> 0" by (metis add_is_0 unat_0 zero_neq_one)
    with u sample_index_nth [OF Some] show ?thesis unfolding b by (simp add: sample_meta_def del: of_nat_add)
  qed
  then show ?thesis by (simp add: proto_ok_def)
qed

lemma sample_meta_empty_ok: "proto_empty_ok (sample_meta ms)"
  by (simp add: proto_empty_ok_def sample_meta_def)

end
