(* ===== verification/Wal.thy ===== *)
theory Wal
  imports Wal_Segments Sample_Codecs
begin

text \<open>
  The write-ahead log, \<open>internal/wal/manager.go\<close>, \<open>write.go\<close> and \<open>read.go\<close>: configuration,
  segment rotation, appending, flushing, reading back and recovery at start-up. Every operation
  takes the log and returns it with the error of the Go method. The methods run under \<open>w.mu\<close>
  (\<open>InitWAL\<close> before the log is shared), so each is one step. The channel \<open>flushDone\<close> is a
  generation number: channel \<open>g\<close> is closed when \<open>w_flushDone\<close> is greater than \<open>g\<close>.
\<close>

section \<open>Configuration\<close>

type_synonym duration = int

record WALConfig =
  wc_dir :: string
  wc_enableFsSync :: bool
  wc_maxSegmentSize :: u64
  wc_flushInterval :: duration
  wc_maxSegements :: u64
  wc_snapshotInterval :: duration

record WAL =
  w_dir :: string
  w_enableFsSync :: bool
  w_maxSegmentSize :: u64
  w_curSegmentSize :: u64
  w_flushTimer :: duration
  w_flushDone :: nat
  w_writer :: "(string \<times> bufio) option"
  w_segment :: "string option"
  w_maxSegements :: u64
  w_lastSegmentNo :: u64
  w_lastSequenceNo :: u64
  w_snapshotTimer :: duration
  w_lastSnapshot :: u64
  w_cancelled :: bool
  w_disk :: fs

text \<open>An option may panic, because \<open>time.NewTicker\<close> does on an interval that is not positive.\<close>

type_synonym WALOption = "WAL \<Rightarrow> go_error + WAL"

definition NewTicker :: "duration \<Rightarrow> go_error + duration" where
  "NewTicker d = (if d \<le> 0 then Inl Panic else Inr d)"

definition EnableFsSync :: WALOption where
  "EnableFsSync w = Inr (w\<lparr>w_enableFsSync := True\<rparr>)"

definition WithMaxSegementSize :: "u64 \<Rightarrow> WALOption" where
  "WithMaxSegementSize maxSegmentSize w = Inr (w\<lparr>w_maxSegmentSize := maxSegmentSize\<rparr>)"

definition WithMaxSegements :: "u64 \<Rightarrow> WALOption" where
  "WithMaxSegements maxSegments w = Inr (w\<lparr>w_maxSegements := maxSegments\<rparr>)"

definition WithFlushInterval :: "duration \<Rightarrow> WALOption" where
  "WithFlushInterval flushInterval w =
     (case NewTicker flushInterval of Inl e \<Rightarrow> Inl e | Inr t \<Rightarrow> Inr (w\<lparr>w_flushTimer := t\<rparr>))"

definition WithSnapshotInterval :: "duration \<Rightarrow> WALOption" where
  "WithSnapshotInterval snapshotInterval w =
     (case NewTicker snapshotInterval of Inl e \<Rightarrow> Inl e | Inr t \<Rightarrow> Inr (w\<lparr>w_snapshotTimer := t\<rparr>))"

definition WithWALDir :: "string \<Rightarrow> WALOption" where
  "WithWALDir dir w = Inr (w\<lparr>w_dir := dir\<rparr>)"

definition WALConfig_options :: "WALConfig \<Rightarrow> WALOption list" where
  "WALConfig_options w =
     (if wc_dir w \<noteq> [] then [WithWALDir (wc_dir w)] else []) @
     (if wc_enableFsSync w then [EnableFsSync] else []) @
     (if 1 \<le> wc_maxSegmentSize w then [WithMaxSegementSize (wc_maxSegmentSize w)] else []) @
     (if 1 \<le> wc_maxSegements w then [WithMaxSegements (wc_maxSegements w)] else []) @
     (if wc_snapshotInterval w \<noteq> 0 then [WithSnapshotInterval (wc_snapshotInterval w)] else []) @
     (if wc_flushInterval w \<noteq> 0 then [WithFlushInterval (wc_flushInterval w)] else [])"

text \<open>\<open>os.Getwd\<close> returns a clean absolute path, which \<open>filepath.Join\<close> only extends.\<close>

definition defaultWALConfig :: "go_error + string \<Rightarrow> WAL" where
  "defaultWALConfig getwd =
     (let curDir = (case getwd of Inl e \<Rightarrow> [] | Inr d \<Rightarrow> d);
          dir = (if curDir = [] then [] else if curDir = ''/'' then ''/test-wal'' else curDir @ ''/test-wal'')
      in \<lparr>w_dir = dir, w_enableFsSync = False, w_maxSegmentSize = 400, w_curSegmentSize = 0,
          w_flushTimer = 5000000, w_flushDone = 0, w_writer = None, w_segment = None,
          w_maxSegements = 3, w_lastSegmentNo = 0, w_lastSequenceNo = 0,
          w_snapshotTimer = 20000000000, w_lastSnapshot = 0, w_cancelled = False,
          w_disk = empty_fs\<rparr>)"

fun apply_options :: "WALOption list \<Rightarrow> WAL \<Rightarrow> go_error + WAL" where
  "apply_options [] w = Inr w"
| "apply_options (opt # opts) w = (case opt w of Inl e \<Rightarrow> Inl e | Inr w' \<Rightarrow> apply_options opts w')"

section \<open>The directory\<close>

definition is_log_file :: "string \<times> bool \<Rightarrow> bool" where
  "is_log_file f \<longleftrightarrow> \<not> snd f \<and> HasPrefix (fst f) WalLogPrefix"

definition countLogFiles :: "WAL \<Rightarrow> u64" where
  "countLogFiles w =
     (case fs_ReadDir (w_dir w) (w_disk w) of
        Inl e \<Rightarrow> 0
      | Inr files \<Rightarrow> word_of_nat (length (filter is_log_file files)))"

definition checkPreExistingWALFiles :: "WAL \<Rightarrow> bool" where
  "checkPreExistingWALFiles w \<longleftrightarrow> 0 < countLogFiles w"

fun max_segment :: "u64 \<Rightarrow> (string \<times> bool) list \<Rightarrow> go_error + u64" where
  "max_segment lastSegmentNo [] = Inr lastSegmentNo"
| "max_segment lastSegmentNo (f # fs) =
     (if is_log_file f then
        (case getSegmentNoFromFileName (fst f) of
           Inl e \<Rightarrow> Inl e
         | Inr curFileSegmentNo \<Rightarrow> max_segment (max lastSegmentNo curFileSegmentNo) fs)
      else max_segment lastSegmentNo fs)"

definition findLastSegmentNumber :: "WAL \<Rightarrow> go_error + u64" where
  "findLastSegmentNumber w =
     (case fs_ReadDir (w_dir w) (w_disk w) of
        Inl e \<Rightarrow> Inl (wrap ''failed to read wal dir'' e)
      | Inr files \<Rightarrow> max_segment 0 files)"

definition listAllWALLogFiles :: "WAL \<Rightarrow> go_error + string list" where
  "listAllWALLogFiles w =
     (case fs_ReadDir (w_dir w) (w_disk w) of
        Inl e \<Rightarrow> Inl (wrap ''failed to read wal dir'' e)
      | Inr files \<Rightarrow> Inr (map fst (filter is_log_file files)))"

section \<open>Flushing and rotation\<close>

text \<open>
  \<open>flush\<close> empties the buffer of the current writer, syncs the current segment and closes
  \<open>flushDone\<close>. A nil writer or segment is a nil dereference.
\<close>

definition flush :: "WAL \<Rightarrow> go_error option \<times> WAL" where
  "flush w =
     (case w_writer w of
        None \<Rightarrow> (Some Panic, w)
      | Some (f, b) \<Rightarrow>
          (let (err, b', d) = bufio_Flush (fs_Append f) b (w_disk w);
               w1 = w\<lparr>w_writer := Some (f, b'), w_disk := d\<rparr>
           in case err of
                Some e \<Rightarrow> (Some (wrap ''failed to flush data to buffer'' e), w1)
              | None \<Rightarrow>
                  if w_enableFsSync w1 then
                    (case w_segment w1 of
                       None \<Rightarrow> (Some Panic, w1)
                     | Some seg \<Rightarrow>
                         (case fs_Sync seg (w_disk w1) of
                            (Some e, d2) \<Rightarrow> (Some (wrap ''failed to perform sync'' e), w1\<lparr>w_disk := d2\<rparr>)
                          | (None, d2) \<Rightarrow> (None, w1\<lparr>w_disk := d2, w_flushDone := w_flushDone w1 + 1\<rparr>)))
                  else (None, w1\<lparr>w_flushDone := w_flushDone w1 + 1\<rparr>)))"

definition removeLogFile :: "WAL_Entry proto \<Rightarrow> u64 \<Rightarrow> WAL \<Rightarrow> go_error option \<times> WAL" where
  "removeLogFile P segNo w =
     (let fullPath = generateLogFilePath segNo in
      case fs_Open fullPath (w_disk w) of
        Inl e \<Rightarrow> (Some (wrap ''failed to open log file'' e), w)
      | Inr content \<Rightarrow>
          (case findLastSequenceNumberInLogFile P fullPath content (w_disk w) of
             Inl e \<Rightarrow> (Some e, w)
           | Inr seqNo \<Rightarrow>
               if w_lastSnapshot w < seqNo then (None, w)
               else (case fs_Remove fullPath (w_disk w) of
                       (Some e, d) \<Rightarrow>
                         (if e = ErrNotExist then None else Some (wrap ''failed to remove wal file'' e),
                          w\<lparr>w_disk := d\<rparr>)
                     | (None, d) \<Rightarrow> (None, w\<lparr>w_disk := d\<rparr>))))"

definition removeLastLogFile :: "WAL_Entry proto \<Rightarrow> WAL \<Rightarrow> go_error option \<times> WAL" where
  "removeLastLogFile P w = removeLogFile P (w_lastSegmentNo w - w_maxSegements w + 1) w"

text \<open>The part of \<open>addNewLogFile\<close> after the oldest segment has been dealt with.\<close>

definition open_next_segment :: "WAL \<Rightarrow> go_error option \<times> WAL" where
  "open_next_segment w =
     (let w1 = w\<lparr>w_lastSegmentNo := w_lastSegmentNo w + 1\<rparr>;
          filePath = generateLogFilePath (w_lastSegmentNo w1)
      in case fs_Create filePath (w_disk w1) of
           (Some e, d) \<Rightarrow> (Some (wrap ''failed to create new log file'' e), w1\<lparr>w_disk := d\<rparr>)
         | (None, d) \<Rightarrow>
             (let w2 = w1\<lparr>w_disk := d, w_segment := Some filePath, w_curSegmentSize := 0\<rparr>;
                  (err, w3) = (if w_writer w2 \<noteq> None then flush w2 else (None, w2))
              in case err of
                   Some e \<Rightarrow> (Some (wrap ''failed to flush buffer contents to log file'' e), w3)
                 | None \<Rightarrow> (None, w3\<lparr>w_writer := Some (filePath, NewWriter)\<rparr>)))"

definition addNewLogFile :: "WAL_Entry proto \<Rightarrow> WAL \<Rightarrow> go_error option \<times> WAL" where
  "addNewLogFile P w =
     (let (err, w1) = (if w_maxSegements w \<le> countLogFiles w then removeLastLogFile P w else (None, w))
      in case err of Some e \<Rightarrow> (Some e, w1) | None \<Rightarrow> open_next_segment w1)"

section \<open>Appending\<close>

definition marshallEntry :: "WAL_Entry proto \<Rightarrow> WAL_Entry \<Rightarrow> go_error + bytes" where
  "marshallEntry P entry =
     (case Marshal P entry of Inl e \<Rightarrow> Inl (wrap ''failed to marshall entry'' e) | Inr d \<Rightarrow> Inr d)"

text \<open>The two writes to the buffer.\<close>

definition write_entry :: "bytes \<Rightarrow> WAL \<Rightarrow> go_error option \<times> WAL" where
  "write_entry entryMarshalled w =
     (case w_writer w of
        None \<Rightarrow> (Some Panic, w)
      | Some (f, b) \<Rightarrow>
          (case bufio_Write (fs_Append f) (put_uint32 (word_of_nat (length entryMarshalled))) b (w_disk w) of
             (Some e, b1, d1) \<Rightarrow>
               (Some (wrap ''failed to write size to buffer'' e), w\<lparr>w_writer := Some (f, b1), w_disk := d1\<rparr>)
           | (None, b1, d1) \<Rightarrow>
               (case bufio_Write (fs_Append f) entryMarshalled b1 d1 of
                  (Some e, b2, d2) \<Rightarrow>
                    (Some (wrap ''failed to write data to buffer'' e), w\<lparr>w_writer := Some (f, b2), w_disk := d2\<rparr>)
                | (None, b2, d2) \<Rightarrow>
                    (None, w\<lparr>w_writer := Some (f, b2), w_disk := d2,
                            w_curSegmentSize := w_curSegmentSize w + (word_of_nat (length entryMarshalled) + 4)\<rparr>))))"

definition new_entry :: "u64 \<Rightarrow> bytes \<Rightarrow> bool \<Rightarrow> WAL_Entry" where
  "new_entry seqNo data isDelete =
     \<lparr>LogSequenceNo = seqNo, Data = data, CRC = generateCRC data, IsDelete = Some isDelete\<rparr>"

text \<open>\<open>appendEntry\<close>; \<open>segSize\<close> is read once, before the first rotation.\<close>

definition appendEntry :: "WAL_Entry proto \<Rightarrow> bytes \<Rightarrow> bool \<Rightarrow> WAL \<Rightarrow> go_error option \<times> WAL" where
  "appendEntry P data isDelete w =
     (let segSize = w_curSegmentSize w;
          (err, w1) = (if w_maxSegmentSize w \<le> segSize then addNewLogFile P w else (None, w))
      in case err of Some e \<Rightarrow> (Some e, w1) | None \<Rightarrow>
        (let w2 = w1\<lparr>w_lastSequenceNo := w_lastSequenceNo w1 + 1\<rparr>;
             entry = new_entry (w_lastSequenceNo w2) data isDelete
         in case marshallEntry P entry of Inl e \<Rightarrow> (Some e, w2) | Inr entryMarshalled \<Rightarrow>
           (let (err, w3) =
                  (if w_maxSegmentSize w2 \<le> segSize + word_of_nat (length entryMarshalled) + 4
                   then addNewLogFile P w2 else (None, w2))
            in case err of Some e \<Rightarrow> (Some e, w3) | None \<Rightarrow> write_entry entryMarshalled w3)))"

text \<open>
  \<open>AppendEntry\<close> up to its wait: \<open>Inr g\<close> is the channel it then receives from. It returns to
  its caller once that channel is closed.
\<close>

definition AppendEntry :: "WAL_Entry proto \<Rightarrow> bytes \<Rightarrow> bool \<Rightarrow> WAL \<Rightarrow> (go_error + nat) \<times> WAL" where
  "AppendEntry P data isDelete w =
     (let (err, w1) = appendEntry P data isDelete w
      in case err of Some e \<Rightarrow> (Inl e, w1) | None \<Rightarrow> (Inr (w_flushDone w1), w1))"

definition AppendEntry_returns :: "nat \<Rightarrow> WAL \<Rightarrow> bool" where
  "AppendEntry_returns flushDone w \<longleftrightarrow> flushDone < w_flushDone w"

text \<open>One turn of the goroutine \<open>flushBuffer\<close>; a failed flush is only printed.\<close>

definition flushBuffer :: "WAL \<Rightarrow> WAL" where
  "flushBuffer w = (if w_cancelled w then w else snd (flush w))"

text \<open>
  A call that may block: it returns an error or nil, or never returns. \<open>AppendEntry_wait\<close> is a
  whole call of \<open>AppendEntry\<close> together with the turn of \<open>flushBuffer\<close> it waits for. If that turn
  does not close the channel none will: the error of the buffered writer is sticky, and the
  environment of the model does not change.
\<close>

datatype ret = Return "go_error option" | Blocked

definition AppendEntry_wait :: "WAL_Entry proto \<Rightarrow> bytes \<Rightarrow> bool \<Rightarrow> WAL \<Rightarrow> ret \<times> WAL" where
  "AppendEntry_wait P data isDelete w =
     (case AppendEntry P data isDelete w of
        (Inl e, w1) \<Rightarrow> (Return (Some e), w1)
      | (Inr flushDone, w1) \<Rightarrow>
          (let w2 = flushBuffer w1
           in (if AppendEntry_returns flushDone w2 then Return None else Blocked, w2)))"

section \<open>Reading back\<close>

fun read_segments ::
  "WAL_Entry proto \<Rightarrow> nat \<Rightarrow> u64 \<Rightarrow> u64 \<Rightarrow> fs \<Rightarrow> WAL_Entry list \<Rightarrow> go_error + WAL_Entry list" where
  "read_segments P 0 startNo seqNo d acc = Inr acc"
| "read_segments P (Suc k) startNo seqNo d acc =
     (case readAllEntriesFromFile P (generateLogFilePath startNo) seqNo d of
        Inl e \<Rightarrow> Inl (wrap ''failed to read enteries from wal log file'' e)
      | Inr partialEntries \<Rightarrow> read_segments P k (startNo + 1) seqNo d (acc @ partialEntries))"

definition ReadAllEntries :: "WAL_Entry proto \<Rightarrow> WAL \<Rightarrow> go_error + WAL_Entry list" where
  "ReadAllEntries P w =
     (let c = countLogFiles w in
      if c = 0 then Inl ErrNoLogFiles
      else read_segments P (unat c) (w_lastSegmentNo w - c + 1) (w_lastSequenceNo w) (w_disk w) [])"

section \<open>Start-up and shutdown\<close>

definition reopen_last_segment :: "WAL_Entry proto \<Rightarrow> WAL \<Rightarrow> go_error option \<times> WAL" where
  "reopen_last_segment P w =
     (case findLastSegmentNumber w of
        Inl e \<Rightarrow> (Some e, w)
      | Inr segmentNo \<Rightarrow>
          (let w1 = w\<lparr>w_lastSegmentNo := segmentNo\<rparr>;
               filePath = generateLogFilePath segmentNo
           in case fs_Open filePath (w_disk w1) of
                Inl e \<Rightarrow> (Some (wrap ''failed to open wal log file'' e), w1)
              | Inr content \<Rightarrow>
                  if faults (w_disk w1) OpStat filePath
                  then (Some (wrap ''failed to get wal log stats'' ErrIO), w1)
                  else
                    (let w2 = w1\<lparr>w_curSegmentSize := word_of_nat (length content),
                                 w_segment := Some filePath, w_writer := Some (filePath, NewWriter)\<rparr>
                     in case findLastSequenceNumberInLogFile P filePath content (w_disk w2) of
                          Inl e \<Rightarrow> (Some e, w2)
                        | Inr seqNo \<Rightarrow> (None, w2\<lparr>w_lastSequenceNo := seqNo\<rparr>))))"

text \<open>
  \<open>InitWAL\<close>: \<open>getwd\<close> is what \<open>os.Getwd\<close> returns and \<open>disks\<close> the contents of each directory
  (nothing for one that does not exist). On an error the Go function returns a nil log; the
  record returned here then only carries what happened to the disk.
\<close>

definition InitWAL ::
  "WAL_Entry proto \<Rightarrow> go_error + string \<Rightarrow> (string \<Rightarrow> fs) \<Rightarrow> WALOption list \<Rightarrow> go_error option \<times> WAL" where
  "InitWAL P getwd disks opts =
     (let w0 = defaultWALConfig getwd in
      case apply_options opts w0 of
        Inl e \<Rightarrow> (Some e, w0)
      | Inr w1 \<Rightarrow>
          (let w = w1\<lparr>w_disk := disks (w_dir w1)\<rparr> in
           if \<not> checkPreExistingWALFiles w then
             (if faults (w_disk w) OpMkdirAll (w_dir w)
              then (Some (wrap ''failed to create WAL dir'' ErrIO), w)
              else case addNewLogFile P w of
                     (Some e, w') \<Rightarrow> (Some (wrap ''failed to add new log file'' e), w')
                   | (None, w') \<Rightarrow> (None, w'))
           else reopen_last_segment P w))"

definition InitWALwithConfig ::
  "WAL_Entry proto \<Rightarrow> go_error + string \<Rightarrow> (string \<Rightarrow> fs) \<Rightarrow> WALConfig \<Rightarrow> go_error option \<times> WAL" where
  "InitWALwithConfig P getwd disks wc = InitWAL P getwd disks (WALConfig_options wc)"

text \<open>
  \<open>Close\<close> stops the goroutines and closes the file of the current segment; a second call finds
  it closed. What is still in the buffer is not flushed.
\<close>

definition Close :: "WAL \<Rightarrow> go_error option \<times> WAL" where
  "Close w =
     (let w1 = w\<lparr>w_cancelled := True\<rparr> in
      case w_segment w1 of
        None \<Rightarrow> (Some Panic, w1)
      | Some seg \<Rightarrow>
          (if w_cancelled w then Some (wrap ''failed to close wal log file'' ErrClosedConn) else None, w1))"

end
