(* ===== verification/Wal_Disk.thy ===== *)
theory Wal_Disk
  imports Wal
begin

text \<open>
  The contents of the log directory: \<open>log_disk d lo cs\<close> says that the segments on the disk \<open>d\<close>
  are numbered \<open>lo, lo + 1, \<dots>\<close> and contain the byte strings \<open>cs\<close>, and that nothing fails. What
  the directory scans, opening, creating, removing and appending do on such a disk.
\<close>

definition seg_name :: "nat \<Rightarrow> string" where
  "seg_name k = generateLogFilePath (word_of_nat k)"

definition log_disk :: "fs \<Rightarrow> nat \<Rightarrow> bytes list \<Rightarrow> bool" where
  "log_disk d lo cs \<longleftrightarrow>
     dir_wf (entries d) \<and> no_faults d \<and> 0 < lo \<and> lo + length cs \<le> 2 ^ 63 \<and>
     (\<forall>i < length cs. is_file d (seg_name (lo + i)) \<and> file_data (seg_name (lo + i)) d = cs ! i) \<and>
     (\<forall>nm. HasPrefix nm WalLogPrefix \<and> fs_node d nm \<noteq> None \<longrightarrow> nm \<in> seg_name ` {lo ..< lo + length cs})"

lemma log_diskD:
  assumes "log_disk d lo cs"
  shows "dir_wf (entries d)" "no_faults d" "0 < lo" "lo + length cs \<le> 2 ^ 63"
    "i < length cs \<Longrightarrow> is_file d (seg_name (lo + i))"
    "i < length cs \<Longrightarrow> file_data (seg_name (lo + i)) d = cs ! i"
    "HasPrefix nm WalLogPrefix \<Longrightarrow> fs_node d nm \<noteq> None \<Longrightarrow> nm \<in> seg_name ` {lo ..< lo + length cs}"
  using assms by (simp_all add: log_disk_def)

section \<open>Segment names\<close>

lemma HasPrefix_seg_name [simp]: "HasPrefix (seg_name k) WalLogPrefix"
  by (simp add: seg_name_def generateLogFilePath_def)

lemma unat_word_of_nat64: "n < 2 ^ 64 \<Longrightarrow> unat (word_of_nat n :: u64) = n"
  by (simp add: unat_of_nat)

lemma segno_of_seg_name: "k < 2 ^ 63 \<Longrightarrow> getSegmentNoFromFileName (seg_name k) = Inr (word_of_nat k)"
proof -
  assume k: "k < 2 ^ 63"
  then have "\<not> sint (word_of_nat k :: u64) < 0"
    using sint_neg_iff [of "word_of_nat k"] unat_word_of_nat64 [of k] by simp
  then show ?thesis by (simp only: seg_name_def getSegmentNo_generate if_False)
qed

lemma seg_name_inject: "i < 2 ^ 63 \<Longrightarrow> j < 2 ^ 63 \<Longrightarrow> seg_name i = seg_name j \<longleftrightarrow> i = j"
proof
  assume "i < 2 ^ 63" "j < 2 ^ 63" "seg_name i = seg_name j"
  then have "(word_of_nat i :: u64) = word_of_nat j"
    using segno_of_seg_name [of i] segno_of_seg_name [of j] by simp
  then have "unat (word_of_nat i :: u64) = unat (word_of_nat j :: u64)" by simp
  with \<open>i < 2 ^ 63\<close> \<open>j < 2 ^ 63\<close> show "i = j" by (simp add: unat_of_nat)
qed simp

lemma inj_seg_name: "inj_on seg_name {..< 2 ^ 63}"
  by (rule inj_onI) (simp add: seg_name_inject)

section \<open>Scanning the directory\<close>

definition log_names :: "fs \<Rightarrow> string list" where
  "log_names d = map fst (filter is_log_file (map (\<lambda>(nm, nd). (nm, nd = Dir)) (entries d)))"

lemma fs_node_mem: "dir_wf (entries d) \<Longrightarrow> (nm, nd) \<in> set (entries d) \<longleftrightarrow> fs_node d nm = Some nd"
  by (simp add: fs_node_def dir_wf_def)

lemma is_file_node: "is_file d nm \<longleftrightarrow> (\<exists>nd. fs_node d nm = Some nd \<and> nd \<noteq> Dir)"
  by (auto simp: is_file_def split: option.splits node.splits)

lemma set_log_names:
  "dir_wf (entries d) \<Longrightarrow> set (log_names d) = {nm. is_file d nm \<and> HasPrefix nm WalLogPrefix}"
  by (force simp: log_names_def is_log_file_def is_file_node fs_node_mem)

lemma distinct_log_names: "dir_wf (entries d) \<Longrightarrow> distinct (log_names d)"
proof -
  assume "dir_wf (entries d)"
  then have "distinct (map fst (map (\<lambda>(nm, nd). (nm, nd = Dir)) (entries d)))"
    by (simp add: dir_wf_def case_prod_beta comp_def)
  then show ?thesis unfolding log_names_def by (rule distinct_map_filter)
qed

lemma set_log_names_disk: "log_disk d lo cs \<Longrightarrow> set (log_names d) = seg_name ` {lo ..< lo + length cs}"
proof -
  assume d: "log_disk d lo cs"
  have "nm \<in> seg_name ` {lo ..< lo + length cs}" if "is_file d nm" "HasPrefix nm WalLogPrefix" for nm
    using that log_diskD(7) [OF d] by (auto simp: is_file_node)
  moreover have "is_file d (seg_name k)" if "lo \<le> k" "k < lo + length cs" for k
    using log_diskD(5) [OF d, of "k - lo"] that by simp
  ultimately show ?thesis by (auto simp: set_log_names [OF log_diskD(1) [OF d]])
qed

lemma length_log_names: "log_disk d lo cs \<Longrightarrow> length (log_names d) = length cs"
proof -
  assume d: "log_disk d lo cs"
  have "length (log_names d) = card (seg_name ` {lo ..< lo + length cs})"
    using distinct_card [OF distinct_log_names [OF log_diskD(1) [OF d]]] set_log_names_disk [OF d] by simp
  also have "\<dots> = length cs"
    using log_diskD(4) [OF d] by (subst card_image) (auto intro: inj_on_subset [OF inj_seg_name])
  finally show ?thesis .
qed

lemma fs_ReadDir_ok: "no_faults d \<Longrightarrow> fs_ReadDir dir d = Inr (map (\<lambda>(nm, nd). (nm, nd = Dir)) (entries d))"
  by (simp add: fs_ReadDir_def no_faultsD)

lemma countLogFiles_disk: "log_disk (w_disk w) lo cs \<Longrightarrow> countLogFiles w = word_of_nat (length cs)"
proof -
  assume d: "log_disk (w_disk w) lo cs"
  have "length (filter is_log_file (map (\<lambda>(nm, nd). (nm, nd = Dir)) (entries (w_disk w)))) = length cs"
    using length_log_names [OF d] by (simp add: log_names_def)
  then show ?thesis by (simp add: countLogFiles_def fs_ReadDir_ok [OF log_diskD(2) [OF d]])
qed

lemma listAllWALLogFiles_disk:
  "log_disk (w_disk w) lo cs \<Longrightarrow> listAllWALLogFiles w = Inr (log_names (w_disk w))"
  by (simp add: listAllWALLogFiles_def fs_ReadDir_ok [OF log_diskD(2)] log_names_def)

lemma Max_insert_max: "finite A \<Longrightarrow> Max (insert (max a b) A) = Max (insert a (insert b A))" for a b :: nat
  by (cases "A = {}") (simp_all add: max.assoc)

lemma max_segment_names:
  assumes "\<And>nm. nm \<in> set (map fst (filter is_log_file fl)) \<Longrightarrow> \<exists>k < 2 ^ 63. nm = seg_name k"
  shows "\<exists>v. max_segment m fl = Inr v \<and>
    unat v = Max (insert (unat m) {k. k < 2 ^ 63 \<and> seg_name k \<in> set (map fst (filter is_log_file fl))})"
  using assms
proof (induction fl arbitrary: m)
  case (Cons f fl)
  show ?case
  proof (cases "is_log_file f")
    case True
    with Cons.prems [of "fst f"] obtain k where k: "k < 2 ^ 63" "fst f = seg_name k" by auto
    let ?A = "{j. j < 2 ^ 63 \<and> seg_name j \<in> set (map fst (filter is_log_file fl))}"
    have fin: "finite ?A" by (rule finite_subset [of _ "{..< 2 ^ 63}"]) auto
    have u: "unat (max m (word_of_nat k)) = max (unat m) k"
      using k(1) unat_word_of_nat64 [of k] by (simp add: max_def word_le_nat_alt)
    have e: "{j. j < 2 ^ 63 \<and> seg_name j \<in> set (map fst (filter is_log_file (f # fl)))} = insert k ?A"
      using True k by (auto simp: seg_name_inject)
    from Cons.IH [of "max m (word_of_nat k)"] Cons.prems obtain v where
      v: "max_segment (max m (word_of_nat k)) fl = Inr v"
         "unat v = Max (insert (max (unat m) k) ?A)" using True u by auto
    have "Max (insert (max (unat m) k) ?A) = Max (insert (unat m) (insert k ?A))"
      by (rule Max_insert_max [OF fin])
    with v True k e show ?thesis by (simp add: segno_of_seg_name)
  next
    case False
    with Cons show ?thesis by simp
  qed
qed simp

lemma findLastSegmentNumber_disk:
  assumes d: "log_disk (w_disk w) lo cs" and ne: "cs \<noteq> []"
  shows "findLastSegmentNumber w = Inr (word_of_nat (lo + length cs - 1))"
proof -
  let ?fl = "map (\<lambda>(nm, nd). (nm, nd = Dir)) (entries (w_disk w))"
  note b = log_diskD(4) [OF d]
  have s: "set (map fst (filter is_log_file ?fl)) = seg_name ` {lo ..< lo + length cs}"
    using set_log_names_disk [OF d] by (simp only: log_names_def)
  then have "\<exists>k < 2 ^ 63. nm = seg_name k" if "nm \<in> set (map fst (filter is_log_file ?fl))" for nm
  proof -
    from that s obtain k where "nm = seg_name k" "k < lo + length cs" by auto
    with b show ?thesis using less_le_trans by blast
  qed
  from max_segment_names [of ?fl 0, OF this] obtain v where v: "max_segment 0 ?fl = Inr v"
    "unat v = Max (insert (unat (0 :: u64)) {k. k < 2 ^ 63 \<and> seg_name k \<in> set (map fst (filter is_log_file ?fl))})"
    by auto
  have "{k. k < 2 ^ 63 \<and> seg_name k \<in> set (map fst (filter is_log_file ?fl))} = {lo ..< lo + length cs}"
    using b by (auto simp only: s) (auto simp: seg_name_inject)
  then have "unat v = Max (insert 0 {lo ..< lo + length cs})" using v(2) by simp
  also have "\<dots> = lo + length cs - 1" using ne log_diskD(3) [OF d] by (intro Max_eqI) (auto simp: neq_Nil_conv)
  finally have u: "unat v = lo + length cs - 1" .
  have "v = word_of_nat (unat v)" by simp
  also have "\<dots> = word_of_nat (lo + length cs - 1)" by (simp only: u)
  finally have "v = word_of_nat (lo + length cs - 1)" .
  with v(1) show ?thesis by (simp add: findLastSegmentNumber_def fs_ReadDir_ok [OF log_diskD(2) [OF d]])
qed

section \<open>Operations on one segment\<close>

lemma log_disk_node:
  "log_disk d lo cs \<Longrightarrow> i < length cs \<Longrightarrow> \<exists>y. fs_node d (seg_name (lo + i)) = Some (File (cs ! i) y)"
  using log_diskD(5,6) [of d lo cs i] by (auto simp: is_file_iff)

lemma fs_Open_log_disk: "log_disk d lo cs \<Longrightarrow> i < length cs \<Longrightarrow> fs_Open (seg_name (lo + i)) d = Inr (cs ! i)"
  using log_disk_node [of d lo cs i] log_diskD(2) [of d lo cs] by (auto simp: fs_Open_def no_faultsD)

lemma seg_name_lt_inject:
  "log_disk d lo cs \<Longrightarrow> i < length cs \<Longrightarrow> j < length cs \<Longrightarrow> seg_name (lo + i) = seg_name (lo + j) \<longleftrightarrow> i = j"
  using log_diskD(4) [of d lo cs] by (simp add: seg_name_inject)

text \<open>Replacing the contents of one segment.\<close>

lemma log_disk_update:
  assumes d: "log_disk d lo cs" and i: "i < length cs"
  shows "log_disk (fs_put (seg_name (lo + i)) (File x y) d) lo (cs[i := x])"
  unfolding log_disk_def
proof (intro conjI allI impI)
  fix j assume "j < length (cs[i := x])"
  then have j: "j < length cs" by simp
  from j log_diskD(5) [OF d j] show "is_file (fs_put (seg_name (lo + i)) (File x y) d) (seg_name (lo + j))" by simp
  from j i log_diskD(6) [OF d j] seg_name_lt_inject [OF d j i]
  show "file_data (seg_name (lo + j)) (fs_put (seg_name (lo + i)) (File x y) d) = cs[i := x] ! j"
    by (simp add: nth_list_update)
next
  fix nm assume "HasPrefix nm WalLogPrefix \<and> fs_node (fs_put (seg_name (lo + i)) (File x y) d) nm \<noteq> None"
  with i log_diskD(7) [OF d, of nm] show "nm \<in> seg_name ` {lo ..< lo + length (cs[i := x])}"
    by (auto split: if_splits)
qed (use d in \<open>simp_all add: log_disk_def\<close>)

lemma fs_Create_log_disk:
  assumes d: "log_disk d lo cs" and l: "lo + length cs < 2 ^ 63"
  shows "\<exists>d'. fs_Create (seg_name (lo + length cs)) d = (None, d') \<and> log_disk d' lo (cs @ [[]])"
proof -
  let ?n = "seg_name (lo + length cs)" and ?d = "fs_put (seg_name (lo + length cs)) (File [] []) d"
  have new: "?n \<notin> seg_name ` {lo ..< lo + length cs}" using l by (auto simp: seg_name_inject)
  with log_diskD(7) [OF d, of ?n] have "fs_node d ?n = None" by auto
  then have c: "fs_Create ?n d = (None, ?d)"
    using log_diskD(2) [OF d] by (simp add: fs_Create_def no_faultsD)
  have "is_file ?d (seg_name (lo + i)) \<and> file_data (seg_name (lo + i)) ?d = (cs @ [[]]) ! i"
    if "i < Suc (length cs)" for i
  proof (cases "i = length cs")
    case False
    with that have i: "i < length cs" by simp
    with l have "seg_name (lo + i) \<noteq> ?n" by (simp add: seg_name_inject)
    with i log_diskD(5,6) [OF d i] show ?thesis by (simp add: nth_append)
  qed simp
  moreover have "nm \<in> seg_name ` {lo ..< lo + Suc (length cs)}"
    if "HasPrefix nm WalLogPrefix" "fs_node ?d nm \<noteq> None" for nm
    using that log_diskD(7) [OF d, of nm] by (auto split: if_splits)
  ultimately have "log_disk ?d lo (cs @ [[]])"
    using log_diskD(1-4) [OF d] l by (simp add: log_disk_def)
  with c show ?thesis by blast
qed

lemma fs_node_Remove:
  "fs_Remove nm d = (None, d') \<Longrightarrow> fs_node d' x = (if x = nm then None else fs_node d x)"
  by (auto simp: fs_Remove_def fs_node_def split: if_splits)

lemma fs_Remove_log_disk:
  assumes d: "log_disk d lo (c # cs)"
  shows "\<exists>d'. fs_Remove (seg_name lo) d = (None, d') \<and> log_disk d' (Suc lo) cs"
proof -
  from log_disk_node [OF d, of 0] obtain y where n: "fs_node d (seg_name lo) = Some (File c y)" by auto
  define d' where "d' = d\<lparr>entries := dir_del (seg_name lo) (entries d)\<rparr>"
  have r: "fs_Remove (seg_name lo) d = (None, d')"
    using n log_diskD(2) [OF d] by (simp add: fs_Remove_def d'_def no_faultsD)
  note node = fs_node_Remove [OF r]
  have "is_file d' (seg_name (Suc lo + i)) \<and> file_data (seg_name (Suc lo + i)) d' = cs ! i"
    if "i < length cs" for i
  proof -
    from that have i: "Suc i < length (c # cs)" by simp
    have "seg_name (lo + Suc i) \<noteq> seg_name lo" using seg_name_lt_inject [OF d i, of 0] by simp
    with log_diskD(5,6) [OF d i] show ?thesis by (simp add: is_file_def file_data_def node)
  qed
  moreover have "nm \<in> seg_name ` {Suc lo ..< Suc lo + length cs}"
    if "HasPrefix nm WalLogPrefix" "fs_node d' nm \<noteq> None" for nm
  proof -
    from that have "fs_node d nm \<noteq> None" "nm \<noteq> seg_name lo" by (auto simp: node split: if_splits)
    with log_diskD(7) [OF d that(1)] obtain k where "nm = seg_name k" "k \<in> {lo ..< lo + length (c # cs)}" by auto
    with \<open>nm \<noteq> seg_name lo\<close> show ?thesis by (cases "k = lo") auto
  qed
  ultimately have "log_disk d' (Suc lo) cs"
    using log_diskD(1-4) [OF d] by (simp add: log_disk_def d'_def)
  with r show ?thesis by blast
qed

text \<open>
  The segment at any position is an \<open>io.Writer\<close> that leaves the other segments alone. The
  buffered writer of the log writes to the last one, and during a rotation to the last but one.
\<close>

lemma fs_Append_log_disk:
  assumes "log_disk d lo (pre @ c # post)"
  shows "\<exists>d'. fs_Append (seg_name (lo + length pre)) p d = (length p, None, d') \<and>
    log_disk d' lo (pre @ (c @ p) # post) \<and> file_data (seg_name (lo + length pre)) d = c"
proof -
  from log_disk_node [OF assms, of "length pre"] obtain y where
    n: "fs_node d (seg_name (lo + length pre)) = Some (File c y)" by auto
  have r: "room d (seg_name (lo + length pre)) = None" using log_diskD(2) [OF assms] by (simp add: no_faultsD)
  have f: "file_data (seg_name (lo + length pre)) d = c" using n by (simp add: file_data_def)
  from log_disk_update [OF assms, of "length pre" "c @ p" y]
  have "log_disk (fs_put (seg_name (lo + length pre)) (File (c @ p) y) d) lo (pre @ (c @ p) # post)" by simp
  with fs_WriteAt_no_room_limit [OF r n, of "length c" p] f assms show ?thesis by (auto simp: fs_Append_def)
qed

interpretation sw: io_writer "fs_Append (seg_name (lo + length pre))"
  "\<lambda>d. \<exists>c. log_disk d lo (pre @ c # post)" "\<lambda>_. True" "file_data (seg_name (lo + length pre))"
  for lo pre post
proof unfold_locales
  fix s p n e s'
  assume "\<exists>c. log_disk s lo (pre @ c # post)" and w: "fs_Append (seg_name (lo + length pre)) p s = (n, e, s')"
  then obtain c where c: "log_disk s lo (pre @ c # post)" by blast
  from fs_Append_log_disk [OF c, of p] w have d: "n = length p" "e = None" "log_disk s' lo (pre @ (c @ p) # post)"
    "file_data (seg_name (lo + length pre)) s = c" by auto
  with fs_Append_log_disk [OF d(3), of "[]"]
  show "\<exists>c. log_disk s' lo (pre @ c # post)"
    "n \<le> length p \<and> file_data (seg_name (lo + length pre)) s' = file_data (seg_name (lo + length pre)) s @ take n p"
    by auto
next
  fix s p n s'
  assume "\<exists>c. log_disk s lo (pre @ c # post)" "fs_Append (seg_name (lo + length pre)) p s = (n, None, s')"
  then show "n = length p" using fs_Append_log_disk [of s lo pre _ post p] by auto
next
  fix s p n e s'
  assume "\<exists>c. log_disk s lo (pre @ c # post)" "fs_Append (seg_name (lo + length pre)) p s = (n, e, s')"
  then show "e = None \<and> True" using fs_Append_log_disk [of s lo pre _ post p] by auto
qed

lemma file_data_log_disk: "log_disk d lo (pre @ c # post) \<Longrightarrow> file_data (seg_name (lo + length pre)) d = c"
  using fs_Append_log_disk by blast

lemma bufio_Flush_log_disk:
  assumes "log_disk d lo (pre @ c # post)" "berr b = None"
  shows "\<exists>d'. bufio_Flush (fs_Append (seg_name (lo + length pre))) b d = (None, NewWriter, d') \<and>
    log_disk d' lo (pre @ (c @ bbuf b) # post)"
proof -
  from assms(1) have "\<exists>c. log_disk d lo (pre @ c # post)" by blast
  from sw.bufio_Flush_healthy [OF this _ assms(2)] obtain d' c' where
    "bufio_Flush (fs_Append (seg_name (lo + length pre))) b d = (None, NewWriter, d')"
    "log_disk d' lo (pre @ c' # post)"
    "file_data (seg_name (lo + length pre)) d' = file_data (seg_name (lo + length pre)) d @ bbuf b" by auto
  with assms(1) show ?thesis by (auto simp: file_data_log_disk)
qed

lemma bufio_Write_log_disk:
  assumes "log_disk d lo (pre @ c # post)" "berr b = None"
  shows "\<exists>b' d' c'. bufio_Write (fs_Append (seg_name (lo + length pre))) p b d = (None, b', d') \<and>
    berr b' = None \<and> log_disk d' lo (pre @ c' # post) \<and> c' @ bbuf b' = c @ bbuf b @ p \<and> (\<exists>q. c' = c @ q)"
proof -
  from assms(1) have "\<exists>c. log_disk d lo (pre @ c # post)" by blast
  from sw.bufio_Write_healthy [OF this _ assms(2), of p] obtain b' d' c' where
    "bufio_Write (fs_Append (seg_name (lo + length pre))) p b d = (None, b', d')" "berr b' = None"
    "log_disk d' lo (pre @ c' # post)"
    "file_data (seg_name (lo + length pre)) d' @ bbuf b' = file_data (seg_name (lo + length pre)) d @ bbuf b @ p"
    by auto
  with sw.bufio_Write_extends [OF \<open>\<exists>c. log_disk d lo (pre @ c # post)\<close> this(1)] assms(1)
  show ?thesis by (auto simp: file_data_log_disk)
qed

end
