(* ===== verification/Wal_Log.thy ===== *)
theory Wal_Log
  imports Wal_Disk
begin

text \<open>
  The write-ahead log as a log. \<open>wal_rep P w lo closed cur\<close> says that the state \<open>w\<close> of the
  code, with its files and its buffer, represents the entries \<open>concat closed @ cur\<close>: the
  segments \<open>lo, \<dots>\<close> hold the lists in \<open>closed\<close>, the last segment followed by the buffer
  holds \<open>cur\<close>. The lemmas show what each operation of the code does to the represented list.
\<close>

section \<open>The representation\<close>

text \<open>\<open>numbered n es\<close>: the sequence numbers of \<open>es\<close> are consecutive, positive and end with \<open>n\<close>.\<close>

definition numbered :: "u64 \<Rightarrow> WAL_Entry list \<Rightarrow> bool" where
  "numbered n es \<longleftrightarrow>
     length es \<le> unat n \<and> map (\<lambda>e. unat (LogSequenceNo e)) es = [Suc (unat n) - length es ..< Suc (unat n)]"

definition wal_store :: "WAL_Entry proto \<Rightarrow> WAL \<Rightarrow> nat \<Rightarrow> WAL_Entry list list \<Rightarrow> WAL_Entry list \<Rightarrow> bool" where
  "wal_store P w lo closed cur \<longleftrightarrow>
     (\<exists>b c. w_writer w = Some (seg_name (lo + length closed), b) \<and> berr b = None \<and>
            log_disk (w_disk w) lo (map (wl.frames P) closed @ [c]) \<and> c @ bbuf b = wl.frames P cur) \<and>
     w_segment w = Some (seg_name (lo + length closed)) \<and>
     w_lastSegmentNo w = word_of_nat (lo + length closed) \<and>
     w_curSegmentSize w = word_of_nat (length (wl.frames P cur)) \<and>
     length (wl.frames P cur) < unat (w_maxSegmentSize w) \<and> unat (w_maxSegmentSize w) \<le> 2 ^ 63 \<and>
     2 \<le> unat (w_maxSegements w) \<and> [] \<notin> set closed \<and> list_all (entry_wf P) (concat closed @ cur)"

definition wal_rep :: "WAL_Entry proto \<Rightarrow> WAL \<Rightarrow> nat \<Rightarrow> WAL_Entry list list \<Rightarrow> WAL_Entry list \<Rightarrow> bool" where
  "wal_rep P w lo closed cur \<longleftrightarrow>
     wal_store P w lo closed cur \<and> numbered (w_lastSequenceNo w) (concat closed @ cur) \<and>
     (\<forall>e \<in> set (concat (tl (closed @ [cur]))). w_lastSnapshot w < LogSequenceNo e) \<and>
     w_lastSnapshot w \<le> w_lastSequenceNo w"

lemma numbered_snoc:
  "numbered n es \<Longrightarrow> unat n + 1 < 2 ^ 64 \<Longrightarrow> LogSequenceNo e = n + 1 \<Longrightarrow> numbered (n + 1) (es @ [e])"
  by (simp add: numbered_def unat_word_ariths Suc_diff_le)

lemma numbered_suffix: "numbered n (xs @ ys) \<Longrightarrow> numbered n ys"
proof -
  assume a: "numbered n (xs @ ys)"
  then have l: "length xs + length ys \<le> unat n"
    and m: "map (\<lambda>e. unat (LogSequenceNo e)) (xs @ ys) = [Suc (unat n) - length (xs @ ys) ..< Suc (unat n)]"
    by (simp_all add: numbered_def)
  have "map (\<lambda>e. unat (LogSequenceNo e)) ys = drop (length xs) [Suc (unat n) - length (xs @ ys) ..< Suc (unat n)]"
    unfolding m [symmetric] by simp
  also have "\<dots> = [Suc (unat n) - length ys ..< Suc (unat n)]" using l by (simp add: drop_upt del: upt_Suc)
  finally show ?thesis using l by (simp add: numbered_def)
qed

lemma numbered_last: "numbered n es \<Longrightarrow> es \<noteq> [] \<Longrightarrow> LogSequenceNo (last es) = n"
proof -
  assume a: "numbered n es" "es \<noteq> []"
  then have "last (map (\<lambda>e. unat (LogSequenceNo e)) es) = unat n"
    unfolding numbered_def by (auto simp: neq_Nil_conv)
  with a(2) have "unat (LogSequenceNo (last es)) = unat n" by (simp add: last_map)
  then show ?thesis by (simp only: word_unat_eq_iff)
qed

lemma numbered_sorted:
  assumes "numbered n (xs @ ys)" "x \<in> set xs" "y \<in> set ys"
  shows "LogSequenceNo x < LogSequenceNo y"
proof -
  have "sorted_wrt (<) (map (\<lambda>e. unat (LogSequenceNo e)) (xs @ ys))"
    using assms(1) by (simp only: numbered_def sorted_wrt_upt)
  with assms(2,3) have "unat (LogSequenceNo x) < unat (LogSequenceNo y)"
    by (auto simp: sorted_wrt_append sorted_wrt_map)
  then show ?thesis by (simp add: word_less_nat_alt)
qed

lemma numbered_le: "numbered n es \<Longrightarrow> e \<in> set es \<Longrightarrow> LogSequenceNo e \<le> n"
proof -
  assume a: "numbered n es" "e \<in> set es"
  then have "unat (LogSequenceNo e) \<in> set [Suc (unat n) - length es ..< Suc (unat n)]"
    unfolding numbered_def by (metis (no_types, lifting) image_eqI list.set_map)
  then show ?thesis by (auto simp: word_le_nat_alt simp del: upt_Suc)
qed

text \<open>What no operation changes but start-up and snapshots.\<close>

definition same_config :: "WAL \<Rightarrow> WAL \<Rightarrow> bool" where
  "same_config w w' \<longleftrightarrow> w_maxSegmentSize w' = w_maxSegmentSize w \<and> w_maxSegements w' = w_maxSegements w \<and>
     w_cancelled w' = w_cancelled w \<and> w_dir w' = w_dir w \<and> w_enableFsSync w' = w_enableFsSync w"

lemma same_config_refl [simp]: "same_config w w"
  by (simp add: same_config_def)

lemma same_config_trans: "same_config w w1 \<Longrightarrow> same_config w1 w2 \<Longrightarrow> same_config w w2"
  by (simp add: same_config_def)

text \<open>
  An entry of the represented log is durable when its bytes have reached a segment file: it is
  in a closed segment, or in the part of the last one that is on the disk.
\<close>

definition durable :: "WAL_Entry proto \<Rightarrow> WAL \<Rightarrow> nat \<Rightarrow> WAL_Entry list list \<Rightarrow> WAL_Entry list \<Rightarrow> WAL_Entry \<Rightarrow> bool" where
  "durable P w lo closed cur e \<longleftrightarrow> e \<in> set (concat closed) \<or>
     (\<exists>k k' t. cur = k @ k' \<and> e \<in> set k \<and>
        file_data (seg_name (lo + length closed)) (w_disk w) = wl.frames P k @ t)"

lemma durable_all:
  assumes "file_data (seg_name (lo + length closed)) (w_disk w) = wl.frames P cur" "x \<in> set (concat closed @ cur)"
  shows "durable P w lo closed cur x"
proof (cases "x \<in> set (concat closed)")
  case False
  with assms(2) have "x \<in> set cur" by simp
  with assms(1) show ?thesis unfolding durable_def by (intro disjI2 exI [of _ cur] exI [of _ "[]"]) simp
qed (simp add: durable_def)

lemma numbered_pos: "numbered n es \<Longrightarrow> e \<in> set es \<Longrightarrow> 0 < LogSequenceNo e"
proof -
  assume n: "numbered n es" and e: "e \<in> set es"
  then have "unat (LogSequenceNo e) \<in> set [Suc (unat n) - length es ..< Suc (unat n)]"
    unfolding numbered_def by (metis (no_types, lifting) image_eqI list.set_map)
  moreover have "length es \<le> unat n" using n by (simp only: numbered_def)
  ultimately have "unat (LogSequenceNo e) \<noteq> 0" by (auto simp del: upt_Suc)
  then show ?thesis by (simp add: word_less_nat_alt)
qed

section \<open>The last sequence number of a segment\<close>

lemma findLastSequenceNumber_nonempty:
  assumes "proto_ok P" "list_all (entry_wf P) es" "es \<noteq> []"
  shows "findLastSequenceNumberInLogFile P f (wl.frames P es) d = Inr (LogSequenceNo (last es))"
  using findLastRecord_frames [OF assms(1,2)] assms(3)
  by (simp add: findLastSequenceNumberInLogFile.simps [of P f] GetLogSequenceNo_def)

section \<open>Flushing\<close>

lemma fs_Sync_log_disk:
  assumes d: "log_disk d lo cs"
  shows "\<exists>d'. fs_Sync nm d = (None, d') \<and> log_disk d' lo cs"
proof (cases "\<exists>x y. fs_node d nm = Some (File x y)")
  case True
  then obtain x y where n: "fs_node d nm = Some (File x y)" by blast
  then have s: "fs_Sync nm d = (None, fs_put nm (File x x) d)"
    using log_diskD(2) [OF d] by (simp add: fs_Sync_def no_faultsD)
  have "is_file (fs_put nm (File x x) d) z = is_file d z" for z
    using n by (simp add: is_file_def)
  moreover have "file_data z (fs_put nm (File x x) d) = file_data z d" for z
    using n by (simp add: file_data_def)
  moreover have "(fs_node (fs_put nm (File x x) d) z = None) = (fs_node d z = None)" for z
    using n by simp
  ultimately have "log_disk (fs_put nm (File x x) d) lo cs" using d by (simp add: log_disk_def)
  with s show ?thesis by blast
next
  case False
  then have "fs_Sync nm d = (None, d)"
    using log_diskD(2) [OF d] by (auto simp: fs_Sync_def no_faultsD split: option.splits node.splits)
  with d show ?thesis by blast
qed

lemma flush_log_disk:
  assumes "w_writer w = Some (seg_name (lo + length pre), b)" "berr b = None"
    "log_disk (w_disk w) lo (pre @ c # post)" "w_segment w \<noteq> None"
  shows "\<exists>d'. flush w = (None, w\<lparr>w_writer := Some (seg_name (lo + length pre), NewWriter), w_disk := d',
      w_flushDone := w_flushDone w + 1\<rparr>) \<and> log_disk d' lo (pre @ (c @ bbuf b) # post)"
proof -
  from bufio_Flush_log_disk [OF assms(3,2)] obtain d1 where
    f: "bufio_Flush (fs_Append (seg_name (lo + length pre))) b (w_disk w) = (None, NewWriter, d1)"
    and d1: "log_disk d1 lo (pre @ (c @ bbuf b) # post)" by blast
  from assms(4) obtain seg where seg: "w_segment w = Some seg" by blast
  from fs_Sync_log_disk [OF d1, of seg] obtain d2 where
    "fs_Sync seg d1 = (None, d2)" "log_disk d2 lo (pre @ (c @ bbuf b) # post)" by blast
  with f d1 seg assms(1) show ?thesis by (cases "w_enableFsSync w") (auto simp: flush_def Let_def)
qed

text \<open>A flush leaves the log as it is, empties the buffer and wakes the waiting callers.\<close>

definition flushed :: "WAL \<Rightarrow> bool" where
  "flushed w \<longleftrightarrow> (case w_writer w of Some (f, b) \<Rightarrow> bbuf b = [] | None \<Rightarrow> False)"

lemma flush_wal_rep:
  assumes "wal_rep P w lo closed cur"
  shows "\<exists>w'. flush w = (None, w') \<and> wal_rep P w' lo closed cur \<and> flushed w' \<and> w_flushDone w' = w_flushDone w + 1 \<and>
    w_lastSequenceNo w' = w_lastSequenceNo w \<and> w_lastSegmentNo w' = w_lastSegmentNo w \<and>
    w_lastSnapshot w' = w_lastSnapshot w \<and> same_config w w' \<and>
    (\<forall>x \<in> set (concat closed @ cur). durable P w' lo closed cur x)"
proof -
  from assms obtain b c where b: "w_writer w = Some (seg_name (lo + length closed), b)" "berr b = None"
    "log_disk (w_disk w) lo (map (wl.frames P) closed @ [c])" "c @ bbuf b = wl.frames P cur"
    "w_segment w = Some (seg_name (lo + length closed))"
    by (auto simp: wal_rep_def wal_store_def)
  with flush_log_disk [of w lo "map (wl.frames P) closed" b c "[]"] obtain d' where
    f: "flush w = (None, w\<lparr>w_writer := Some (seg_name (lo + length closed), NewWriter), w_disk := d',
      w_flushDone := w_flushDone w + 1\<rparr>)"
    and d: "log_disk d' lo (map (wl.frames P) closed @ [wl.frames P cur])" by auto
  have "file_data (seg_name (lo + length closed)) d' = wl.frames P cur"
    using file_data_log_disk [of d' lo "map (wl.frames P) closed" "wl.frames P cur" "[]"] d by simp
  then have "\<forall>x \<in> set (concat closed @ cur). durable P (w\<lparr>w_writer := Some (seg_name (lo + length closed), NewWriter), w_disk := d',
      w_flushDone := w_flushDone w + 1\<rparr>) lo closed cur x" by (auto intro!: durable_all)
  with f d assms show ?thesis
    by (auto simp: wal_rep_def wal_store_def flushed_def NewWriter_def same_config_def)
qed

section \<open>Rotation\<close>

lemma word_of_nat_unat: "v = word_of_nat (unat v)" for v :: u64
  by simp

text \<open>
  What a removal may do to the represented log: nothing, or drop the first segment, whose last
  entry the last snapshot covers.
\<close>

definition trimmed :: "u64 \<Rightarrow> nat \<Rightarrow> WAL_Entry list list \<Rightarrow> nat \<Rightarrow> WAL_Entry list list \<Rightarrow> bool" where
  "trimmed snap lo closed lo' closed' \<longleftrightarrow>
     (lo' = lo \<and> closed' = closed) \<or>
     (lo' = Suc lo \<and> closed \<noteq> [] \<and> closed' = tl closed \<and> LogSequenceNo (last (hd closed)) \<le> snap)"

lemma wal_storeE:
  assumes "wal_store P w lo closed cur"
  obtains b c where "w_writer w = Some (seg_name (lo + length closed), b)" "berr b = None"
    "log_disk (w_disk w) lo (map (wl.frames P) closed @ [c])" "c @ bbuf b = wl.frames P cur"
    "w_segment w = Some (seg_name (lo + length closed))" "w_lastSegmentNo w = word_of_nat (lo + length closed)"
  using assms by (auto simp: wal_store_def)

lemma oldest_segment_number:
  "m \<le> Suc k \<Longrightarrow> w_max = word_of_nat m \<Longrightarrow>
   word_of_nat (lo + k) - w_max + 1 = (word_of_nat (lo + (Suc k - m)) :: u64)"
  by (simp add: of_nat_diff)

lemma removeLogFile_keep:
  assumes P: "proto_ok P" and d: "log_disk (w_disk w) lo (map (wl.frames P) closed @ [c])"
    and i: "i < length closed" and wf: "closed ! i \<noteq> []" "list_all (entry_wf P) (closed ! i)"
  shows "removeLogFile P (word_of_nat (lo + i)) w =
    (if w_lastSnapshot w < LogSequenceNo (last (closed ! i)) then (None, w)
     else case fs_Remove (seg_name (lo + i)) (w_disk w) of
            (Some e, d') \<Rightarrow> (if e = ErrNotExist then None else Some (wrap ''failed to remove wal file'' e), w\<lparr>w_disk := d'\<rparr>)
          | (None, d') \<Rightarrow> (None, w\<lparr>w_disk := d'\<rparr>))"
proof -
  from i have "i < length (map (wl.frames P) closed @ [c])" by simp
  from fs_Open_log_disk [OF d this] i have
    "fs_Open (seg_name (lo + i)) (w_disk w) = Inr (wl.frames P (closed ! i))" by (simp add: nth_append)
  then show ?thesis
    using findLastSequenceNumber_nonempty [OF P wf(2,1)]
    by (simp add: removeLogFile_def seg_name_def Let_def)
qed

lemma removeLogFile_first:
  assumes P: "proto_ok P" and st: "wal_store P w lo (es # closed) cur"
    and snap: "LogSequenceNo (last es) \<le> w_lastSnapshot w"
  shows "\<exists>d'. removeLogFile P (word_of_nat lo) w = (None, w\<lparr>w_disk := d'\<rparr>) \<and>
    wal_store P (w\<lparr>w_disk := d'\<rparr>) (Suc lo) closed cur"
proof -
  from st obtain b c where b: "w_writer w = Some (seg_name (lo + length (es # closed)), b)" "berr b = None"
    "log_disk (w_disk w) lo (map (wl.frames P) (es # closed) @ [c])" "c @ bbuf b = wl.frames P cur"
    by (rule wal_storeE)
  from st have wf: "es \<noteq> []" "list_all (entry_wf P) es" by (auto simp: wal_store_def)
  from b(3) have "log_disk (w_disk w) lo (wl.frames P es # map (wl.frames P) closed @ [c])" by simp
  from fs_Remove_log_disk [OF this] obtain d' where
    r: "fs_Remove (seg_name lo) (w_disk w) = (None, d')" "log_disk d' (Suc lo) (map (wl.frames P) closed @ [c])"
    by blast
  from removeLogFile_keep [OF P b(3), of 0] wf snap r(1) have
    "removeLogFile P (word_of_nat lo) w = (None, w\<lparr>w_disk := d'\<rparr>)" by auto
  moreover have "wal_store P (w\<lparr>w_disk := d'\<rparr>) (Suc lo) closed cur"
    using st b r(2) by (auto simp: wal_store_def)
  ultimately show ?thesis by blast
qed

lemma removeLastLogFile_store:
  assumes P: "proto_ok P" and st: "wal_store P w lo closed cur"
    and full: "unat (w_maxSegements w) \<le> Suc (length closed)"
    and snap: "\<forall>e \<in> set (concat (tl (closed @ [cur]))). w_lastSnapshot w < LogSequenceNo e"
  shows "\<exists>d' lo' closed'. removeLastLogFile P w = (None, w\<lparr>w_disk := d'\<rparr>) \<and>
    wal_store P (w\<lparr>w_disk := d'\<rparr>) lo' closed' cur \<and> trimmed (w_lastSnapshot w) lo closed lo' closed'"
proof -
  from st obtain b c where b: "log_disk (w_disk w) lo (map (wl.frames P) closed @ [c])"
    "w_lastSegmentNo w = word_of_nat (lo + length closed)" by (rule wal_storeE)
  define i where "i = Suc (length closed) - unat (w_maxSegements w)"
  have i: "i < length closed" using st full by (auto simp: i_def wal_store_def)
  have seg: "removeLastLogFile P w = removeLogFile P (word_of_nat (lo + i)) w"
    using oldest_segment_number [OF full, of "w_maxSegements w" lo]
    by (simp only: removeLastLogFile_def i_def b(2) word_of_nat_unat [symmetric] simp_thms)
  from i have "closed ! i \<in> set closed" by (rule nth_mem)
  then have wf: "closed ! i \<noteq> []" "list_all (entry_wf P) (closed ! i)"
    using st by (force simp: wal_store_def list_all_iff)+
  show ?thesis
  proof (cases "w_lastSnapshot w < LogSequenceNo (last (closed ! i))")
    case True
    with removeLogFile_keep [OF P b(1) i wf] seg have "removeLastLogFile P w = (None, w\<lparr>w_disk := w_disk w\<rparr>)" by simp
    with st show ?thesis
      by (intro exI [of _ "w_disk w"] exI [of _ lo] exI [of _ closed]) (simp add: trimmed_def)
  next
    case False
    have "i = 0"
    proof (rule ccontr)
      assume "i \<noteq> 0"
      with i have "closed ! i \<in> set (tl (closed @ [cur]))"
        by (cases closed; cases i) (auto simp: nth_append)
      with wf(1) snap False show False by (metis last_in_set set_concat UN_I)
    qed
    with i obtain es closed' where c: "closed = es # closed'" by (cases closed) auto
    with False \<open>i = 0\<close> have "LogSequenceNo (last es) \<le> w_lastSnapshot w" by simp
    with removeLogFile_first [OF P st [unfolded c]] seg \<open>i = 0\<close> c show ?thesis by (auto simp: trimmed_def)
  qed
qed

lemma open_next_segment_store:
  assumes st: "wal_store P w lo closed cur" and cur: "cur \<noteq> []" and room: "lo + length closed + 1 < 2 ^ 63"
  shows "\<exists>w'. open_next_segment w = (None, w') \<and> wal_store P w' lo (closed @ [cur]) [] \<and>
    w_lastSequenceNo w' = w_lastSequenceNo w \<and> w_lastSnapshot w' = w_lastSnapshot w \<and>
    w_flushDone w' = w_flushDone w + 1 \<and> same_config w w'"
proof -
  let ?n = "lo + length closed"
  from st obtain b c where b: "w_writer w = Some (seg_name ?n, b)" "berr b = None"
    "log_disk (w_disk w) lo (map (wl.frames P) closed @ [c])" "c @ bbuf b = wl.frames P cur"
    "w_lastSegmentNo w = word_of_nat ?n" by (rule wal_storeE)
  let ?f = "seg_name (lo + length (map (wl.frames P) closed @ [c]))"
  from fs_Create_log_disk [OF b(3)] room obtain d1 where
    c: "fs_Create ?f (w_disk w) = (None, d1)" and d1: "log_disk d1 lo (map (wl.frames P) closed @ c # [[]])" by auto
  have no: "w_lastSegmentNo w + 1 = word_of_nat (Suc ?n)" and f: "generateLogFilePath (word_of_nat (Suc ?n)) = ?f"
    by (simp_all add: b(5) seg_name_def)
  let ?w2 = "w\<lparr>w_lastSegmentNo := word_of_nat (Suc ?n), w_disk := d1, w_segment := Some ?f, w_curSegmentSize := 0\<rparr>"
  have n: "seg_name ?n = seg_name (lo + length (map (wl.frames P) closed))" by simp
  from flush_log_disk [of ?w2 lo "map (wl.frames P) closed" b c "[[]]"] b(1,2) d1 obtain d2 where
    fl: "flush ?w2 = (None, ?w2\<lparr>w_writer := Some (seg_name (lo + length (map (wl.frames P) closed)), NewWriter),
      w_disk := d2, w_flushDone := w_flushDone w + 1\<rparr>)"
    and d2: "log_disk d2 lo (map (wl.frames P) (closed @ [cur]) @ [[]])" using b(4) by auto
  let ?w' = "?w2\<lparr>w_writer := Some (?f, NewWriter), w_disk := d2, w_flushDone := w_flushDone w + 1\<rparr>"
  have "open_next_segment w = (None, ?w')"
    using c fl b(1) by (simp add: open_next_segment_def Let_def no f del: of_nat_Suc)
  moreover have "wal_store P ?w' lo (closed @ [cur]) []"
    using st cur d2 by (auto simp: wal_store_def NewWriter_def)
  ultimately show ?thesis by (intro exI [of _ ?w']) (simp add: same_config_def)
qed

lemma addNewLogFile_store:
  assumes P: "proto_ok P" and st: "wal_store P w lo closed cur" and cur: "cur \<noteq> []"
    and room: "lo + length closed + 1 < 2 ^ 63"
    and snap: "\<forall>e \<in> set (concat (tl (closed @ [cur]))). w_lastSnapshot w < LogSequenceNo e"
  shows "\<exists>w' lo' closed'. addNewLogFile P w = (None, w') \<and> wal_store P w' lo' (closed' @ [cur]) [] \<and>
    trimmed (w_lastSnapshot w) lo closed lo' closed' \<and>
    w_lastSequenceNo w' = w_lastSequenceNo w \<and> w_lastSnapshot w' = w_lastSnapshot w \<and>
    w_flushDone w' = w_flushDone w + 1 \<and> same_config w w'"
proof -
  from st obtain b c where d: "log_disk (w_disk w) lo (map (wl.frames P) closed @ [c])" by (rule wal_storeE)
  from countLogFiles_disk [OF d] room have n: "unat (countLogFiles w) = Suc (length closed)"
    by (simp add: unat_word_of_nat64 del: of_nat_Suc)
  obtain w1 lo' closed' where r:
    "(if w_maxSegements w \<le> countLogFiles w then removeLastLogFile P w else (None, w)) = (None, w1)"
    "wal_store P w1 lo' closed' cur" "trimmed (w_lastSnapshot w) lo closed lo' closed'"
    "\<exists>d'. w1 = w\<lparr>w_disk := d'\<rparr>"
  proof (cases "w_maxSegements w \<le> countLogFiles w")
    case True
    with n have "unat (w_maxSegements w) \<le> Suc (length closed)" by (simp add: word_le_nat_alt)
    from removeLastLogFile_store [OF P st this snap] True that show thesis by auto
  next
    case False
    have i: "\<exists>d'. w = w\<lparr>w_disk := d'\<rparr>" by (rule exI [of _ "w_disk w"]) simp
    have t: "trimmed (w_lastSnapshot w) lo closed lo closed" by (simp add: trimmed_def)
    from False have "(if w_maxSegements w \<le> countLogFiles w then removeLastLogFile P w else (None, w)) = (None, w)"
      by (simp only: if_False)
    then show thesis using st t i by (rule that)
  qed
  from r(3) room have "lo' + length closed' + 1 < 2 ^ 63" by (auto simp: trimmed_def neq_Nil_conv)
  from open_next_segment_store [OF r(2) cur this] obtain w' where
    w': "open_next_segment w1 = (None, w')" "wal_store P w' lo' (closed' @ [cur]) []"
    "w_lastSequenceNo w' = w_lastSequenceNo w1" "w_lastSnapshot w' = w_lastSnapshot w1"
    "w_flushDone w' = w_flushDone w1 + 1" "same_config w1 w'" by blast
  have "addNewLogFile P w = (None, w')" using w'(1) by (simp add: addNewLogFile_def r(1))
  with w'(2-) r(3,4) show ?thesis by (intro exI [of _ w'] exI [of _ lo'] exI [of _ closed']) (auto simp: same_config_def)
qed

section \<open>Appending\<close>

lemma write_entry_store:
  assumes st: "wal_store P w lo closed cur" and wf: "entry_wf P e" and m: "Marshal P e = Inr m"
    and fits: "length (wl.frames P cur) + (length m + 4) < unat (w_maxSegmentSize w)"
  shows "\<exists>w'. write_entry m w = (None, w') \<and> wal_store P w' lo closed (cur @ [e]) \<and>
    w_lastSequenceNo w' = w_lastSequenceNo w \<and> w_lastSnapshot w' = w_lastSnapshot w \<and>
    w_flushDone w' = w_flushDone w \<and> same_config w w' \<and>
    (\<exists>q. file_data (seg_name (lo + length closed)) (w_disk w') = file_data (seg_name (lo + length closed)) (w_disk w) @ q)"
proof -
  let ?f = "seg_name (lo + length (map (wl.frames P) closed))" and ?len = "put_uint32 (word_of_nat (length m))"
  from st obtain b c where b: "w_writer w = Some (?f, b)" "berr b = None"
    "log_disk (w_disk w) lo (map (wl.frames P) closed @ [c])" "c @ bbuf b = wl.frames P cur" by (auto elim: wal_storeE)
  from bufio_Write_log_disk [OF b(3,2), of ?len] obtain b1 d1 c1 where
    w1: "bufio_Write (fs_Append ?f) ?len b (w_disk w) = (None, b1, d1)" "berr b1 = None"
    "log_disk d1 lo (map (wl.frames P) closed @ [c1])" "c1 @ bbuf b1 = c @ bbuf b @ ?len" "\<exists>q. c1 = c @ q" by blast
  from bufio_Write_log_disk [OF w1(3,2), of m] obtain b2 d2 c2 where
    w2: "bufio_Write (fs_Append ?f) m b1 d1 = (None, b2, d2)" "berr b2 = None"
    "log_disk d2 lo (map (wl.frames P) closed @ [c2])" "c2 @ bbuf b2 = c1 @ bbuf b1 @ m" "\<exists>q. c2 = c1 @ q" by blast
  have e: "entry_bytes P e = ?len @ m" using m by (simp add: entry_bytes_def)
  have view: "c2 @ bbuf b2 = wl.frames P (cur @ [e])"
    using w2(4) w1(4) b(4) by (simp add: e)
  have size: "length (wl.frames P (cur @ [e])) = length (wl.frames P cur) + (length m + 4)" by (simp add: e)
  let ?w' = "w\<lparr>w_writer := Some (?f, b2), w_disk := d2,
    w_curSegmentSize := w_curSegmentSize w + (word_of_nat (length m) + 4)\<rparr>"
  have "write_entry m w = (None, ?w')" using b(1) w1(1) w2(1) by (simp add: write_entry_def)
  moreover have "wal_store P ?w' lo closed (cur @ [e])"
    using st w2(2,3) view size fits wf unfolding wal_store_def by (auto simp del: wl.frames_simps)
  moreover have "\<exists>q. file_data (seg_name (lo + length closed)) d2 = file_data (seg_name (lo + length closed)) (w_disk w) @ q"
    using w1(5) w2(5) file_data_log_disk [OF w2(3)] file_data_log_disk [OF b(3)] by auto
  ultimately show ?thesis by (intro exI [of _ ?w']) (simp add: same_config_def)
qed

lemma new_entry_wf:
  "Marshal P (new_entry n data del) = Inr m \<Longrightarrow> length m < 2 ^ 32 \<Longrightarrow> entry_wf P (new_entry n data del)"
  by (simp add: entry_wf_def verifyCRC_def new_entry_def generateCRC_def GetCRC_def GetData_def)

text \<open>
  The 64-bit comparison of \<open>appendEntry\<close> is that of the natural numbers: a segment and an entry
  are both shorter than the maximum size, which is at most \<open>2 ^ 63\<close>.
\<close>

lemma size_check:
  assumes "L < unat (mx :: u64)" "k + 4 < unat mx" "unat mx \<le> 2 ^ 63"
  shows "mx \<le> word_of_nat L + word_of_nat k + 4 \<longleftrightarrow> unat mx \<le> L + (k + 4)"
proof -
  have "unat (word_of_nat (L + (k + 4)) :: u64) = L + (k + 4)"
    using assms by (intro unat_word_of_nat64) simp
  moreover have "(word_of_nat L + word_of_nat k + 4 :: u64) = word_of_nat (L + (k + 4))" by simp
  ultimately show ?thesis by (simp only: word_le_nat_alt)
qed

lemma wal_store_size: "wal_store P w lo closed cur \<Longrightarrow> w_curSegmentSize w < w_maxSegmentSize w"
  by (auto simp: wal_store_def word_less_nat_alt unat_word_of_nat64)

lemma wal_store_seq [simp]: "wal_store P (w\<lparr>w_lastSequenceNo := n\<rparr>) lo closed cur = wal_store P w lo closed cur"
  by (simp add: wal_store_def)

text \<open>
  \<open>can_append\<close> collects when an append goes through: the entry marshals and fits a segment, and
  no counter is at its end.
\<close>

definition can_append :: "WAL_Entry proto \<Rightarrow> bytes \<Rightarrow> bool \<Rightarrow> WAL \<Rightarrow> bool" where
  "can_append P data isDelete w \<longleftrightarrow>
     (case Marshal P (new_entry (w_lastSequenceNo w + 1) data isDelete) of
        Inl e \<Rightarrow> False
      | Inr m \<Rightarrow> length m + 4 < unat (w_maxSegmentSize w) \<and> length m < 2 ^ 32) \<and>
     unat (w_lastSequenceNo w) + 1 < 2 ^ 64 \<and> unat (w_lastSegmentNo w) + 1 < 2 ^ 63"

lemma append_store:
  assumes P: "proto_ok P" and st: "wal_store P w lo closed cur" and room: "lo + length closed + 1 < 2 ^ 63"
    and snap: "\<forall>e \<in> set (concat (tl (closed @ [cur]))). w_lastSnapshot w < LogSequenceNo e"
    and m: "Marshal P (new_entry (w_lastSequenceNo w + 1) data del) = Inr m"
    and fits: "length m + 4 < unat (w_maxSegmentSize w)" "length m < 2 ^ 32"
  shows "\<exists>w' lo' closed' cur'. appendEntry P data del w = (None, w') \<and>
    wal_store P w' lo' closed' (cur' @ [new_entry (w_lastSequenceNo w + 1) data del]) \<and>
    (\<exists>cl. trimmed (w_lastSnapshot w) lo closed lo' cl \<and>
      (lo' = lo \<and> cl = closed \<and> closed' = closed \<and> cur' = cur \<and> w_flushDone w' = w_flushDone w \<and>
         (\<exists>q. file_data (seg_name (lo + length closed)) (w_disk w') =
            file_data (seg_name (lo + length closed)) (w_disk w) @ q) \<or>
       closed' = cl @ [cur] \<and> cur' = [] \<and> w_flushDone w' = w_flushDone w + 1)) \<and>
    w_lastSequenceNo w' = w_lastSequenceNo w + 1 \<and> w_lastSnapshot w' = w_lastSnapshot w \<and> same_config w w'"
proof -
  let ?e = "new_entry (w_lastSequenceNo w + 1) data del" and ?L = "length (wl.frames P cur)"
  let ?w2 = "w\<lparr>w_lastSequenceNo := w_lastSequenceNo w + 1\<rparr>"
  note wf = new_entry_wf [OF m fits(2)]
  from st have size: "w_curSegmentSize w = word_of_nat ?L" "?L < unat (w_maxSegmentSize w)"
    "unat (w_maxSegmentSize w) \<le> 2 ^ 63" by (auto simp: wal_store_def)
  note chk = size_check [OF size(2) fits(1) size(3)]
  have nofirst: "\<not> w_maxSegmentSize w \<le> w_curSegmentSize w" using wal_store_size [OF st] by simp
  have app: "appendEntry P data del w =
     (let (err, w3) = (if unat (w_maxSegmentSize w) \<le> ?L + (length m + 4) then addNewLogFile P ?w2 else (None, ?w2))
      in case err of Some e \<Rightarrow> (Some e, w3) | None \<Rightarrow> write_entry m w3)"
    using nofirst chk by (simp add: appendEntry_def marshallEntry_def m size(1))
  show ?thesis
  proof (cases "unat (w_maxSegmentSize w) \<le> ?L + (length m + 4)")
    case False
    with write_entry_store [of P ?w2 lo closed cur ?e m] st wf m obtain w' where
      w': "write_entry m ?w2 = (None, w')" "wal_store P w' lo closed (cur @ [?e])"
      "w_lastSequenceNo w' = w_lastSequenceNo w + 1" "w_lastSnapshot w' = w_lastSnapshot w"
      "w_flushDone w' = w_flushDone w" "same_config ?w2 w'"
      "\<exists>q. file_data (seg_name (lo + length closed)) (w_disk w') = file_data (seg_name (lo + length closed)) (w_disk w) @ q"
      by auto
    have "appendEntry P data del w = (None, w')" using app False w'(1) by simp
    with w'(2-) show ?thesis
      by (intro exI [of _ w'] exI [of _ lo] exI [of _ closed] exI [of _ cur]) (auto simp: trimmed_def same_config_def)
  next
    case True
    with fits(1) have "cur \<noteq> []" by auto
    from addNewLogFile_store [OF P _ this room, of ?w2] st snap obtain w3 lo' cl where
      w3: "addNewLogFile P ?w2 = (None, w3)" "wal_store P w3 lo' (cl @ [cur]) []" "trimmed (w_lastSnapshot w) lo closed lo' cl"
      "w_lastSequenceNo w3 = w_lastSequenceNo w + 1" "w_lastSnapshot w3 = w_lastSnapshot w"
      "w_flushDone w3 = w_flushDone w + 1" "same_config w w3" by (auto simp: same_config_def)
    then have "unat (w_maxSegmentSize w3) = unat (w_maxSegmentSize w)" by (simp add: same_config_def)
    with write_entry_store [OF w3(2) wf m] fits(1) obtain w' where
      w': "write_entry m w3 = (None, w')" "wal_store P w' lo' (cl @ [cur]) ([] @ [?e])"
      "w_lastSequenceNo w' = w_lastSequenceNo w3" "w_lastSnapshot w' = w_lastSnapshot w3"
      "w_flushDone w' = w_flushDone w3" "same_config w3 w'" by auto
    have "appendEntry P data del w = (None, w')" using app True w3(1) w'(1) by simp
    with w'(2-) w3(3-) show ?thesis
      by (intro exI [of _ w'] exI [of _ lo'] exI [of _ "cl @ [cur]"] exI [of _ "[]"]) (auto simp: same_config_def)
  qed
qed

lemma wal_store_room:
  "wal_store P w lo closed cur \<Longrightarrow> unat (w_lastSegmentNo w) = lo + length closed"
proof -
  assume "wal_store P w lo closed cur"
  then obtain c b where "log_disk (w_disk w) lo (map (wl.frames P) closed @ [c])"
    and n: "w_lastSegmentNo w = word_of_nat (lo + length closed)" by (auto elim: wal_storeE)
  from log_diskD(4) [OF this(1)] have "lo + length closed < 2 ^ 64" by simp
  then show ?thesis by (simp only: n unat_word_of_nat64)
qed

lemma trimmed_dropped:
  assumes t: "trimmed snap lo closed lo' cl" and n: "numbered n (concat closed @ rest)" and ne: "[] \<notin> set closed"
  shows "\<exists>dropped. concat closed = dropped @ concat cl \<and> (\<forall>x \<in> set dropped. LogSequenceNo x \<le> snap)"
proof (cases "cl = closed")
  case False
  with t obtain es where c: "closed = es # cl" and l: "LogSequenceNo (last es) \<le> snap"
    by (cases closed) (auto simp: trimmed_def)
  have "LogSequenceNo x \<le> snap" if x: "x \<in> set es" for x
  proof -
    from ne c have "es \<noteq> []" by auto
    then have "es = butlast es @ [last es]" by simp
    with x consider "x = last es" | "x \<in> set (butlast es)" by (metis Un_iff empty_iff insert_iff list.set set_append)
    then show ?thesis
    proof cases
      case 2
      from \<open>es = _\<close> n c have "numbered n (butlast es @ ([last es] @ concat cl @ rest))" by (simp only: concat.simps append.assoc) (metis append.assoc)
      from numbered_sorted [OF this 2, of "last es"] l show ?thesis by simp
    qed (use l in simp)
  qed
  with c show ?thesis by auto
qed auto

text \<open>
  What the step to \<open>w'\<close> keeps: durable entries stay durable, and if it has closed \<open>flushDone\<close>
  all entries from before have become so, but for those that the last snapshot covers.
\<close>

definition log_kept where
  "log_kept P w lo closed cur w' lo' closed' cur' \<longleftrightarrow>
     w_flushDone w \<le> w_flushDone w' \<and>
     (\<forall>x. durable P w lo closed cur x \<longrightarrow> durable P w' lo' closed' cur' x \<or> LogSequenceNo x \<le> w_lastSnapshot w) \<and>
     (w_flushDone w < w_flushDone w' \<longrightarrow>
        (\<forall>x \<in> set (concat closed @ cur). durable P w' lo' closed' cur' x \<or> LogSequenceNo x \<le> w_lastSnapshot w))"

lemma durable_log: "durable P w lo closed cur x \<Longrightarrow> x \<in> set (concat closed @ cur)"
  by (auto simp: durable_def)

text \<open>The two ways in which \<open>append_store\<close> adds its entry: to the current segment, or to a new one.\<close>

definition grown :: "WAL \<Rightarrow> nat \<Rightarrow> WAL_Entry list list \<Rightarrow> WAL_Entry list \<Rightarrow> WAL \<Rightarrow> nat \<Rightarrow> WAL_Entry list list \<Rightarrow>
    WAL_Entry list list \<Rightarrow> WAL_Entry list \<Rightarrow> bool" where
  "grown w lo closed cur w' lo' cl closed' cur' \<longleftrightarrow>
     lo' = lo \<and> cl = closed \<and> closed' = closed \<and> cur' = cur \<and> w_flushDone w' = w_flushDone w \<and>
       (\<exists>q. file_data (seg_name (lo + length closed)) (w_disk w') =
          file_data (seg_name (lo + length closed)) (w_disk w) @ q) \<or>
     closed' = cl @ [cur] \<and> cur' = [] \<and> w_flushDone w' = w_flushDone w + 1"

lemma durable_snoc:
  assumes "durable P w lo closed cur x"
    and "file_data (seg_name (lo + length closed)) (w_disk w') = file_data (seg_name (lo + length closed)) (w_disk w) @ q"
  shows "durable P w' lo closed (cur @ [e]) x"
proof (cases "x \<in> set (concat closed)")
  case False
  with assms(1) obtain k k' t where "cur = k @ k'" "x \<in> set k"
    "file_data (seg_name (lo + length closed)) (w_disk w) = wl.frames P k @ t" unfolding durable_def by blast
  with assms(2) have "cur @ [e] = k @ (k' @ [e])" "x \<in> set k"
    "file_data (seg_name (lo + length closed)) (w_disk w') = wl.frames P k @ (t @ q)" by simp_all
  then show ?thesis unfolding durable_def by blast
qed (simp add: durable_def)

text \<open>Closed segments at the front of the log may go without taking the others' durability with them.\<close>

lemma durable_drop:
  assumes "numbered n (concat closed @ cur)" "j \<le> length closed" "durable P w lo closed cur x"
    and "x \<in> set (concat (drop j closed) @ cur)"
    and "file_data (seg_name (lo + length closed)) (w_disk w') = file_data (seg_name (lo + length closed)) (w_disk w)"
  shows "durable P w' (lo + j) (drop j closed) cur x"
proof (cases "x \<in> set (concat (drop j closed))")
  case False
  with assms(4) have "x \<in> set cur" by simp
  with numbered_sorted [OF assms(1), of x x] have "x \<notin> set (concat closed)" by auto
  with assms(2,3,5) show ?thesis by (simp add: durable_def)
qed (simp add: durable_def)

lemma append_kept:
  assumes "grown w lo closed cur w' lo' cl closed' cur'"
    and "concat closed = dropped @ concat cl" "\<forall>x \<in> set dropped. LogSequenceNo x \<le> w_lastSnapshot w"
  shows "log_kept P w lo closed cur w' lo' closed' (cur' @ [e])"
  using assms(1) unfolding grown_def
proof
  assume "lo' = lo \<and> cl = closed \<and> closed' = closed \<and> cur' = cur \<and> w_flushDone w' = w_flushDone w \<and>
         (\<exists>q. file_data (seg_name (lo + length closed)) (w_disk w') =
            file_data (seg_name (lo + length closed)) (w_disk w) @ q)"
  then show ?thesis using durable_snoc by (auto simp: log_kept_def)
next
  assume a: "closed' = cl @ [cur] \<and> cur' = [] \<and> w_flushDone w' = w_flushDone w + 1"
  have "\<forall>x \<in> set (concat closed @ cur). durable P w' lo' closed' (cur' @ [e]) x \<or> LogSequenceNo x \<le> w_lastSnapshot w"
    using a assms(2,3) by (auto simp: durable_def)
  with a show ?thesis using durable_log by (auto simp: log_kept_def)
qed

text \<open>The entries that are still in the log lose no durability, and a rotation makes them all durable.\<close>

definition still_durable where
  "still_durable P w lo closed cur w' lo' closed' cur' e \<longleftrightarrow>
     (\<forall>x \<in> set (concat closed' @ cur'). x = e \<or> x \<in> set (concat closed @ cur) \<and>
        (durable P w lo closed cur x \<or> w_flushDone w < w_flushDone w' \<longrightarrow> durable P w' lo' closed' cur' x))"

lemma append_still_durable:
  assumes "grown w lo closed cur w' lo' cl closed' cur'" "concat closed = dropped @ concat cl"
  shows "still_durable P w lo closed cur w' lo' closed' (cur' @ [e]) e"
  using assms(1) unfolding grown_def
proof
  assume "lo' = lo \<and> cl = closed \<and> closed' = closed \<and> cur' = cur \<and> w_flushDone w' = w_flushDone w \<and>
         (\<exists>q. file_data (seg_name (lo + length closed)) (w_disk w') =
            file_data (seg_name (lo + length closed)) (w_disk w) @ q)"
  then show ?thesis using durable_snoc by (auto simp: still_durable_def)
next
  assume "closed' = cl @ [cur] \<and> cur' = [] \<and> w_flushDone w' = w_flushDone w + 1"
  then show ?thesis using assms(2) by (auto simp: still_durable_def durable_def)
qed

text \<open>
  \<open>snap_point n k\<close>: a snapshot has read the sequence number \<open>n\<close> and the segment number \<open>k\<close>. Segments
  before \<open>k\<close> hold entries up to \<open>n\<close>, those behind \<open>k\<close> later ones, and appends keep it so.
\<close>

definition snap_point :: "u64 \<Rightarrow> nat \<Rightarrow> nat \<Rightarrow> WAL_Entry list list \<Rightarrow> WAL_Entry list \<Rightarrow> bool" where
  "snap_point n k lo closed cur \<longleftrightarrow> k \<le> lo + length closed \<and>
     (\<forall>e \<in> set (concat (take (k - lo) closed)). LogSequenceNo e \<le> n) \<and>
     (\<forall>e \<in> set (concat (drop (Suc k - lo) (closed @ [cur]))). n < LogSequenceNo e)"

lemma snap_point_now: "numbered n (concat closed @ cur) \<Longrightarrow> snap_point n (lo + length closed) lo closed cur"
  using numbered_le [of n "concat closed @ cur"] by (simp add: snap_point_def Suc_diff_le)

lemma snap_point_snoc: "snap_point n k lo closed cur \<Longrightarrow> n < LogSequenceNo e \<Longrightarrow> snap_point n k lo closed (cur @ [e])"
  by (cases "k = lo + length closed") (auto simp: snap_point_def)

lemma snap_point_next: "snap_point n k lo closed cur \<Longrightarrow> n < LogSequenceNo e \<Longrightarrow> snap_point n k lo (closed @ [cur]) [e]"
  by (cases "k = lo + length closed") (auto simp: snap_point_def)

lemma snap_point_trim: "snap_point n k lo (es # closed) cur \<Longrightarrow> snap_point n k (Suc lo) closed cur"
proof (cases "lo < k")
  case True
  then obtain j where "k = Suc (lo + j)" using less_iff_Suc_add by auto
  then show "snap_point n k lo (es # closed) cur \<Longrightarrow> snap_point n k (Suc lo) closed cur" by (simp add: snap_point_def)
next
  case False
  then have "Suc k - lo = 0 \<or> Suc k - lo = 1" by arith
  with False show "snap_point n k lo (es # closed) cur \<Longrightarrow> snap_point n k (Suc lo) closed cur"
    by (auto simp: snap_point_def)
qed

lemma snap_point_tl:
  assumes "snap_point n k lo closed cur" "e \<in> set (concat (tl (drop (k - lo) closed @ [cur])))"
  shows "n < LogSequenceNo e"
proof -
  have "k - lo \<le> length closed" using assms(1) by (auto simp: snap_point_def)
  then have "drop (k - lo) closed @ [cur] = drop (k - lo) (closed @ [cur])" by simp
  then have tl: "tl (drop (k - lo) closed @ [cur]) = drop (Suc (k - lo)) (closed @ [cur])" by (simp only: drop_Suc tl_drop)
  have "Suc k - lo \<le> Suc (k - lo)" by arith
  then have sub: "set (drop (Suc (k - lo)) (closed @ [cur])) \<subseteq> set (drop (Suc k - lo) (closed @ [cur]))"
    by (rule set_drop_subset_set_drop)
  have "e \<in> set (concat (drop (Suc k - lo) (closed @ [cur])))"
    using assms(2) unfolding tl set_concat by (rule subsetD [OF Union_mono [OF image_mono [OF sub]]])
  with assms(1) show ?thesis unfolding snap_point_def by (elim conjE) (rule bspec)
qed

lemma snap_point_append:
  assumes "grown w lo closed cur w' lo' cl closed' cur'" "trimmed snap lo closed lo' cl" "snap_point n k lo closed cur" "n < LogSequenceNo e"
  shows "snap_point n k lo' closed' (cur' @ [e])"
  using assms snap_point_snoc [OF assms(3,4)] snap_point_next [of n k lo' cl cur e] snap_point_trim [of n k lo "hd closed" cl cur]
  by (auto simp: trimmed_def grown_def)

text \<open>
  An append that fits adds its entry at the end of the log with the next sequence number, keeps
  the representation, and loses nothing but entries that the last snapshot covers.
\<close>

lemma append_wal_rep:
  assumes P: "proto_ok P" and rep: "wal_rep P w lo closed cur" and ok: "can_append P data del w"
  shows "\<exists>w' lo' closed' cur'. appendEntry P data del w = (None, w') \<and> wal_rep P w' lo' closed' cur' \<and>
    (\<exists>dropped. (concat closed @ cur) @ [new_entry (w_lastSequenceNo w + 1) data del] =
        dropped @ (concat closed' @ cur') \<and> (\<forall>x \<in> set dropped. LogSequenceNo x \<le> w_lastSnapshot w)) \<and>
    w_lastSequenceNo w' = w_lastSequenceNo w + 1 \<and> w_lastSnapshot w' = w_lastSnapshot w \<and> same_config w w' \<and>
    unat (w_lastSegmentNo w') \<le> unat (w_lastSegmentNo w) + 1 \<and>
    new_entry (w_lastSequenceNo w + 1) data del \<in> set cur' \<and> log_kept P w lo closed cur w' lo' closed' cur' \<and>
    (\<forall>n k. n \<le> w_lastSequenceNo w \<longrightarrow> snap_point n k lo closed cur \<longrightarrow> snap_point n k lo' closed' cur') \<and>
    still_durable P w lo closed cur w' lo' closed' cur' (new_entry (w_lastSequenceNo w + 1) data del)"
proof -
  let ?e = "new_entry (w_lastSequenceNo w + 1) data del"
  from rep have st: "wal_store P w lo closed cur" and n: "numbered (w_lastSequenceNo w) (concat closed @ cur)"
    and snap: "\<forall>e \<in> set (concat (tl (closed @ [cur]))). w_lastSnapshot w < LogSequenceNo e"
    and le: "w_lastSnapshot w \<le> w_lastSequenceNo w" by (auto simp: wal_rep_def)
  from ok obtain m where m: "Marshal P ?e = Inr m" "length m + 4 < unat (w_maxSegmentSize w)" "length m < 2 ^ 32"
    and u: "unat (w_lastSequenceNo w) + 1 < 2 ^ 64" and room: "lo + length closed + 1 < 2 ^ 63"
    using wal_store_room [OF st] by (auto simp: can_append_def split: sum.splits)
  from append_store [OF P st room snap m] obtain w' lo' closed' cur' cl where
    w': "appendEntry P data del w = (None, w')" "wal_store P w' lo' closed' (cur' @ [?e])"
    "trimmed (w_lastSnapshot w) lo closed lo' cl" "grown w lo closed cur w' lo' cl closed' cur'"
    "w_lastSequenceNo w' = w_lastSequenceNo w + 1" "w_lastSnapshot w' = w_lastSnapshot w"
    "same_config w w'" unfolding grown_def by blast
  have ne: "[] \<notin> set closed" using st by (simp add: wal_store_def)
  from trimmed_dropped [OF w'(3) n ne] obtain dropped where
    d: "concat closed = dropped @ concat cl" "\<forall>x \<in> set dropped. LogSequenceNo x \<le> w_lastSnapshot w" by blast
  have log: "(concat closed @ cur) @ [?e] = dropped @ (concat closed' @ (cur' @ [?e]))" using w'(4) d(1) by (auto simp: grown_def)
  have "numbered (w_lastSequenceNo w + 1) ((concat closed @ cur) @ [?e])"
    by (rule numbered_snoc [OF n u]) (simp add: new_entry_def)
  then have n': "numbered (w_lastSequenceNo w') (concat closed' @ (cur' @ [?e]))"
    unfolding log w'(5) by (rule numbered_suffix)
  have lt: "w_lastSnapshot w < w_lastSequenceNo w + 1"
    using le u by (simp add: word_less_nat_alt word_le_nat_alt unat_word_ariths)
  have "set (concat (tl (closed' @ [cur' @ [?e]]))) \<subseteq> insert ?e (set (concat (tl (closed @ [cur]))))"
    using w'(3,4) by (cases cl) (auto simp: grown_def trimmed_def tl_append neq_Nil_conv split: list.splits)
  moreover have "LogSequenceNo ?e = w_lastSequenceNo w + 1" by (simp add: new_entry_def)
  ultimately have snap': "\<forall>e \<in> set (concat (tl (closed' @ [cur' @ [?e]]))). w_lastSnapshot w' < LogSequenceNo e"
    using snap lt w'(6) by auto
  have "wal_rep P w' lo' closed' (cur' @ [?e])"
    using w'(2) n' snap' lt w'(5,6) by (simp add: wal_rep_def order_less_imp_le)
  moreover have "log_kept P w lo closed cur w' lo' closed' (cur' @ [?e])"
    by (rule append_kept [OF w'(4) d])
  moreover have "snap_point n k lo' closed' (cur' @ [?e])" if "n \<le> w_lastSequenceNo w" "snap_point n k lo closed cur" for n k
  proof -
    have "n < LogSequenceNo ?e" using that(1) u by (simp add: new_entry_def word_less_nat_alt word_le_nat_alt unat_word_ariths)
    with snap_point_append [OF w'(4,3) that(2)] show ?thesis by blast
  qed
  moreover have "unat (w_lastSegmentNo w') \<le> unat (w_lastSegmentNo w) + 1"
    using wal_store_room [OF st] wal_store_room [OF w'(2)] w'(3,4) by (auto simp: grown_def trimmed_def neq_Nil_conv)
  ultimately show ?thesis using w'(1,5,6,7) log d(2) append_still_durable [OF w'(4) d(1), of P ?e]
    by (intro exI [of _ w'] exI [of _ lo'] exI [of _ closed'] exI [of _ "cur' @ [?e]"]) auto
qed

text \<open>A whole call of \<open>AppendEntry\<close> returns nil, and its entry is on the disk when it does.\<close>

lemma AppendEntry_wait_rep:
  assumes P: "proto_ok P" and rep: "wal_rep P w lo closed cur" and ok: "can_append P data del w"
    and run: "\<not> w_cancelled w"
  shows "\<exists>w' lo' closed' cur'. AppendEntry_wait P data del w = (Return None, w') \<and> wal_rep P w' lo' closed' cur' \<and>
    flushed w' \<and> (\<exists>dropped. (concat closed @ cur) @ [new_entry (w_lastSequenceNo w + 1) data del] =
        dropped @ (concat closed' @ cur') \<and> (\<forall>x \<in> set dropped. LogSequenceNo x \<le> w_lastSnapshot w)) \<and>
    w_lastSequenceNo w' = w_lastSequenceNo w + 1 \<and> w_lastSnapshot w' = w_lastSnapshot w \<and> same_config w w' \<and>
    unat (w_lastSegmentNo w') \<le> unat (w_lastSegmentNo w) + 1 \<and>
    durable P w' lo' closed' cur' (new_entry (w_lastSequenceNo w + 1) data del)"
proof -
  let ?e = "new_entry (w_lastSequenceNo w + 1) data del"
  from append_wal_rep [OF P rep ok] obtain w1 lo' closed' cur' where
    a: "appendEntry P data del w = (None, w1)" "wal_rep P w1 lo' closed' cur'"
    "\<exists>dropped. (concat closed @ cur) @ [?e] = dropped @ (concat closed' @ cur') \<and>
       (\<forall>x \<in> set dropped. LogSequenceNo x \<le> w_lastSnapshot w)"
    "w_lastSequenceNo w1 = w_lastSequenceNo w + 1" "w_lastSnapshot w1 = w_lastSnapshot w" "same_config w w1"
    "unat (w_lastSegmentNo w1) \<le> unat (w_lastSegmentNo w) + 1" "?e \<in> set cur'" by blast
  from flush_wal_rep [OF a(2)] obtain w2 where
    f: "flush w1 = (None, w2)" "wal_rep P w2 lo' closed' cur'" "flushed w2" "w_flushDone w2 = w_flushDone w1 + 1"
    "w_lastSequenceNo w2 = w_lastSequenceNo w1" "w_lastSegmentNo w2 = w_lastSegmentNo w1"
    "w_lastSnapshot w2 = w_lastSnapshot w1" "same_config w1 w2"
    "\<forall>x \<in> set (concat closed' @ cur'). durable P w2 lo' closed' cur' x" by blast
  have "\<not> w_cancelled w1" using run a(6) by (simp add: same_config_def)
  then have "AppendEntry_wait P data del w = (Return None, w2)"
    using a(1) f(1,4) by (simp add: AppendEntry_wait_def AppendEntry_def flushBuffer_def AppendEntry_returns_def)
  with f a(3-) same_config_trans [OF a(6) f(8)] show ?thesis
    by (intro exI [of _ w2] exI [of _ lo'] exI [of _ closed'] exI [of _ cur']) simp
qed

end
