(* ===== verification/Wal_Recovery.thy ===== *)
theory Wal_Recovery
  imports Wal_Log
begin

text \<open>
  Reading the log back and start-up: \<open>ReadAllEntries\<close> returns the represented log, the options
  of \<open>WALConfig\<close> set exactly the fields that are not zero, and \<open>InitWAL\<close> on the files of an
  earlier run represents the same log with the same last sequence number.
\<close>

section \<open>Reading back\<close>

lemma upto_seq_numbered: "numbered n (xs @ es @ ys) \<Longrightarrow> upto_seq n es = es"
proof (cases "es = []")
  case False
  assume n: "numbered n (xs @ es @ ys)"
  have es: "butlast es @ [last es] = es" using False by simp
  have "n \<notin> LogSequenceNo ` set (butlast es)"
  proof
    assume "n \<in> LogSequenceNo ` set (butlast es)"
    then obtain x where x: "x \<in> set (butlast es)" "LogSequenceNo x = n" by auto
    have "numbered n ((xs @ butlast es) @ ([last es] @ ys))" using n es by (metis append.assoc)
    from numbered_sorted [OF this, of x "last es"] x have "n < LogSequenceNo (last es)" by simp
    moreover have "LogSequenceNo (last es) \<le> n" using numbered_le [OF n] False by simp
    ultimately show False by simp
  qed
  then have "upto_seq n (butlast es @ [last es]) = butlast es @ [last es]"
    by (cases "LogSequenceNo (last es) = n") (auto simp: upto_seq_snoc intro!: upto_seq_absent)
  with es show ?thesis by simp
qed simp

text \<open>
  A log on the disk: the closed segments, and \<open>c\<close>, what has been written of the last one. All
  of the former are read; the outcome depends on the last.
\<close>

lemma readAllEntriesFromFile_frames:
  assumes "proto_ok P" "fs_Open nm d = Inr (wl.frames P es)" "list_all (entry_wf P) es" "numbered n (xs @ es @ ys)"
  shows "readAllEntriesFromFile P nm n d = Inr es"
  using assms(2,3) upto_seq_numbered [OF assms(4)]
  by (simp add: readAllEntriesFromFile_def read_entries_frames [OF assms(1)])

lemma readAllEntriesFromFile_closed:
  assumes P: "proto_ok P" and d: "log_disk d lo (map (wl.frames P) closed @ [c])" and i: "i < length closed"
    and wf: "list_all (entry_wf P) (concat closed @ cur)" and n: "numbered n (concat closed @ cur)"
  shows "readAllEntriesFromFile P (seg_name (lo + i)) n d = Inr (closed ! i)"
proof (rule readAllEntriesFromFile_frames [OF P])
  have split: "concat closed = concat (take i closed) @ closed ! i @ concat (drop (Suc i) closed)"
    using i by (subst id_take_nth_drop [of i closed]) auto
  show "fs_Open (seg_name (lo + i)) d = Inr (wl.frames P (closed ! i))"
    using fs_Open_log_disk [OF d, of i] i by (simp add: nth_append)
  show "list_all (entry_wf P) (closed ! i)" using wf by (subst (asm) split) simp
  show "numbered n (concat (take i closed) @ closed ! i @ concat (drop (Suc i) closed) @ cur)"
    using n by (subst (asm) split) simp
qed

lemma read_segments_disk:
  assumes "proto_ok P" "log_disk d lo (map (wl.frames P) closed @ [c])"
    "list_all (entry_wf P) (concat closed @ cur)" "numbered n (concat closed @ cur)"
  shows "i + k = length closed \<Longrightarrow> read_segments P (Suc k) (word_of_nat (lo + i)) n d acc =
    (case readAllEntriesFromFile P (seg_name (lo + length closed)) n d of
       Inl e \<Rightarrow> Inl (wrap ''failed to read enteries from wal log file'' e)
     | Inr es \<Rightarrow> Inr (acc @ concat (drop i closed) @ es))"
proof (induction k arbitrary: i acc)
  case 0
  then have "i = length closed" by simp
  then show ?case by (simp add: seg_name_def split: sum.splits)
next
  case (Suc k)
  then have i: "i < length closed" by simp
  have e: "word_of_nat (lo + i) + 1 = (word_of_nat (lo + Suc i) :: u64)" by simp
  have "read_segments P (Suc (Suc k)) (word_of_nat (lo + i)) n d acc =
      read_segments P (Suc k) (word_of_nat (lo + Suc i)) n d (acc @ closed ! i)"
    using readAllEntriesFromFile_closed [OF assms(1,2) i assms(3,4)]
    by (simp only: read_segments.simps(2) [of P "Suc k"] seg_name_def e) simp
  also have "\<dots> = (case readAllEntriesFromFile P (seg_name (lo + length closed)) n d of
       Inl e \<Rightarrow> Inl (wrap ''failed to read enteries from wal log file'' e)
     | Inr es \<Rightarrow> Inr ((acc @ closed ! i) @ concat (drop (Suc i) closed) @ es))"
    by (rule Suc.IH) (use Suc.prems in simp)
  finally show ?case by (simp add: Cons_nth_drop_Suc [OF i, symmetric] del: read_segments.simps split: sum.split)
qed

lemma wal_rep_flushed_disk:
  assumes "wal_rep P w lo closed cur" "flushed w"
  shows "log_disk (w_disk w) lo (map (wl.frames P) (closed @ [cur]))"
  using assms by (auto simp: wal_rep_def wal_store_def flushed_def)

lemma ReadAllEntries_parts:
  assumes P: "proto_ok P" and d: "log_disk (w_disk w) lo (map (wl.frames P) closed @ [c])"
    and wf: "list_all (entry_wf P) (concat closed @ cur)" and n: "numbered (w_lastSequenceNo w) (concat closed @ cur)"
    and last: "w_lastSegmentNo w = word_of_nat (lo + length closed)"
  shows "ReadAllEntries P w =
    (case readAllEntriesFromFile P (seg_name (lo + length closed)) (w_lastSequenceNo w) (w_disk w) of
       Inl e \<Rightarrow> Inl (wrap ''failed to read enteries from wal log file'' e)
     | Inr es \<Rightarrow> Inr (concat closed @ es))"
proof -
  let ?k = "Suc (length closed)"
  from log_diskD(4) [OF d] have "?k < 2 ^ 64" by simp
  then have u: "unat (word_of_nat ?k :: u64) = ?k" by (rule unat_word_of_nat64)
  have c: "countLogFiles w = word_of_nat ?k" using countLogFiles_disk [OF d] by simp
  then have "countLogFiles w \<noteq> 0" using u by (metis nat.distinct(2) unat_0)
  moreover have "w_lastSegmentNo w - countLogFiles w + 1 = word_of_nat lo" by (simp add: last c algebra_simps)
  ultimately show ?thesis using read_segments_disk [OF P d wf n, of 0 "length closed" "[]"] c u
    by (simp add: ReadAllEntries_def del: read_segments.simps cong: sum.case_cong)
qed

text \<open>
  If it succeeds, the last file does not end inside an entry: it has a part of the entries of the
  current segment, and these are the ones read.
\<close>

lemma ReadAllEntries_written:
  assumes P: "proto_ok P" and rep: "wal_rep P w lo closed cur" and r: "ReadAllEntries P w = Inr es"
  shows "\<exists>k k'. cur = k @ k' \<and> es = concat closed @ k \<and> log_disk (w_disk w) lo (map (wl.frames P) (closed @ [k]))"
proof -
  from rep have st: "wal_store P w lo closed cur" and n: "numbered (w_lastSequenceNo w) (concat closed @ cur)"
    by (simp_all add: wal_rep_def)
  from st obtain bf c where b: "log_disk (w_disk w) lo (map (wl.frames P) closed @ [c])" "c @ bbuf bf = wl.frames P cur"
    "w_lastSegmentNo w = word_of_nat (lo + length closed)" "w_writer w = Some (seg_name (lo + length closed), bf)"
    by (rule wal_storeE) blast
  from st have wf: "list_all (entry_wf P) (concat closed @ cur)" by (simp add: wal_store_def)
  let ?nm = "seg_name (lo + length closed)" and ?n = "w_lastSequenceNo w"
  have op: "fs_Open ?nm (w_disk w) = Inr c"
    using fs_Open_log_disk [OF b(1), of "length closed"] by (simp add: nth_append)
  from ReadAllEntries_parts [OF P b(1) wf n b(3)] r obtain ks where
    ks: "readAllEntriesFromFile P ?nm ?n (w_disk w) = Inr ks" "es = concat closed @ ks" by (auto split: sum.splits)
  from wl.frames_cut [OF b(2)] obtain k k' t where k: "cur = k @ k'" "c = wl.frames P k @ t"
    "t = [] \<or> (\<exists>x k'' u. k' = x # k'' \<and> entry_bytes P x = t @ u \<and> u \<noteq> [])" by blast
  have wfk: "list_all (entry_wf P) k" using wf k(1) by simp
  have "t = []"
  proof (rule ccontr)
    assume t: "t \<noteq> []"
    with k(3) obtain x k'' u where x: "k' = x # k''" "entry_bytes P x = t @ u" "u \<noteq> []" by blast
    have "entry_wf P x" using wf k(1) x(1) by simp
    from wl.get_torn [OF P this x(2) t x(3)] have torn: "\<exists>e. readEntry P t = Inl e \<and> \<not> errors_Is e EOF" .
    have nk: "numbered ?n ((concat closed @ k) @ x # k'')" using n by (simp add: k(1) x(1))
    have "LogSequenceNo y < ?n" if "y \<in> set k" for y
      using numbered_sorted [OF nk, of y x] numbered_le [OF nk, of x] that by (auto intro: order_less_le_trans)
    then have "?n \<notin> LogSequenceNo ` set k" by (metis imageE order_less_irrefl)
    from read_entries_torn [OF P torn wfk this, of "[]"] ks(1) op show False
      by (auto simp: readAllEntriesFromFile_def k(2))
  qed
  moreover have "numbered ?n (concat closed @ k @ k')" using n k(1) by simp
  from readAllEntriesFromFile_frames [OF P _ wfk this] op ks(1) k(2) \<open>t = []\<close> have "ks = k" by simp
  ultimately show ?thesis using k(1,2) ks(2) b(1) by auto
qed

lemma ReadAllEntries_disk:
  assumes P: "proto_ok P" and d: "log_disk (w_disk w) lo (map (wl.frames P) (closed @ [cur]))"
    and wf: "list_all (entry_wf P) (concat closed @ cur)" and n: "numbered (w_lastSequenceNo w) (concat closed @ cur)"
    and last: "w_lastSegmentNo w = word_of_nat (lo + length closed)"
  shows "ReadAllEntries P w = Inr (concat closed @ cur)"
proof -
  have "fs_Open (seg_name (lo + length closed)) (w_disk w) = Inr (wl.frames P cur)"
    using fs_Open_log_disk [OF d, of "length closed"] by (simp add: nth_append)
  then have "readAllEntriesFromFile P (seg_name (lo + length closed)) (w_lastSequenceNo w) (w_disk w) = Inr cur"
    using wf n by (intro readAllEntriesFromFile_frames [OF P, where xs = "concat closed" and ys = "[]"]) simp_all
  with ReadAllEntries_parts [OF P _ wf n last] d show ?thesis by simp
qed

section \<open>The last sequence number on restart\<close>

lemma getPreviousSegmentNo_seg_name:
  "0 < k \<Longrightarrow> k < 2 ^ 63 \<Longrightarrow> getPreviousSegmentNo (seg_name k) = Inr (word_of_nat (k - 1))"
  by (simp add: getPreviousSegmentNo_def segno_of_seg_name of_nat_diff)

lemma findLastSequenceNumber_log:
  assumes P: "proto_ok P" and d: "log_disk d lo (map (wl.frames P) (closed @ [cur]))" and ne: "[] \<notin> set closed"
    and wf: "list_all (entry_wf P) (concat closed @ cur)" and some: "closed \<noteq> [] \<or> cur \<noteq> []"
  shows "findLastSequenceNumberInLogFile P (seg_name (lo + length closed)) (wl.frames P cur) d
    = Inr (LogSequenceNo (last (concat closed @ cur)))"
proof (cases "cur = []")
  case False
  with findLastSequenceNumber_nonempty [OF P _ False] wf show ?thesis by simp
next
  case True
  with some have c: "closed \<noteq> []" by simp
  then obtain cl es where cl: "closed = cl @ [es]" by (metis append_butlast_last_id)
  with ne have es: "es \<noteq> []" by auto
  have lo: "0 < lo" "lo + length closed < 2 ^ 63" using log_diskD(3,4) [OF d] by simp_all
  let ?k = "lo + length closed - 1"
  have k: "lo + length cl = ?k" "0 < ?k" "?k < 2 ^ 64" using lo cl by simp_all
  then have nz: "(word_of_nat ?k :: u64) \<noteq> 0" using unat_word_of_nat64 [of ?k] by (metis less_irrefl unat_0)
  have "fs_Open (seg_name (lo + length cl)) d = Inr (wl.frames P es)"
    using fs_Open_log_disk [OF d, of "length cl"] cl by (simp add: nth_append del: wl.frames_simps)
  then have op: "fs_Open (seg_name ?k) d = Inr (wl.frames P es)" by (simp only: k(1))
  have r: "findLastRecord P (wl.frames P cur) = Inl ErrReadEmptyLogFile"
    using findLastRecord_frames [OF P, of cur] True by simp
  have prev: "getPreviousSegmentNo (seg_name (lo + length closed)) = Inr (word_of_nat ?k)"
    using lo by (intro getPreviousSegmentNo_seg_name) simp_all
  have "findLastSequenceNumberInLogFile P (seg_name (lo + length closed)) (wl.frames P cur) d
      = findLastSequenceNumberInLogFile P (seg_name ?k) (wl.frames P es) d"
    unfolding findLastSequenceNumberInLogFile.simps [of P "seg_name (lo + length closed)"] r prev
    using nz op by (simp only: sum.case errors_Is.simps simp_thms if_True if_False seg_name_def [of ?k])
  with findLastSequenceNumber_nonempty [OF P _ es] wf cl True es show ?thesis by simp
qed

section \<open>Configuration\<close>

text \<open>What a configuration means: a zero field keeps the default.\<close>

definition configured :: "go_error + string \<Rightarrow> WALConfig \<Rightarrow> WAL" where
  "configured getwd wc =
     (let w = defaultWALConfig getwd in
      w\<lparr>w_dir := (if wc_dir wc = [] then w_dir w else wc_dir wc),
        w_enableFsSync := wc_enableFsSync wc,
        w_maxSegmentSize := (if wc_maxSegmentSize wc = 0 then 400 else wc_maxSegmentSize wc),
        w_maxSegements := (if wc_maxSegements wc = 0 then 3 else wc_maxSegements wc),
        w_snapshotTimer := (if wc_snapshotInterval wc = 0 then 20000000000 else wc_snapshotInterval wc),
        w_flushTimer := (if wc_flushInterval wc = 0 then 5000000 else wc_flushInterval wc)\<rparr>)"

lemma apply_options_append:
  "apply_options (xs @ ys) w = (case apply_options xs w of Inl e \<Rightarrow> Inl e | Inr w' \<Rightarrow> apply_options ys w')"
  by (induction xs arbitrary: w) (auto split: sum.splits)

lemma apply_options_if: "apply_options (if c then [f] else []) w = (if c then f w else Inr w)"
  by (simp split: sum.splits)

lemmas option_defs = EnableFsSync_def WithMaxSegementSize_def WithMaxSegements_def WithFlushInterval_def
  WithSnapshotInterval_def WithWALDir_def NewTicker_def

lemma one_le_iff: "1 \<le> v \<longleftrightarrow> v \<noteq> 0" for v :: u64
  by (simp add: word_le_nat_alt unat_gt_0 Suc_le_eq)

lemma apply_config:
  "apply_options (WALConfig_options wc) (defaultWALConfig getwd) =
     (if wc_snapshotInterval wc < 0 \<or> wc_flushInterval wc < 0 then Inl Panic else Inr (configured getwd wc))"
  unfolding WALConfig_options_def apply_options_append apply_options_if
  by (simp add: option_defs one_le_iff configured_def defaultWALConfig_def Let_def)

section \<open>Start-up\<close>

definition config_ok :: "WALConfig \<Rightarrow> bool" where
  "config_ok wc \<longleftrightarrow> 0 \<le> wc_snapshotInterval wc \<and> 0 \<le> wc_flushInterval wc \<and>
     unat (wc_maxSegmentSize wc) \<le> 2 ^ 63 \<and> wc_maxSegements wc \<noteq> 1"

lemma configured_fields:
  "w_lastSnapshot (configured getwd wc) = 0" "w_lastSequenceNo (configured getwd wc) = 0"
  "w_lastSegmentNo (configured getwd wc) = 0" "w_writer (configured getwd wc) = None"
  "w_flushDone (configured getwd wc) = 0" "w_cancelled (configured getwd wc) = False"
  by (simp_all add: configured_def defaultWALConfig_def Let_def)

lemma configured_limits:
  assumes "config_ok wc"
  shows "unat (w_maxSegmentSize (configured getwd wc)) \<le> 2 ^ 63" "0 < unat (w_maxSegmentSize (configured getwd wc))"
    "2 \<le> unat (w_maxSegements (configured getwd wc))"
proof -
  have "2 \<le> unat v" if "v \<noteq> 0" "v \<noteq> 1" for v :: u64
  proof -
    from that have "unat v \<noteq> unat (0 :: u64)" "unat v \<noteq> unat (1 :: u64)" using word_unat_eq_iff [of v 0] word_unat_eq_iff [of v 1] by blast+
    then show ?thesis by simp
  qed
  then show "2 \<le> unat (w_maxSegements (configured getwd wc))"
    using assms by (simp add: configured_def config_ok_def Let_def)
qed (use assms in \<open>auto simp: configured_def config_ok_def Let_def unat_gt_0\<close>)

lemma InitWALwithConfig_eq:
  "config_ok wc \<Longrightarrow> InitWALwithConfig P getwd disks wc =
     (let w = (configured getwd wc)\<lparr>w_disk := disks (w_dir (configured getwd wc))\<rparr> in
      if \<not> checkPreExistingWALFiles w then
        (if faults (w_disk w) OpMkdirAll (w_dir w) then (Some (wrap ''failed to create WAL dir'' ErrIO), w)
         else case addNewLogFile P w of
                (Some e, w') \<Rightarrow> (Some (wrap ''failed to add new log file'' e), w')
              | (None, w') \<Rightarrow> (None, w'))
      else reopen_last_segment P w)"
  by (simp add: InitWALwithConfig_def InitWAL_def apply_config config_ok_def Let_def)

lemma checkPreExisting_disk:
  "log_disk (w_disk w) lo cs \<Longrightarrow> checkPreExistingWALFiles w \<longleftrightarrow> cs \<noteq> []"
proof -
  assume d: "log_disk (w_disk w) lo cs"
  then have "length cs < 2 ^ 64" using log_diskD(4) [OF d] by simp
  then have "unat (countLogFiles w) = length cs" using countLogFiles_disk [OF d] by (simp add: unat_word_of_nat64)
  then show ?thesis by (simp add: checkPreExistingWALFiles_def word_less_nat_alt)
qed

text \<open>In a directory without segments the log starts empty, with segment 1.\<close>

lemma InitWAL_fresh:
  assumes ok: "config_ok wc" and d: "log_disk (disks (w_dir (configured getwd wc))) 1 []"
  shows "\<exists>w. InitWALwithConfig P getwd disks wc = (None, w) \<and> wal_rep P w 1 [] [] \<and> flushed w \<and>
    w_lastSequenceNo w = 0 \<and> w_lastSnapshot w = 0 \<and> \<not> w_cancelled w \<and>
    w_maxSegmentSize w = w_maxSegmentSize (configured getwd wc) \<and>
    (\<forall>x. x \<noteq> seg_name 1 \<longrightarrow> fs_node (w_disk w) x = fs_node (disks (w_dir (configured getwd wc))) x)"
proof -
  let ?w = "(configured getwd wc)\<lparr>w_disk := disks (w_dir (configured getwd wc))\<rparr>"
  have d': "log_disk (w_disk ?w) 1 []" using d by simp
  have pre: "\<not> checkPreExistingWALFiles ?w" using checkPreExisting_disk [OF d'] by simp
  have "countLogFiles ?w = 0" using countLogFiles_disk [OF d'] by simp
  then have full: "\<not> w_maxSegements ?w \<le> countLogFiles ?w"
    using configured_limits(3) [OF ok, of getwd] by (auto simp: word_le_nat_alt)
  from fs_Create_log_disk [OF d] obtain d1 where
    c: "fs_Create (generateLogFilePath 1) (w_disk ?w) = (None, d1)" "log_disk d1 1 [[]]" by (auto simp: seg_name_def)
  let ?w' = "?w\<lparr>w_lastSegmentNo := 1, w_disk := d1, w_segment := Some (generateLogFilePath 1),
    w_curSegmentSize := 0, w_writer := Some (generateLogFilePath 1, NewWriter)\<rparr>"
  have "addNewLogFile P ?w = (None, ?w')"
    using full c(1) by (simp add: addNewLogFile_def open_next_segment_def Let_def configured_fields)
  moreover have "\<not> faults (w_disk ?w) OpMkdirAll (w_dir ?w)" using log_diskD(2) [OF d'] by (rule no_faultsD)
  ultimately have "InitWALwithConfig P getwd disks wc = (None, ?w')"
    unfolding InitWALwithConfig_eq [OF ok] Let_def using pre by simp
  moreover have "wal_rep P ?w' 1 [] []"
    using c(2) configured_limits [OF ok, of getwd]
    by (simp add: wal_rep_def wal_store_def configured_fields numbered_def seg_name_def NewWriter_def)
  moreover have "\<forall>x. x \<noteq> seg_name 1 \<longrightarrow> fs_node d1 x = fs_node (disks (w_dir (configured getwd wc))) x"
    using c(1) by (auto simp: fs_Create_def seg_name_def split: if_splits)
  ultimately show ?thesis by (intro exI [of _ ?w']) (simp add: flushed_def NewWriter_def configured_fields)
qed

text \<open>
  On the files of an earlier run the log starts where that run had stopped.
\<close>

lemma InitWAL_restart:
  assumes P: "proto_ok P" and ok: "config_ok wc"
    and d: "log_disk (disks (w_dir (configured getwd wc))) lo (map (wl.frames P) (closed @ [cur]))"
    and ne: "[] \<notin> set closed" "concat closed @ cur \<noteq> []"
    and wf: "list_all (entry_wf P) (concat closed @ cur)" and n: "numbered n (concat closed @ cur)"
    and size: "length (wl.frames P cur) < unat (w_maxSegmentSize (configured getwd wc))"
  shows "\<exists>w. InitWALwithConfig P getwd disks wc = (None, w) \<and> wal_rep P w lo closed cur \<and> flushed w \<and>
    w_lastSequenceNo w = n \<and> w_lastSnapshot w = 0 \<and> ReadAllEntries P w = Inr (concat closed @ cur) \<and>
    \<not> w_cancelled w \<and> w_disk w = disks (w_dir (configured getwd wc)) \<and>
    w_maxSegmentSize w = w_maxSegmentSize (configured getwd wc)"
proof -
  let ?w = "(configured getwd wc)\<lparr>w_disk := disks (w_dir (configured getwd wc))\<rparr>" and ?k = "lo + length closed"
  let ?f = "generateLogFilePath (word_of_nat ?k)"
  have d': "log_disk (w_disk ?w) lo (map (wl.frames P) (closed @ [cur]))" using d by simp
  have pre: "checkPreExistingWALFiles ?w" using checkPreExisting_disk [OF d'] by simp
  have seg: "findLastSegmentNumber ?w = Inr (word_of_nat ?k)" using findLastSegmentNumber_disk [OF d'] by simp
  have op: "fs_Open ?f (w_disk ?w) = Inr (wl.frames P cur)"
    using fs_Open_log_disk [OF d', of "length closed"] by (simp add: seg_name_def nth_append)
  have stat: "\<not> faults (w_disk ?w) OpStat ?f" using log_diskD(2) [OF d'] by (rule no_faultsD)
  have "closed \<noteq> [] \<or> cur \<noteq> []" using ne(2) by auto
  from findLastSequenceNumber_log [OF P d ne(1) wf this] numbered_last [OF n ne(2)]
  have last: "findLastSequenceNumberInLogFile P ?f (wl.frames P cur) (w_disk ?w) = Inr n" by (simp add: seg_name_def)
  let ?w' = "?w\<lparr>w_lastSegmentNo := word_of_nat ?k, w_curSegmentSize := word_of_nat (length (wl.frames P cur)),
    w_segment := Some ?f, w_writer := Some (?f, NewWriter), w_lastSequenceNo := n\<rparr>"
  have "reopen_last_segment P ?w = (None, ?w')"
    using op stat last by (simp add: reopen_last_segment_def seg Let_def)
  then have i: "InitWALwithConfig P getwd disks wc = (None, ?w')"
    unfolding InitWALwithConfig_eq [OF ok] Let_def using pre by simp
  have pos: "0 < LogSequenceNo e" if "e \<in> set (concat closed @ cur)" for e
    using numbered_pos [OF n that] .
  have "set (concat (tl (closed @ [cur]))) \<subseteq> set (concat closed @ cur)" by (cases closed) auto
  then have "wal_rep P ?w' lo closed cur"
    using d' configured_limits [OF ok, of getwd] size ne(1) wf n pos
    by (auto simp: wal_rep_def wal_store_def configured_fields seg_name_def NewWriter_def)
  moreover have "ReadAllEntries P ?w' = Inr (concat closed @ cur)"
    using ReadAllEntries_disk [OF P, of ?w' lo closed cur] d' wf n by simp
  ultimately show ?thesis using i by (intro exI [of _ ?w']) (simp add: flushed_def NewWriter_def configured_fields)
qed

text \<open>A flushed log reads back as it is represented.\<close>

lemma ReadAllEntries_rep:
  assumes "proto_ok P" "wal_rep P w lo closed cur" "flushed w"
  shows "ReadAllEntries P w = Inr (concat closed @ cur)"
  using ReadAllEntries_disk [OF assms(1) wal_rep_flushed_disk [OF assms(2,3)]] assms(2)
  by (simp add: wal_rep_def wal_store_def)

lemma ReadAllEntries_snapshot [simp]: "ReadAllEntries P (w\<lparr>w_lastSnapshot := n\<rparr>) = ReadAllEntries P w"
  by (simp add: ReadAllEntries_def countLogFiles_def Let_def)

end
