(* ===== verification/Wal_Snapshot.thy ===== *)
theory Wal_Snapshot
  imports Wal_Recovery
begin

text \<open>
  Snapshots, \<open>internal/wal/snapshot.go\<close>, and \<open>EnableSnapshots\<close> of \<open>manager.go\<close>. The interface
  \<open>Snapshotable\<close> is a record of its three methods over a state \<^typ>\<open>'f\<close>; \<open>Restore\<close> and \<open>Apply\<close> also
  get the log, which the implementation may append to. The contract that the recovery proof needs of an
  implementation is the locale \<open>snapshotable\<close>; the file store provides it.
\<close>

section \<open>Operations\<close>

record 'f Snapshotable =
  sn_Snapshot :: "(nat \<times> fs) write_fn \<Rightarrow> 'f \<Rightarrow> nat \<times> fs \<Rightarrow> go_error option \<times> (nat \<times> fs)"
  sn_Restore :: "bytes \<Rightarrow> 'f \<times> WAL \<Rightarrow> ret \<times> ('f \<times> WAL)"
  sn_Apply :: "WAL_Entry \<Rightarrow> 'f \<times> WAL \<Rightarrow> ret \<times> ('f \<times> WAL)"

definition generateSnapshotFileName :: string where
  "generateSnapshotFileName = SnapshotFile"

definition snapshotTmp :: string where
  "snapshotTmp = generateSnapshotFileName @ ''.tmp''"

text \<open>\<open>performCleanup\<close> goes through the segments in the order of \<open>os.ReadDir\<close>, by name.\<close>

fun cleanup_files :: "WAL_Entry proto \<Rightarrow> u64 \<Rightarrow> string list \<Rightarrow> WAL \<Rightarrow> go_error option \<times> WAL" where
  "cleanup_files P segNo [] w = (None, w)"
| "cleanup_files P segNo (f # fs) w =
     (case Atoi (last (split_on CHR ''-'' f)) of
        Inl e \<Rightarrow> (Some (wrap ''failed to convert segment number to int'' e), w)
      | Inr fSegNo \<Rightarrow>
          if word_of_int fSegNo < segNo then
            (case removeLogFile P (word_of_int fSegNo) w of
               (Some e, w') \<Rightarrow> (Some e, w') | (None, w') \<Rightarrow> cleanup_files P segNo fs w')
          else cleanup_files P segNo fs w)"

definition performCleanup :: "WAL_Entry proto \<Rightarrow> u64 \<Rightarrow> WAL \<Rightarrow> go_error option \<times> WAL" where
  "performCleanup P segNo w =
     (case listAllWALLogFiles w of Inl e \<Rightarrow> (Some e, w) | Inr files \<Rightarrow> cleanup_files P segNo files w)"

text \<open>
  The file part of \<open>takeSnapshot\<close>: the temporary file is opened without truncation, gets the
  sequence number and the state, is synced and renamed.
\<close>

definition write_snapshot :: "'f Snapshotable \<Rightarrow> 'f \<Rightarrow> u64 \<Rightarrow> fs \<Rightarrow> go_error option \<times> fs" where
  "write_snapshot S f seqNo d =
     (case fs_OpenCreate snapshotTmp d of
        (Some e, d1) \<Rightarrow> (Some (wrap ''failed to open new snapshot file'' e), d1)
      | (None, d1) \<Rightarrow>
          (case bufio_Write (file_Write snapshotTmp) (put_uint64 seqNo) NewWriter (0, d1) of
             (Some e, bw, h) \<Rightarrow> (Some (wrap ''failed to write last sequence number'' e), snd h)
           | (None, bw, h) \<Rightarrow>
               (case bufio_Flush (file_Write snapshotTmp) bw h of
                  (Some e, bw', h1) \<Rightarrow> (Some (wrap ''failed to flush data to snapshot file'' e), snd h1)
                | (None, bw', h1) \<Rightarrow>
                    (case sn_Snapshot S (file_Write snapshotTmp) f h1 of
                       (Some e, h2) \<Rightarrow> (Some e, snd h2)
                     | (None, h2) \<Rightarrow>
                         (case fs_Sync snapshotTmp (snd h2) of
                            (Some e, d3) \<Rightarrow> (Some (wrap ''failed to sync snapshot file'' e), d3)
                          | (None, d3) \<Rightarrow>
                              (case fs_Rename snapshotTmp generateSnapshotFileName d3 of
                                 (Some e, d4) \<Rightarrow> (Some (wrap ''failed to rename snapshot file'' e), d4)
                               | (None, d4) \<Rightarrow> (None, d4)))))))"

text \<open>
  \<open>takeSnapshot\<close> reads the last sequence number and segment number under the lock of the log, and goes
  on without it, so that other calls can come between its two halves.
\<close>

definition finish_snapshot ::
  "WAL_Entry proto \<Rightarrow> 'f Snapshotable \<Rightarrow> u64 \<Rightarrow> u64 \<Rightarrow> 'f \<times> WAL \<Rightarrow> go_error option \<times> ('f \<times> WAL)" where
  "finish_snapshot P S seqNo segNo fw =
     (let (f, w) = fw
      in case write_snapshot S f seqNo (w_disk w) of
           (Some e, d) \<Rightarrow> (Some e, (f, w\<lparr>w_disk := d\<rparr>))
         | (None, d) \<Rightarrow>
             (case performCleanup P segNo (w\<lparr>w_disk := d, w_lastSnapshot := seqNo\<rparr>) of
                (e, w') \<Rightarrow> (e, (f, w'))))"

definition takeSnapshot :: "WAL_Entry proto \<Rightarrow> 'f Snapshotable \<Rightarrow> 'f \<times> WAL \<Rightarrow> go_error option \<times> ('f \<times> WAL)" where
  "takeSnapshot P S fw =
     (let seqNo = w_lastSequenceNo (snd fw); segNo = w_lastSegmentNo (snd fw)
      in finish_snapshot P S seqNo segNo fw)"

text \<open>One turn of the goroutine \<open>snapshotRunner\<close>; an error is only printed.\<close>

definition snapshotRunner :: "WAL_Entry proto \<Rightarrow> 'f Snapshotable \<Rightarrow> 'f \<times> WAL \<Rightarrow> 'f \<times> WAL" where
  "snapshotRunner P S fw = (if w_cancelled (snd fw) then fw else snd (takeSnapshot P S fw))"

fun apply_entries :: "'f Snapshotable \<Rightarrow> WAL_Entry list \<Rightarrow> 'f \<times> WAL \<Rightarrow> ret \<times> ('f \<times> WAL)" where
  "apply_entries S [] fw = (Return None, fw)"
| "apply_entries S (e # es) fw =
     (case sn_Apply S e fw of
        (Return None, fw') \<Rightarrow> apply_entries S es fw'
      | (r, fw') \<Rightarrow> (r, fw'))"

text \<open>\<open>restore\<close> returns the sequence number of the snapshot, also next to an error.\<close>

definition restore :: "WAL_Entry proto \<Rightarrow> 'f Snapshotable \<Rightarrow> 'f \<times> WAL \<Rightarrow> u64 \<times> ret \<times> ('f \<times> WAL)" where
  "restore P S fw =
     (let (f, w) = fw in
      case fs_Open generateSnapshotFileName (w_disk w) of
        Inl e \<Rightarrow> (0, Return (Some (if e = ErrNotExist then ErrNoSnapshotFile
                                else wrap ''failed to open snapshot file'' e)), fw)
      | Inr content \<Rightarrow>
          (case binary_Read64 content of
             Inl e \<Rightarrow> (0, Return (Some (errmsg ''failed to read '')), fw)
           | Inr (seqNo, r) \<Rightarrow>
               (case sn_Restore S r fw of
                  (Return None, fw1) \<Rightarrow>
                    (case ReadAllEntries P (snd fw1) of
                       Inl e \<Rightarrow> (seqNo, Return (Some e), fw1)
                     | Inr es \<Rightarrow> (seqNo, apply_entries S es fw1))
                | (res, fw1) \<Rightarrow> (seqNo, res, fw1))))"

definition EnableSnapshots :: "WAL_Entry proto \<Rightarrow> 'f Snapshotable \<Rightarrow> 'f \<times> WAL \<Rightarrow> ret \<times> ('f \<times> WAL)" where
  "EnableSnapshots P S fw =
     (case restore P S fw of
        (lastSnapshot, Blocked, fw') \<Rightarrow> (Blocked, fw')
      | (lastSnapshot, Return err, (f, w)) \<Rightarrow>
          if (case err of None \<Rightarrow> True | Some e \<Rightarrow> errors_Is e ErrNoSnapshotFile)
          then (Return None, (f, w\<lparr>w_lastSnapshot := lastSnapshot\<rparr>))
          else (Return err, (f, w)))"

section \<open>Cleaning up\<close>

text \<open>
  During a clean-up the segments need not be contiguous: \<open>seg_disk d S g\<close> says that the segments
  on \<open>d\<close> are those numbered in \<open>S\<close>, with contents \<open>g\<close>.
\<close>

definition seg_disk :: "fs \<Rightarrow> nat set \<Rightarrow> (nat \<Rightarrow> bytes) \<Rightarrow> bool" where
  "seg_disk d S g \<longleftrightarrow> dir_wf (entries d) \<and> no_faults d \<and> S \<subseteq> {0 <..< 2 ^ 63} \<and>
     (\<forall>k \<in> S. is_file d (seg_name k) \<and> file_data (seg_name k) d = g k) \<and>
     (\<forall>nm. HasPrefix nm WalLogPrefix \<and> fs_node d nm \<noteq> None \<longrightarrow> nm \<in> seg_name ` S)"

lemma log_disk_seg_disk:
  "log_disk d lo cs \<longleftrightarrow> 0 < lo \<and> lo + length cs \<le> 2 ^ 63 \<and> seg_disk d {lo ..< lo + length cs} (\<lambda>k. cs ! (k - lo))"
proof -
  have "(\<forall>i < length cs. is_file d (seg_name (lo + i)) \<and> file_data (seg_name (lo + i)) d = cs ! i) \<longleftrightarrow>
    (\<forall>k \<in> {lo ..< lo + length cs}. is_file d (seg_name k) \<and> file_data (seg_name k) d = cs ! (k - lo))"
    (is "?l = ?r")
  proof
    assume ?r
    then show ?l by (intro allI impI) force
  next
    assume l: ?l
    show ?r
    proof
      fix k assume "k \<in> {lo ..< lo + length cs}"
      then have "k - lo < length cs" "lo + (k - lo) = k" by auto
      with l show "is_file d (seg_name k) \<and> file_data (seg_name k) d = cs ! (k - lo)" by metis
    qed
  qed
  then show ?thesis by (auto simp: log_disk_def seg_disk_def)
qed

lemma seg_disk_cong: "seg_disk d S g \<Longrightarrow> (\<And>k. k \<in> S \<Longrightarrow> g k = g' k) \<Longrightarrow> seg_disk d S g'"
  by (simp add: seg_disk_def)

lemma seg_disk_remove:
  assumes d: "seg_disk d S g" and k: "k \<in> S"
  shows "\<exists>d'. fs_Remove (seg_name k) d = (None, d') \<and> seg_disk d' (S - {k}) g \<and>
    (\<forall>nm. \<not> HasPrefix nm WalLogPrefix \<longrightarrow> fs_node d' nm = fs_node d nm)"
proof -
  from d k have n: "fs_node d (seg_name k) \<noteq> None" "no_faults d" and S: "S \<subseteq> {0 <..< 2 ^ 63}"
    by (auto simp: seg_disk_def is_file_def split: option.splits)
  define d' where "d' = d\<lparr>entries := dir_del (seg_name k) (entries d)\<rparr>"
  have r: "fs_Remove (seg_name k) d = (None, d')" using n by (simp add: fs_Remove_def d'_def no_faultsD)
  note node = fs_node_Remove [OF r]
  have inj: "seg_name j \<noteq> seg_name k" if "j \<in> S - {k}" for j
    using that S k by (auto simp: seg_name_inject subset_iff)
  have "is_file d' (seg_name j) \<and> file_data (seg_name j) d' = g j" if "j \<in> S - {k}" for j
    using inj [OF that] that d by (auto simp: is_file_def file_data_def node seg_disk_def)
  moreover have "nm \<in> seg_name ` (S - {k})" if "HasPrefix nm WalLogPrefix" "fs_node d' nm \<noteq> None" for nm
    using that d by (auto simp: node seg_disk_def split: if_splits)
  ultimately have "seg_disk d' (S - {k}) g"
    using d by (auto simp: seg_disk_def d'_def)
  with r show ?thesis by (intro exI [of _ d']) (auto simp: node)
qed

lemma sint_of_nat64: "k < 2 ^ 63 \<Longrightarrow> sint (word_of_nat k :: u64) = int k"
  using sint_word_of_int64 [of "int k"] by simp

lemma Atoi_seg_name: "k < 2 ^ 63 \<Longrightarrow> Atoi (last (split_on CHR ''-'' (seg_name k))) = Inr (int k)"
proof -
  assume k: "k < 2 ^ 63"
  note s = sint_of_nat64 [OF k]
  then have "seg_name k = ''wal-log'' @ CHR ''-'' # dec_of_nat k"
    unfolding seg_name_def by (subst generateLogFilePath_nonneg) simp_all
  then show ?thesis by (simp only: last_split_on_append [OF no_dash_dec] Atoi_dec_of_nat [OF k])
qed

lemma removeLogFile_seg_disk:
  assumes P: "proto_ok P" and d: "seg_disk (w_disk w) S g" and k: "k \<in> S"
    and es: "g k = wl.frames P es" "es \<noteq> []" "list_all (entry_wf P) es" "LogSequenceNo (last es) \<le> w_lastSnapshot w"
  shows "\<exists>d'. removeLogFile P (word_of_nat k) w = (None, w\<lparr>w_disk := d'\<rparr>) \<and> seg_disk d' (S - {k}) g \<and>
    (\<forall>nm. \<not> HasPrefix nm WalLogPrefix \<longrightarrow> fs_node d' nm = fs_node (w_disk w) nm)"
proof -
  from seg_disk_remove [OF d k] obtain d' where
    r: "fs_Remove (seg_name k) (w_disk w) = (None, d')" "seg_disk d' (S - {k}) g"
    "\<forall>nm. \<not> HasPrefix nm WalLogPrefix \<longrightarrow> fs_node d' nm = fs_node (w_disk w) nm" by blast
  from d k es(1) have "is_file (w_disk w) (seg_name k)" "no_faults (w_disk w)"
    "file_data (seg_name k) (w_disk w) = wl.frames P es" by (auto simp: seg_disk_def)
  then have "fs_Open (seg_name k) (w_disk w) = Inr (wl.frames P es)"
    by (auto simp: fs_Open_def no_faultsD is_file_iff)
  moreover have "findLastSequenceNumberInLogFile P (seg_name k) (wl.frames P es) (w_disk w) = Inr (LogSequenceNo (last es))"
    by (rule findLastSequenceNumber_nonempty [OF P es(3,2)])
  ultimately have "removeLogFile P (word_of_nat k) w = (None, w\<lparr>w_disk := d'\<rparr>)"
    using r(1) es(4) by (simp add: removeLogFile_def seg_name_def)
  with r show ?thesis by blast
qed

lemma cleanup_files_seg_disk:
  assumes P: "proto_ok P" and n: "n < 2 ^ 63"
  shows "seg_disk (w_disk w) S g \<Longrightarrow> distinct ks \<Longrightarrow> set ks \<subseteq> S \<Longrightarrow>
    (\<forall>k \<in> S. k < n \<longrightarrow> (\<exists>es. g k = wl.frames P es \<and> es \<noteq> [] \<and> list_all (entry_wf P) es \<and>
       LogSequenceNo (last es) \<le> w_lastSnapshot w)) \<Longrightarrow>
    \<exists>d'. cleanup_files P (word_of_nat n) (map seg_name ks) w = (None, w\<lparr>w_disk := d'\<rparr>) \<and>
      seg_disk d' (S - {k \<in> set ks. k < n}) g \<and>
      (\<forall>nm. \<not> HasPrefix nm WalLogPrefix \<longrightarrow> fs_node d' nm = fs_node (w_disk w) nm)"
proof (induction ks arbitrary: w S)
  case Nil
  then show ?case by (intro exI [of _ "w_disk w"]) simp
next
  case (Cons k ks)
  from Cons.prems(1,3) have k: "k \<in> S" "k < 2 ^ 63" by (auto simp: seg_disk_def)
  have u: "(word_of_int (int k) :: u64) = word_of_nat k" by simp
  have lt: "(word_of_nat k :: u64) < word_of_nat n \<longleftrightarrow> k < n"
    using k(2) n unat_word_of_nat64 [of k] unat_word_of_nat64 [of n] by (simp add: word_less_nat_alt)
  show ?case
  proof (cases "k < n")
    case False
    have "S - {j \<in> set (k # ks). j < n} = S - {j \<in> set ks. j < n}" using False by auto
    with Cons.IH [OF Cons.prems(1) _ _ Cons.prems(4)] Cons.prems(2,3) False lt u show ?thesis
      by (simp add: Atoi_seg_name [OF k(2)])
  next
    case True
    with Cons.prems(4) k(1) obtain es where es: "g k = wl.frames P es" "es \<noteq> []" "list_all (entry_wf P) es"
      "LogSequenceNo (last es) \<le> w_lastSnapshot w" by blast
    from removeLogFile_seg_disk [OF P Cons.prems(1) k(1) es] obtain d1 where
      r: "removeLogFile P (word_of_nat k) w = (None, w\<lparr>w_disk := d1\<rparr>)" "seg_disk d1 (S - {k}) g"
      "\<forall>nm. \<not> HasPrefix nm WalLogPrefix \<longrightarrow> fs_node d1 nm = fs_node (w_disk w) nm" by blast
    have "S - {k} - {j \<in> set ks. j < n} = S - {j \<in> set (k # ks). j < n}" using True by auto
    with Cons.IH [of "w\<lparr>w_disk := d1\<rparr>" "S - {k}"] r Cons.prems(2-4) True lt u show ?thesis
      by (force simp: Atoi_seg_name [OF k(2)])
  qed
qed

lemma map_preimage: "set xs \<subseteq> f ` A \<Longrightarrow> \<exists>ys. xs = map f ys \<and> set ys \<subseteq> A"
proof (induction xs)
  case (Cons x xs)
  then obtain ys y where "xs = map f ys" "set ys \<subseteq> A" "x = f y" "y \<in> A" by auto
  then show ?case by (intro exI [of _ "y # ys"]) simp
qed simp

lemma log_names_numbers:
  assumes d: "log_disk d lo cs"
  shows "\<exists>ks. log_names d = map seg_name ks \<and> set ks = {lo ..< lo + length cs} \<and> distinct ks"
proof -
  note s = set_log_names_disk [OF d]
  from map_preimage [OF eq_refl [OF s]] obtain ks where
    ks: "log_names d = map seg_name ks" "set ks \<subseteq> {lo ..< lo + length cs}" by blast
  have "distinct ks" using distinct_log_names [OF log_diskD(1) [OF d]] ks(1) by (simp add: distinct_map)
  moreover have "{lo ..< lo + length cs} \<subseteq> set ks"
  proof
    fix k assume k: "k \<in> {lo ..< lo + length cs}"
    then have "seg_name k \<in> seg_name ` set ks" using s ks(1) by (metis image_eqI list.set_map)
    then obtain j where j: "j \<in> set ks" "seg_name k = seg_name j" by blast
    with k ks(2) log_diskD(4) [OF d] have "k = j" by (auto simp: seg_name_inject subset_iff)
    with j(1) show "k \<in> set ks" by simp
  qed
  ultimately show ?thesis using ks by blast
qed

text \<open>
  When the snapshot covers all segments before number \<open>m\<close>, the clean-up leaves the rest, in whatever
  order it goes through the files.
\<close>

lemma performCleanup_disk:
  assumes P: "proto_ok P" and d: "log_disk (w_disk w) lo (map (wl.frames P) closed @ [c])" and m: "m \<le> lo + length closed"
    and ne: "[] \<notin> set closed" and wf: "list_all (entry_wf P) (concat closed)"
    and snap: "\<forall>e \<in> set (concat (take (m - lo) closed)). LogSequenceNo e \<le> w_lastSnapshot w"
  shows "\<exists>d'. performCleanup P (word_of_nat m) w = (None, w\<lparr>w_disk := d'\<rparr>) \<and>
    log_disk d' (lo + (m - lo)) (map (wl.frames P) (drop (m - lo) closed) @ [c]) \<and>
    (\<forall>nm. \<not> HasPrefix nm WalLogPrefix \<longrightarrow> fs_node d' nm = fs_node (w_disk w) nm)"
proof -
  define k where "k = m - lo"
  let ?cs = "map (wl.frames P) closed @ [c]" and ?cs' = "map (wl.frames P) (drop k closed) @ [c]" and ?n = "lo + k"
  have k: "k \<le> length closed" using m by (simp add: k_def)
  have lt: "j < m \<longleftrightarrow> j < ?n" if "lo \<le> j" for j using that by (auto simp: k_def)
  have cs': "?cs' = drop k ?cs" using k by (simp add: drop_map)
  define g where "g j = ?cs ! (j - lo)" for j
  from d have sd: "seg_disk (w_disk w) {lo ..< lo + length ?cs} g" and lo: "0 < lo" "lo + length closed < 2 ^ 63"
    by (simp_all add: log_disk_seg_disk g_def [abs_def])
  from lo(2) m have n: "m < 2 ^ 63" by simp
  from log_names_numbers [OF d] obtain ks where
    ks: "log_names (w_disk w) = map seg_name ks" "set ks = {lo ..< lo + length ?cs}" "distinct ks" by blast
  have cov: "\<forall>j \<in> {lo ..< lo + length ?cs}. j < m \<longrightarrow> (\<exists>es. g j = wl.frames P es \<and> es \<noteq> [] \<and> list_all (entry_wf P) es \<and>
       LogSequenceNo (last es) \<le> w_lastSnapshot w)"
  proof (intro ballI impI)
    fix j assume "j \<in> {lo ..< lo + length ?cs}" "j < m"
    then have i: "j - lo < k" "j - lo < length closed" using k by (auto simp: k_def)
    let ?es = "closed ! (j - lo)"
    have m: "?es \<in> set closed" using i(2) by (rule nth_mem)
    with ne have n0: "?es \<noteq> []" by auto
    have "?es \<in> set (take k closed)" using i by (metis in_set_conv_nth length_take min_less_iff_conj nth_take)
    with last_in_set [OF n0] snap [folded k_def] have l: "LogSequenceNo (last ?es) \<le> w_lastSnapshot w" by auto
    from wf m have "list_all (entry_wf P) ?es" by (auto simp: list_all_iff)
    with l n0 i(2) show "\<exists>es. g j = wl.frames P es \<and> es \<noteq> [] \<and> list_all (entry_wf P) es \<and>
       LogSequenceNo (last es) \<le> w_lastSnapshot w" by (intro exI [of _ ?es]) (simp add: g_def nth_append)
  qed
  from cleanup_files_seg_disk [OF P n sd ks(3) eq_refl [OF ks(2)] cov] obtain d' where
    d': "cleanup_files P (word_of_nat m) (map seg_name ks) w = (None, w\<lparr>w_disk := d'\<rparr>)"
    "seg_disk d' ({lo ..< lo + length ?cs} - {j \<in> set ks. j < m}) g"
    "\<forall>nm. \<not> HasPrefix nm WalLogPrefix \<longrightarrow> fs_node d' nm = fs_node (w_disk w) nm" by blast
  have len: "lo + length ?cs = ?n + length ?cs'" using k by simp
  have "{lo ..< lo + length ?cs} - {j \<in> set ks. j < m} = {?n ..< ?n + length ?cs'}"
    unfolding ks(2) len using lt by (intro set_eqI) auto
  with d'(2) have sd1: "seg_disk d' {?n ..< ?n + length ?cs'} g" by (simp only:)
  have "seg_disk d' {?n ..< ?n + length ?cs'} (\<lambda>j. ?cs' ! (j - ?n))"
  proof (rule seg_disk_cong [OF sd1])
    fix j assume "j \<in> {?n ..< ?n + length ?cs'}"
    then have "?n \<le> j" by simp
    then have "k + (j - ?n) = j - lo" by simp
    with nth_drop [of k ?cs "j - ?n"] k show "g j = ?cs' ! (j - ?n)" unfolding cs' g_def by simp
  qed
  moreover have "0 < ?n" "?n + length ?cs' \<le> 2 ^ 63" using lo k by simp_all
  ultimately have "log_disk d' ?n ?cs'" by (intro log_disk_seg_disk [THEN iffD2] conjI)
  with d' ks(1) listAllWALLogFiles_disk [OF d] k_def show ?thesis by (auto simp: performCleanup_def)
qed

section \<open>The snapshot file\<close>

text \<open>
  The handle of a new file during \<open>takeSnapshot\<close>: its offset is the length of the file, and the
  rest of the disk is that of \<open>d0\<close>.
\<close>

definition snap_handle :: "string \<Rightarrow> fs \<Rightarrow> nat \<times> fs \<Rightarrow> bool" where
  "snap_handle nm d0 h \<longleftrightarrow> is_file (snd h) nm \<and> fst h = length (file_data nm (snd h)) \<and>
     no_faults (snd h) \<and> dir_wf (entries (snd h)) \<and> (\<forall>x. x \<noteq> nm \<longrightarrow> fs_node (snd h) x = fs_node d0 x)"

lemma file_Write_snap:
  assumes "snap_handle nm d0 h" "file_Write nm p h = (n, e, h')"
  shows "n = length p \<and> e = None \<and> snap_handle nm d0 h' \<and>
    file_data nm (snd h') = file_data nm (snd h) @ p"
proof -
  from assms(1) obtain y where f: "fs_node (snd h) nm = Some (File (file_data nm (snd h)) y)"
    and nf: "no_faults (snd h)" and o: "fst h = length (file_data nm (snd h))" by (auto simp: snap_handle_def is_file_iff)
  from fs_WriteAt_no_room_limit [OF no_faultsD(2) [OF nf] f, of "fst h" p] o assms
  show ?thesis by (auto simp: file_Write_def snap_handle_def is_file_def split: if_splits)
qed

interpretation sf: io_writer "file_Write nm" "snap_handle nm d0" "\<lambda>_. True" "\<lambda>h. file_data nm (snd h)"
  for nm d0
  by unfold_locales (auto dest: file_Write_snap)

locale snapshotable =
  fixes S :: "'f Snapshotable"
    and storable :: "'f \<Rightarrow> bool"
    and image :: "'f \<Rightarrow> bytes \<Rightarrow> bool"
    and empty :: 'f
    and effect :: "WAL_Entry \<Rightarrow> 'f \<Rightarrow> 'f"
    and ready :: "WAL_Entry list \<Rightarrow> 'f \<times> WAL \<Rightarrow> bool"
  assumes snapshot_image: "storable f \<Longrightarrow> io_writer (file_Write nm) ok healthy view \<Longrightarrow> ok h \<Longrightarrow> healthy h \<Longrightarrow>
      \<exists>h' b. sn_Snapshot S (file_Write nm) f h = (None, h') \<and> ok h' \<and> view h' = view h @ b \<and> image f b"
    and restore_image: "image f b \<Longrightarrow> sn_Restore S b (empty, w) = (Return None, (f, w))"
    and apply_ready: "ready (e # es) (f, w) \<Longrightarrow>
      \<exists>w'. sn_Apply S e (f, w) = (Return None, (effect e f, w')) \<and> ready es (effect e f, w')"
begin

lemma apply_entries_ready:
  "ready es (f, w) \<Longrightarrow>
   \<exists>w'. apply_entries S es (f, w) = (Return None, (fold effect es f, w')) \<and> ready [] (fold effect es f, w')"
proof (induction es arbitrary: f w)
  case (Cons e es)
  from apply_ready [OF Cons.prems] obtain w1 where
    "sn_Apply S e (f, w) = (Return None, (effect e f, w1))" "ready es (effect e f, w1)" by blast
  with Cons.IH [OF this(2)] show ?case by auto
qed auto

lemma write_snapshot_ok:
  assumes f: "storable f" and nf: "no_faults d" and wf: "dir_wf (entries d)"
    and tmp: "fs_node d snapshotTmp = None" and dir: "fs_node d SnapshotFile \<noteq> Some Dir"
  shows "\<exists>d' b. write_snapshot S f n d = (None, d') \<and> image f b \<and>
    fs_node d' SnapshotFile = Some (File (put_uint64 n @ b) (put_uint64 n @ b)) \<and>
    fs_node d' snapshotTmp = None \<and> no_faults d' \<and> dir_wf (entries d') \<and>
    (\<forall>x. x \<noteq> SnapshotFile \<longrightarrow> fs_node d' x = fs_node d x)"
proof -
  let ?wr = "file_Write snapshotTmp"
  define d1 where "d1 = fs_put snapshotTmp (File [] []) d"
  have op: "fs_OpenCreate snapshotTmp d = (None, d1)"
    using nf tmp by (simp add: fs_OpenCreate_def d1_def no_faultsD)
  have h0: "snap_handle snapshotTmp d (0, d1)" "file_data snapshotTmp d1 = []"
    using nf wf by (simp_all add: snap_handle_def d1_def)
  from sf.bufio_Write_healthy [OF h0(1) TrueI, of NewWriter "put_uint64 n"] h0(2) obtain bw h1 where
    b1: "bufio_Write ?wr (put_uint64 n) NewWriter (0, d1) = (None, bw, h1)" "snap_handle snapshotTmp d h1"
    "berr bw = None" "file_data snapshotTmp (snd h1) @ bbuf bw = put_uint64 n" by (auto simp: NewWriter_def)
  from sf.bufio_Flush_healthy [OF b1(2) TrueI b1(3)] b1(4) obtain h2 where
    b2: "bufio_Flush ?wr bw h1 = (None, NewWriter, h2)" "snap_handle snapshotTmp d h2"
    "file_data snapshotTmp (snd h2) = put_uint64 n" by auto
  from snapshot_image [OF f sf.io_writer_axioms b2(2) TrueI] b2(3) obtain h3 b where
    b3: "sn_Snapshot S ?wr f h2 = (None, h3)" "snap_handle snapshotTmp d h3"
    "file_data snapshotTmp (snd h3) = put_uint64 n @ b" "image f b" by auto
  then obtain y where n3: "fs_node (snd h3) snapshotTmp = Some (File (put_uint64 n @ b) y)"
    by (auto simp: snap_handle_def is_file_iff)
  let ?nd = "File (put_uint64 n @ b) (put_uint64 n @ b)"
  have sy: "fs_Sync snapshotTmp (snd h3) = (None, fs_put snapshotTmp ?nd (snd h3))"
    using n3 b3(2) by (simp add: fs_Sync_def snap_handle_def no_faultsD)
  have ne: "SnapshotFile \<noteq> snapshotTmp" by (simp add: snapshotTmp_def generateSnapshotFileName_def)
  define d4 where "d4 = (fs_put snapshotTmp ?nd (snd h3))
    \<lparr>entries := dir_put SnapshotFile ?nd (dir_del snapshotTmp (entries (fs_put snapshotTmp ?nd (snd h3))))\<rparr>"
  have rn: "fs_Rename snapshotTmp generateSnapshotFileName (fs_put snapshotTmp ?nd (snd h3)) = (None, d4)"
    using b3(2) dir ne by (simp add: fs_Rename_def generateSnapshotFileName_def d4_def snap_handle_def no_faultsD)
  have node: "fs_node d4 x = (if x = SnapshotFile then Some ?nd else if x = snapshotTmp then None else fs_node (snd h3) x)" for x
    using fs_node_put [of snapshotTmp ?nd "snd h3" x] by (simp add: d4_def fs_node_def)
  have "write_snapshot S f n d = (None, d4)"
    by (simp add: write_snapshot_def op b1(1) b2(1) b3(1) sy rn)
  moreover have "fs_node d4 x = fs_node d x" if "x \<noteq> SnapshotFile" for x
    using that b3(2) tmp by (auto simp: node snap_handle_def)
  moreover have "no_faults d4" "dir_wf (entries d4)"
    using b3(2) by (simp_all add: d4_def snap_handle_def)
  ultimately show ?thesis using b3(4) ne by (intro exI [of _ d4] exI [of _ b]) (simp add: node)
qed

text \<open>
  A snapshot keeps the log as it represents it, up to the closed segments, all of which it
  covers and removes; the snapshot file holds the last sequence number and the state.
\<close>

lemma log_disk_cong:
  assumes "log_disk d lo cs" "\<And>x. HasPrefix x WalLogPrefix \<Longrightarrow> fs_node d' x = fs_node d x"
    "no_faults d'" "dir_wf (entries d')"
  shows "log_disk d' lo cs"
proof -
  have "is_file d' (seg_name k) = is_file d (seg_name k)" "file_data (seg_name k) d' = file_data (seg_name k) d" for k
    using assms(2) [of "seg_name k"] by (simp_all add: is_file_def file_data_def)
  moreover have "nm \<in> seg_name ` {lo ..< lo + length cs}" if "HasPrefix nm WalLogPrefix" "fs_node d' nm \<noteq> None" for nm
    using log_diskD(7) [OF assms(1) that(1)] assms(2) [OF that(1)] that(2) by metis
  ultimately show ?thesis using assms(3,4) log_diskD(3-6) [OF assms(1)] by (simp add: log_disk_def)
qed

lemma finish_snapshot_ok:
  assumes P: "proto_ok P" and rep: "wal_rep P w lo closed cur" and f: "storable f"
    and tmp: "fs_node (w_disk w) snapshotTmp = None" and dir: "fs_node (w_disk w) SnapshotFile \<noteq> Some Dir"
    and pt: "snap_point n k lo closed cur" "n \<le> w_lastSequenceNo w"
  shows "\<exists>w' b. finish_snapshot P S n (word_of_nat k) (f, w) = (None, (f, w')) \<and>
    wal_rep P w' (lo + (k - lo)) (drop (k - lo) closed) cur \<and>
    w_writer w' = w_writer w \<and> w_flushDone w' = w_flushDone w \<and> same_config w w' \<and>
    w_lastSnapshot w' = n \<and> w_lastSequenceNo w' = w_lastSequenceNo w \<and> image f b \<and>
    fs_node (w_disk w') SnapshotFile = Some (File (put_uint64 n @ b) (put_uint64 n @ b)) \<and>
    fs_node (w_disk w') snapshotTmp = None \<and>
    (\<forall>x \<in> set (concat (drop (k - lo) closed) @ cur).
       durable P w lo closed cur x \<longrightarrow> durable P w' (lo + (k - lo)) (drop (k - lo) closed) cur x)"
proof -
  let ?k = "k - lo"
  from rep have st: "wal_store P w lo closed cur" and num: "numbered (w_lastSequenceNo w) (concat closed @ cur)"
    by (simp_all add: wal_rep_def)
  from st obtain bf c where b: "w_writer w = Some (seg_name (lo + length closed), bf)" "berr bf = None"
    "log_disk (w_disk w) lo (map (wl.frames P) closed @ [c])" "c @ bbuf bf = wl.frames P cur"
    "w_lastSegmentNo w = word_of_nat (lo + length closed)" by (rule wal_storeE)
  from write_snapshot_ok [OF f log_diskD(2,1) [OF b(3)] tmp dir, of n] obtain d1 b' where
    s: "write_snapshot S f n (w_disk w) = (None, d1)" "image f b'"
    "fs_node d1 SnapshotFile = Some (File (put_uint64 n @ b') (put_uint64 n @ b'))"
    "fs_node d1 snapshotTmp = None" "no_faults d1" "dir_wf (entries d1)"
    "\<forall>x. x \<noteq> SnapshotFile \<longrightarrow> fs_node d1 x = fs_node (w_disk w) x" by blast
  have pre: "\<not> HasPrefix SnapshotFile WalLogPrefix" "\<not> HasPrefix snapshotTmp WalLogPrefix"
    by (simp_all add: HasPrefix_def SnapshotFile_def WalLogPrefix_def snapshotTmp_def generateSnapshotFileName_def)
  have d1: "log_disk d1 lo (map (wl.frames P) closed @ [c])"
    using s(5-7) pre by (intro log_disk_cong [OF b(3)]) metis+
  let ?w1 = "w\<lparr>w_disk := d1, w_lastSnapshot := n\<rparr>"
  have wf: "[] \<notin> set closed" "list_all (entry_wf P) (concat closed)" using st by (simp_all add: wal_store_def)
  have k: "k \<le> lo + length closed" using pt(1) by (simp add: snap_point_def)
  have cov: "\<forall>e \<in> set (concat (take ?k closed)). LogSequenceNo e \<le> w_lastSnapshot ?w1"
    using pt(1) unfolding snap_point_def by simp
  from performCleanup_disk [OF P _ k wf cov, of c] d1 obtain d2 where
    c: "performCleanup P (word_of_nat k) ?w1 = (None, ?w1\<lparr>w_disk := d2\<rparr>)"
    "log_disk d2 (lo + ?k) (map (wl.frames P) (drop ?k closed) @ [c])"
    "\<forall>nm. \<not> HasPrefix nm WalLogPrefix \<longrightarrow> fs_node d2 nm = fs_node d1 nm" by auto
  let ?w2 = "?w1\<lparr>w_disk := d2\<rparr>"
  have "finish_snapshot P S n (word_of_nat k) (f, w) = (None, (f, ?w2))"
    using s(1) c(1) by (simp add: finish_snapshot_def)
  moreover have "wal_rep P ?w2 (lo + ?k) (drop ?k closed) cur"
  proof -
    have "lo + ?k + length (drop ?k closed) = lo + length closed" using k by simp
    moreover have "concat closed @ cur = concat (take ?k closed) @ (concat (drop ?k closed) @ cur)"
      by (simp add: concat_append [symmetric] del: concat_append)
    moreover have "numbered (w_lastSequenceNo w) (concat (drop ?k closed) @ cur)"
      using num numbered_suffix by (metis calculation(2))
    moreover have "[] \<notin> set (drop ?k closed)" "list_all (entry_wf P) (concat (drop ?k closed) @ cur)"
      using st by (auto simp: wal_store_def list_all_iff dest: in_set_dropD)
    moreover have "\<forall>e \<in> set (concat (tl (drop ?k closed @ [cur]))). n < LogSequenceNo e"
      using pt(1) snap_point_tl by blast
    ultimately show ?thesis using st b c(2) pt(2) by (auto simp: wal_rep_def wal_store_def)
  qed
  moreover have "durable P ?w2 (lo + ?k) (drop ?k closed) cur x"
    if "x \<in> set (concat (drop ?k closed) @ cur)" "durable P w lo closed cur x" for x
  proof (rule durable_drop [OF num _ that(2,1)])
    show "?k \<le> length closed" using k by simp
    show "file_data (seg_name (lo + length closed)) (w_disk ?w2) = file_data (seg_name (lo + length closed)) (w_disk w)"
      using log_diskD(6) [OF b(3), of "length closed"] log_diskD(6) [OF c(2), of "length closed - ?k"] k
      by (simp add: nth_append)
  qed
  ultimately show ?thesis using s(2-4) c(3) pre
    by (intro exI [of _ ?w2] exI [of _ b']) (simp add: same_config_def)
qed

lemma takeSnapshot_ok:
  assumes P: "proto_ok P" and rep: "wal_rep P w lo closed cur" and f: "storable f"
    and tmp: "fs_node (w_disk w) snapshotTmp = None" and dir: "fs_node (w_disk w) SnapshotFile \<noteq> Some Dir"
  shows "\<exists>w' b. takeSnapshot P S (f, w) = (None, (f, w')) \<and> wal_rep P w' (lo + length closed) [] cur \<and>
    w_writer w' = w_writer w \<and> w_flushDone w' = w_flushDone w \<and>
    w_lastSnapshot w' = w_lastSequenceNo w \<and> w_lastSequenceNo w' = w_lastSequenceNo w \<and> image f b \<and>
    fs_node (w_disk w') SnapshotFile = Some (File (put_uint64 (w_lastSequenceNo w) @ b) (put_uint64 (w_lastSequenceNo w) @ b)) \<and>
    fs_node (w_disk w') snapshotTmp = None"
proof -
  have "numbered (w_lastSequenceNo w) (concat closed @ cur)" "w_lastSegmentNo w = word_of_nat (lo + length closed)"
    using rep by (simp_all add: wal_rep_def wal_store_def)
  with finish_snapshot_ok [OF P rep f tmp dir snap_point_now] show ?thesis by (simp add: takeSnapshot_def) blast
qed

text \<open>Start-up over a snapshot: the state of the snapshot with the whole log applied to it.\<close>

lemma EnableSnapshots_ok:
  assumes snap: "fs_Open SnapshotFile (w_disk w) = Inr (put_uint64 n @ b)" "image f b"
    and es: "ReadAllEntries P w = Inr es" and r: "ready es (f, w)"
  shows "\<exists>w'. EnableSnapshots P S (empty, w) = (Return None, (fold effect es f, w'\<lparr>w_lastSnapshot := n\<rparr>)) \<and>
    apply_entries S es (f, w) = (Return None, (fold effect es f, w')) \<and> ready [] (fold effect es f, w')"
proof -
  from apply_entries_ready [OF r] obtain w' where
    a: "apply_entries S es (f, w) = (Return None, (fold effect es f, w'))" "ready [] (fold effect es f, w')" by blast
  have "restore P S (empty, w) = (n, Return None, (fold effect es f, w'))"
    using snap(1) es a(1) by (simp add: restore_def generateSnapshotFileName_def restore_image [OF snap(2)])
  with a show ?thesis by (auto simp: EnableSnapshots_def)
qed

end

end
