(* ===== verification/File_Store.thy ===== *)
theory File_Store
  imports Wal_Snapshot
begin

text \<open>
  The file store of the metadata server, \<open>internal/files/file_store.go\<close>: a map from names to
  file records, made durable by the write-ahead log and its snapshots. The state is the pair of
  the map and the log. \<open>Pm\<close> and \<open>Pe\<close> are the codecs of \<open>FileMetadata\<close> and \<open>WAL_Entry\<close>; \<open>order\<close> is
  the order in which \<open>range\<close> visits the keys of a map.
\<close>

type_synonym files = "string \<rightharpoonup> FileMetadata"
type_synonym FileStore = "files \<times> WAL"

definition order_ok :: "(files \<Rightarrow> string list) \<Rightarrow> bool" where
  "order_ok order \<longleftrightarrow> (\<forall>f. finite (dom f) \<longrightarrow> distinct (order f) \<and> set (order f) = dom f)"

section \<open>Operations\<close>

definition NewFileStore :: "WAL \<Rightarrow> FileStore" where
  "NewFileStore w = (Map.empty, w)"

text \<open>An error of \<open>AppendEntry\<close> is not passed on.\<close>

definition AddFileMetadata ::
  "WAL_Entry proto \<Rightarrow> FileMetadata proto \<Rightarrow> FileMetadata \<Rightarrow> bool \<Rightarrow> FileStore \<Rightarrow> ret \<times> FileStore" where
  "AddFileMetadata Pe Pm fMeta addToWAL st =
     (let (f, w) = st in
      case Marshal Pm fMeta of
        Inl e \<Rightarrow> (Return (Some (wrap ''failed to marshal file metadata'' e)), st)
      | Inr meta \<Rightarrow>
          if addToWAL then
            (case AppendEntry_wait Pe meta False w of
               (Blocked, w') \<Rightarrow> (Blocked, (f, w'))
             | (Return (Some e), w') \<Rightarrow> (Return None, (f, w'))
             | (Return None, w') \<Rightarrow> (Return None, (f(GetName (Some fMeta) \<mapsto> fMeta), w')))
          else (Return None, (f(GetName (Some fMeta) \<mapsto> fMeta), w)))"

definition LookupFileMetadata :: "string \<Rightarrow> FileStore \<Rightarrow> FileMetadata option" where
  "LookupFileMetadata key st = fst st key"

definition DeleteFileMetadata ::
  "WAL_Entry proto \<Rightarrow> FileMetadata proto \<Rightarrow> string \<Rightarrow> FileStore \<Rightarrow> ret \<times> FileStore" where
  "DeleteFileMetadata Pe Pm key st =
     (let (f, w) = st in
      case f key of
        None \<Rightarrow> (Return None, st)
      | Some fMeta \<Rightarrow>
          (case Marshal Pm fMeta of
             Inl e \<Rightarrow> (Return (Some (wrap ''failed to marshal file metadata'' e)), st)
           | Inr meta \<Rightarrow>
               (case AppendEntry_wait Pe meta True w of
                  (Blocked, w') \<Rightarrow> (Blocked, (f, w'))
                | (Return (Some e), w') \<Rightarrow> (Return None, (f, w'))
                | (Return None, w') \<Rightarrow> (Return None, (f(key := None), w')))))"

fun write_metas ::
  "FileMetadata proto \<Rightarrow> 's write_fn \<Rightarrow> FileMetadata list \<Rightarrow> bufio \<Rightarrow> 's \<Rightarrow> go_error option \<times> bufio \<times> 's" where
  "write_metas Pm wr [] bw s = (None, bw, s)"
| "write_metas Pm wr (meta # metas) bw s =
     (case Marshal Pm meta of
        Inl e \<Rightarrow> (Some (errmsg ''failed to marshal metadata''), bw, s)
      | Inr metadata \<Rightarrow>
          (case bufio_Write wr (put_uint32 (word_of_nat (length metadata))) bw s of
             (Some e, bw1, s1) \<Rightarrow> (Some (errmsg ''failed to write metadata length to snapshot''), bw1, s1)
           | (None, bw1, s1) \<Rightarrow>
               (case bufio_Write wr metadata bw1 s1 of
                  (Some e, bw2, s2) \<Rightarrow> (Some (errmsg ''failed to write metadata to snapshot''), bw2, s2)
                | (None, bw2, s2) \<Rightarrow> write_metas Pm wr metas bw2 s2)))"

definition Snapshot ::
  "FileMetadata proto \<Rightarrow> (files \<Rightarrow> string list) \<Rightarrow> 's write_fn \<Rightarrow> files \<Rightarrow> 's \<Rightarrow> go_error option \<times> 's" where
  "Snapshot Pm order wr f s =
     (case write_metas Pm wr (map (\<lambda>name. the (f name)) (order f)) NewWriter s of
        (Some e, bw, s1) \<Rightarrow> (Some e, s1)
      | (None, bw, s1) \<Rightarrow>
          (case bufio_Flush wr bw s1 of
             (Some e, bw', s2) \<Rightarrow> (Some (errmsg ''failed to flush snapshot data''), s2)
           | (None, bw', s2) \<Rightarrow> (None, s2)))"

text \<open>\<open>read_meta\<close> is the reading part of one round of \<open>Restore\<close>; only a bare EOF ends the loop.\<close>

definition read_meta :: "FileMetadata proto \<Rightarrow> bytes \<Rightarrow> go_error + (FileMetadata \<times> bytes)" where
  "read_meta Pm r =
     (case binary_Read32 r of
        Inl e \<Rightarrow> Inl (if e = EOF then EOF else wrap ''failed to read length during restore'' e)
      | Inr (len, r1) \<Rightarrow>
          (case ReadFull (unat len) r1 of
             Inl e \<Rightarrow> Inl (wrap ''failed to read data during restore'' e)
           | Inr (data, r2) \<Rightarrow>
               (case Unmarshal Pm data of
                  Inl e \<Rightarrow> Inl (wrap ''failed to unmarshal data during restore'' e)
                | Inr meta \<Rightarrow> Inr (meta, r2))))"

lemma read_meta_shrinks: "read_meta Pm r = Inr (m, r') \<Longrightarrow> length r' < length r"
  by (auto simp: read_meta_def dest!: binary_Read32_InrD ReadFull_InrD split: sum.splits)

function Restore :: "WAL_Entry proto \<Rightarrow> FileMetadata proto \<Rightarrow> bytes \<Rightarrow> FileStore \<Rightarrow> ret \<times> FileStore" where
  "Restore Pe Pm r st =
     (case read_meta Pm r of
        Inl e \<Rightarrow> (Return (if e = EOF then None else Some e), st)
      | Inr (meta, r') \<Rightarrow>
          (case AddFileMetadata Pe Pm meta False st of
             (Return None, st') \<Rightarrow> Restore Pe Pm r' st'
           | (res, st') \<Rightarrow> (res, st')))"
  by pat_completeness auto
termination
  by (relation "measure (\<lambda>(Pe, Pm, r, st). length r)") (auto dest: read_meta_shrinks)

declare Restore.simps [simp del]

definition Apply :: "WAL_Entry proto \<Rightarrow> FileMetadata proto \<Rightarrow> WAL_Entry \<Rightarrow> FileStore \<Rightarrow> ret \<times> FileStore" where
  "Apply Pe Pm e st =
     (case Unmarshal Pm (GetData (Some e)) of
        Inl er \<Rightarrow> (Return (Some (wrap ''failed to unmarshal data during restore'' er)), st)
      | Inr meta \<Rightarrow>
          if GetIsDelete (Some e) then DeleteFileMetadata Pe Pm (GetName (Some meta)) st
          else AddFileMetadata Pe Pm meta False st)"

definition file_snapshotable ::
  "WAL_Entry proto \<Rightarrow> FileMetadata proto \<Rightarrow> (files \<Rightarrow> string list) \<Rightarrow> files Snapshotable" where
  "file_snapshotable Pe Pm order =
     \<lparr>sn_Snapshot = Snapshot Pm order, sn_Restore = Restore Pe Pm, sn_Apply = Apply Pe Pm\<rparr>"

definition FileStore_EnableSnapshots ::
  "WAL_Entry proto \<Rightarrow> FileMetadata proto \<Rightarrow> (files \<Rightarrow> string list) \<Rightarrow> FileStore \<Rightarrow> ret \<times> FileStore" where
  "FileStore_EnableSnapshots Pe Pm order st = EnableSnapshots Pe (file_snapshotable Pe Pm order) st"

section \<open>The snapshot format\<close>

definition meta_bytes :: "FileMetadata proto \<Rightarrow> FileMetadata \<Rightarrow> bytes" where
  "meta_bytes Pm m =
     (case Marshal Pm m of Inl e \<Rightarrow> put_uint32 0 | Inr b \<Rightarrow> put_uint32 (word_of_nat (length b)) @ b)"

definition meta_wf :: "FileMetadata proto \<Rightarrow> FileMetadata \<Rightarrow> bool" where
  "meta_wf Pm m \<longleftrightarrow> (case Marshal Pm m of Inl e \<Rightarrow> False | Inr b \<Rightarrow> length b < 2 ^ 32)"

lemma meta_wfE:
  assumes "meta_wf Pm m"
  obtains b where "Marshal Pm m = Inr b" "length b < 2 ^ 32"
    "meta_bytes Pm m = put_uint32 (word_of_nat (length b)) @ b"
  using assms by (auto simp: meta_wf_def meta_bytes_def split: sum.splits)

interpretation ml: framing proto_ok meta_wf meta_bytes read_meta
proof unfold_locales
  fix Pm m r
  assume P: "proto_ok Pm" and "meta_wf Pm m"
  then obtain b where b: "Marshal Pm m = Inr b" "length b < 2 ^ 32"
    "meta_bytes Pm m = put_uint32 (word_of_nat (length b)) @ b" by (auto elim: meta_wfE)
  with proto_okD [OF P b(1)] show "read_meta Pm (meta_bytes Pm m @ r) = Inr (m, r)"
    by (simp add: read_meta_def unat_word_of_length32)
next
  show "meta_bytes Pm m \<noteq> []" for Pm m by (simp add: meta_bytes_def split: sum.splits)
next
  show "\<exists>e. read_meta Pm [] = Inl e \<and> errors_Is e EOF" for Pm by (simp add: read_meta_def)
qed

lemma write_metas_healthy:
  assumes io: "io_writer wr ok healthy view"
  shows "list_all (meta_wf Pm) ms \<Longrightarrow> ok s \<Longrightarrow> healthy s \<Longrightarrow> berr bw = None \<Longrightarrow>
    \<exists>bw' s'. write_metas Pm wr ms bw s = (None, bw', s') \<and> ok s' \<and> healthy s' \<and> berr bw' = None \<and>
      view s' @ bbuf bw' = view s @ bbuf bw @ ml.frames Pm ms"
proof (induction ms arbitrary: bw s)
  case (Cons m ms)
  from Cons.prems(1) obtain b where b: "Marshal Pm m = Inr b"
    "meta_bytes Pm m = put_uint32 (word_of_nat (length b)) @ b" by (auto elim: meta_wfE)
  from io_writer.bufio_Write_healthy [OF io Cons.prems(2-4), of "put_uint32 (word_of_nat (length b))"]
  obtain bw1 s1 where 1: "bufio_Write wr (put_uint32 (word_of_nat (length b))) bw s = (None, bw1, s1)"
    "ok s1" "healthy s1" "berr bw1 = None" "view s1 @ bbuf bw1 = view s @ bbuf bw @ put_uint32 (word_of_nat (length b))"
    by blast
  from io_writer.bufio_Write_healthy [OF io 1(2-4), of b] obtain bw2 s2 where
    2: "bufio_Write wr b bw1 s1 = (None, bw2, s2)" "ok s2" "healthy s2" "berr bw2 = None"
    "view s2 @ bbuf bw2 = view s1 @ bbuf bw1 @ b" by blast
  from 2(5) 1(5) have "view s2 @ bbuf bw2 = view s @ bbuf bw @ meta_bytes Pm m"
    using b(2) by (metis append.assoc)
  with Cons.IH [OF _ 2(2-4)] Cons.prems(1) b(1) 1(1) 2(1) show ?case by auto
qed auto

lemma Snapshot_healthy:
  assumes io: "io_writer wr ok healthy view" and ms: "list_all (meta_wf Pm) (map (\<lambda>name. the (f name)) (order f))"
    and s: "ok s" "healthy s"
  shows "\<exists>s'. Snapshot Pm order wr f s = (None, s') \<and> ok s' \<and>
    view s' = view s @ ml.frames Pm (map (\<lambda>name. the (f name)) (order f))"
proof -
  have "berr NewWriter = None" by (simp add: NewWriter_def)
  from write_metas_healthy [OF io ms s this] obtain bw s1 where
    1: "write_metas Pm wr (map (\<lambda>name. the (f name)) (order f)) NewWriter s = (None, bw, s1)" "ok s1" "healthy s1"
    "berr bw = None" "view s1 @ bbuf bw = view s @ ml.frames Pm (map (\<lambda>name. the (f name)) (order f))"
    by (auto simp: NewWriter_def)
  from io_writer.bufio_Flush_healthy [OF io 1(2-4)] 1 show ?thesis by (auto simp: Snapshot_def)
qed

end
