(* ===== verification/Store_Recovery.thy ===== *)
theory Store_Recovery
  imports File_Store
begin

text \<open>
  What the file store promises. Abstractly it is a map, and a log entry is an update of it
  (\<open>effect\<close>); the state of the store is always that of its snapshot with the log applied. The
  file store meets the contract \<open>snapshotable\<close>, and a restart over a flushed log yields the
  state the store had.
\<close>

section \<open>Entries as updates\<close>

definition entry_op :: "FileMetadata proto \<Rightarrow> WAL_Entry \<Rightarrow> (string \<times> FileMetadata option) option" where
  "entry_op Pm e =
     (case Unmarshal Pm (Data e) of
        Inl er \<Rightarrow> None
      | Inr m \<Rightarrow> Some (fm_Name m, if GetIsDelete (Some e) then None else Some m))"

definition effect :: "FileMetadata proto \<Rightarrow> WAL_Entry \<Rightarrow> files \<Rightarrow> files" where
  "effect Pm e f = (case entry_op Pm e of None \<Rightarrow> f | Some (k, v) \<Rightarrow> f(k := v))"

fun last_op :: "FileMetadata proto \<Rightarrow> WAL_Entry list \<Rightarrow> string \<Rightarrow> FileMetadata option option" where
  "last_op Pm [] k = None"
| "last_op Pm (e # es) k =
     (case last_op Pm es k of
        Some v \<Rightarrow> Some v
      | None \<Rightarrow> (case entry_op Pm e of None \<Rightarrow> None | Some (k', v) \<Rightarrow> if k' = k then Some v else None))"

lemma fold_effect: "fold (effect Pm) es f k = (case last_op Pm es k of None \<Rightarrow> f k | Some v \<Rightarrow> v)"
  by (induction es arbitrary: f) (auto simp: effect_def split: option.splits)

lemma last_op_append: "last_op Pm (xs @ ys) k = (case last_op Pm ys k of Some v \<Rightarrow> Some v | None \<Rightarrow> last_op Pm xs k)"
  by (induction xs) (auto split: option.splits)

lemma last_op_None: "last_op Pm es k = None \<longleftrightarrow> (\<forall>e \<in> set es. \<forall>v. entry_op Pm e \<noteq> Some (k, v))"
  by (induction es) (auto split: option.splits)

text \<open>Applying a list of entries to a state that already contains them changes nothing.\<close>

lemma fold_effect_idem: "fold (effect Pm) es (fold (effect Pm) es f) = fold (effect Pm) es f"
  by (rule ext) (simp add: fold_effect split: option.splits)

lemma fold_effect_deletes:
  "\<forall>x \<in> set es. \<exists>k. entry_op Pm x = Some (k, None) \<Longrightarrow> x \<in> set es \<Longrightarrow> entry_op Pm x = Some (k, None) \<Longrightarrow>
   fold (effect Pm) es g k = None"
proof -
  have absent: "fold (effect Pm) es g k = None" if "\<forall>x \<in> set es. \<exists>k. entry_op Pm x = Some (k, None)" "g k = None" for es g
    using that by (induction es arbitrary: g) (auto simp: effect_def)
  show "\<forall>x \<in> set es. \<exists>k. entry_op Pm x = Some (k, None) \<Longrightarrow> x \<in> set es \<Longrightarrow> entry_op Pm x = Some (k, None) \<Longrightarrow>
    fold (effect Pm) es g k = None"
  proof (induction es arbitrary: g)
    case (Cons y es)
    show ?case
    proof (cases "y = x")
      case True
      then have "effect Pm y g k = None" using Cons.prems(3) by (simp add: effect_def)
      with absent [of es] Cons.prems(1) show ?thesis by simp
    next
      case False
      with Cons.IH [of "effect Pm y g"] Cons.prems show ?thesis by simp
    qed
  qed simp
qed

section \<open>The invariant of the map\<close>

definition store_ok :: "FileMetadata proto \<Rightarrow> files \<Rightarrow> bool" where
  "store_ok Pm f \<longleftrightarrow> finite (dom f) \<and> (\<forall>k m. f k = Some m \<longrightarrow> fm_Name m = k \<and> meta_wf Pm m)"

definition entry_meta_ok :: "FileMetadata proto \<Rightarrow> WAL_Entry \<Rightarrow> bool" where
  "entry_meta_ok Pm e \<longleftrightarrow> (case Unmarshal Pm (Data e) of Inl er \<Rightarrow> False | Inr m \<Rightarrow> meta_wf Pm m)"

lemma store_ok_empty [simp]: "store_ok Pm Map.empty"
  by (simp add: store_ok_def)

lemma store_ok_put: "store_ok Pm f \<Longrightarrow> meta_wf Pm m \<Longrightarrow> store_ok Pm (f(fm_Name m \<mapsto> m))"
  by (simp add: store_ok_def)

lemma store_ok_delete: "store_ok Pm f \<Longrightarrow> store_ok Pm (f(k := None))"
  by (auto simp: store_ok_def dom_fun_upd split: if_splits)

lemma store_ok_effect: "store_ok Pm f \<Longrightarrow> entry_meta_ok Pm e \<Longrightarrow> store_ok Pm (effect Pm e f)"
  by (auto simp: effect_def entry_op_def entry_meta_ok_def store_ok_put store_ok_delete split: sum.splits)

section \<open>Snapshot images\<close>

definition put_meta :: "FileMetadata \<Rightarrow> files \<Rightarrow> files" where
  "put_meta m f = f(fm_Name m \<mapsto> m)"

definition image :: "FileMetadata proto \<Rightarrow> files \<Rightarrow> bytes \<Rightarrow> bool" where
  "image Pm f b \<longleftrightarrow> proto_ok Pm \<and> store_ok Pm f \<and>
     (\<exists>ks. distinct ks \<and> set ks = dom f \<and> b = ml.frames Pm (map (\<lambda>k. the (f k)) ks))"

lemma Restore_frames:
  assumes P: "proto_ok Pm"
  shows "list_all (meta_wf Pm) ms \<Longrightarrow>
    Restore Pe Pm (ml.frames Pm ms) (f, w) = (Return None, (fold put_meta ms f, w))"
proof (induction ms arbitrary: f)
  case Nil
  show ?case by (simp add: Restore.simps [of Pe Pm "[]"] read_meta_def)
next
  case (Cons m ms)
  then obtain b where "Marshal Pm m = Inr b" by (auto elim: meta_wfE)
  then have "AddFileMetadata Pe Pm m False (f, w) = (Return None, (put_meta m f, w))"
    by (simp add: AddFileMetadata_def put_meta_def GetName_def)
  moreover have "read_meta Pm (ml.frames Pm (m # ms)) = Inr (m, ml.frames Pm ms)"
    using ml.get_frames [OF P, of m ms "[]"] Cons.prems by simp
  ultimately show ?case using Cons
    by (simp add: Restore.simps [of Pe Pm "ml.frames Pm (m # ms)"] del: ml.frames_simps)
qed

lemma fold_put_meta:
  assumes "\<And>k m. f k = Some m \<Longrightarrow> fm_Name m = k"
  shows "set ks \<subseteq> dom f \<Longrightarrow> fold put_meta (map (\<lambda>k. the (f k)) ks) g = (\<lambda>k. if k \<in> set ks then f k else g k)"
proof (induction ks arbitrary: g)
  case (Cons k ks)
  then obtain m where m: "f k = Some m" by auto
  with assms have "put_meta (the (f k)) g = g(k \<mapsto> m)" by (simp add: put_meta_def)
  with Cons m show ?case by (auto simp: fun_eq_iff)
qed simp

lemma Restore_image: "image Pm f b \<Longrightarrow> Restore Pe Pm b (Map.empty, w) = (Return None, (f, w))"
proof -
  assume "image Pm f b"
  then obtain ks where ks: "set ks = dom f" "b = ml.frames Pm (map (\<lambda>k. the (f k)) ks)"
    and P: "proto_ok Pm" and f: "store_ok Pm f" by (auto simp: image_def)
  have "list_all (meta_wf Pm) (map (\<lambda>k. the (f k)) ks)"
    using f ks(1) by (force simp: list_all_iff store_ok_def)
  from Restore_frames [OF P this] ks f fold_put_meta [of f ks Map.empty] show ?thesis
    by (auto simp: store_ok_def fun_eq_iff)
qed

section \<open>Replaying\<close>

definition meta_fits :: "WAL_Entry proto \<Rightarrow> FileMetadata proto \<Rightarrow> u64 \<Rightarrow> FileMetadata \<Rightarrow> bool" where
  "meta_fits Pe Pm mx m \<longleftrightarrow>
     (case Marshal Pm m of
        Inl e \<Rightarrow> False
      | Inr b \<Rightarrow> \<forall>n del. (case Marshal Pe (new_entry n b del) of
                          Inl e \<Rightarrow> False | Inr x \<Rightarrow> length x + 4 < unat mx \<and> length x < 2 ^ 32))"

text \<open>
  When the entries \<open>es\<close> can be applied to a store: they decode, and the log has room for the
  entries that replayed deletions append to it.
\<close>

definition replay_ready :: "WAL_Entry proto \<Rightarrow> FileMetadata proto \<Rightarrow> WAL_Entry list \<Rightarrow> FileStore \<Rightarrow> bool" where
  "replay_ready Pe Pm es st \<longleftrightarrow>
     proto_ok Pe \<and> proto_ok Pm \<and> (\<exists>lo closed cur. wal_rep Pe (snd st) lo closed cur) \<and> \<not> w_cancelled (snd st) \<and>
     unat (w_lastSequenceNo (snd st)) + length es < 2 ^ 64 \<and>
     unat (w_lastSegmentNo (snd st)) + length es < 2 ^ 63 \<and> store_ok Pm (fst st) \<and>
     (\<forall>m \<in> ran (fst st). meta_fits Pe Pm (w_maxSegmentSize (snd st)) m) \<and>
     (\<forall>e \<in> set es. entry_meta_ok Pm e \<and>
        (\<forall>m. Unmarshal Pm (Data e) = Inr m \<longrightarrow> meta_fits Pe Pm (w_maxSegmentSize (snd st)) m))"

lemma meta_fits_can_append:
  assumes "meta_fits Pe Pm (w_maxSegmentSize w) m" "Marshal Pm m = Inr b"
    "unat (w_lastSequenceNo w) + 1 < 2 ^ 64" "unat (w_lastSegmentNo w) + 1 < 2 ^ 63"
  shows "can_append Pe b del w"
  using assms by (auto simp: meta_fits_def can_append_def split: sum.splits)

lemma ran_update_subset: "ran (f(k := v)) \<subseteq> insert (the v) (ran f)"
  by (auto simp: ran_def)

lemma ran_delete_subset: "ran (f(k := None)) \<subseteq> ran f"
  by (auto simp: ran_def)

text \<open>
  One entry. A deletion of a name that is present is appended to the log once more; every other
  entry leaves the log alone.
\<close>

definition replays_delete :: "FileMetadata proto \<Rightarrow> WAL_Entry \<Rightarrow> files \<Rightarrow> string \<Rightarrow> bool" where
  "replays_delete Pm e f k \<longleftrightarrow> entry_op Pm e = Some (k, None) \<and> f k \<noteq> None"

lemma delete_entry_op:
  assumes "proto_ok Pm" "Marshal Pm m = Inr b"
  shows "entry_op Pm (new_entry n b True) = Some (fm_Name m, None)"
    "entry_op Pm (new_entry n b False) = Some (fm_Name m, Some m)"
  using proto_okD [OF assms] by (simp_all add: entry_op_def new_entry_def GetIsDelete_def)

lemma Apply_delete:
  assumes r: "replay_ready Pe Pm (e # es) (f, w)" and rep: "wal_rep Pe w lo closed cur" and d: "replays_delete Pm e f k"
  shows "\<exists>w' lo' closed' cur' dropped x. Apply Pe Pm e (f, w) = (Return None, (effect Pm e f, w')) \<and>
    replay_ready Pe Pm es (effect Pm e f, w') \<and> wal_rep Pe w' lo' closed' cur' \<and> flushed w' \<and>
    w_lastSnapshot w' = w_lastSnapshot w \<and> same_config w w' \<and> entry_op Pm x = Some (k, None) \<and>
    LogSequenceNo x = w_lastSequenceNo w + 1 \<and>
    (concat closed @ cur) @ [x] = dropped @ (concat closed' @ cur') \<and>
    (\<forall>y \<in> set dropped. LogSequenceNo y \<le> w_lastSnapshot w)"
proof -
  from r have P: "proto_ok Pe" "proto_ok Pm" and run: "\<not> w_cancelled w" and f: "store_ok Pm f"
    and fits: "\<forall>m \<in> ran f. meta_fits Pe Pm (w_maxSegmentSize w) m" and e: "entry_meta_ok Pm e"
    by (auto simp: replay_ready_def)
  from d obtain m m0 where m: "Unmarshal Pm (Data e) = Inr m" "GetIsDelete (Some e)" "fm_Name m = k" and m0: "f k = Some m0"
    by (auto simp: replays_delete_def entry_op_def split: sum.splits if_splits)
  then have eff: "effect Pm e f = f(k := None)" by (simp add: effect_def entry_op_def)
  from f m0 have wf: "meta_wf Pm m0" and name: "fm_Name m0 = k" by (auto simp: store_ok_def)
  then obtain b where b: "Marshal Pm m0 = Inr b" by (auto elim: meta_wfE)
  have "meta_fits Pe Pm (w_maxSegmentSize w) m0" using fits m0 by (auto simp: ran_def)
  from meta_fits_can_append [OF this b, of True] r have "can_append Pe b True w" by (simp add: replay_ready_def)
  from AppendEntry_wait_rep [OF P(1) rep this run] obtain w' lo' closed' cur' dropped where
    w': "AppendEntry_wait Pe b True w = (Return None, w')" "wal_rep Pe w' lo' closed' cur'" "flushed w'"
    "(concat closed @ cur) @ [new_entry (w_lastSequenceNo w + 1) b True] = dropped @ (concat closed' @ cur')"
    "\<forall>y \<in> set dropped. LogSequenceNo y \<le> w_lastSnapshot w"
    "w_lastSequenceNo w' = w_lastSequenceNo w + 1" "w_lastSnapshot w' = w_lastSnapshot w" "same_config w w'"
    "unat (w_lastSegmentNo w') \<le> unat (w_lastSegmentNo w) + 1" by blast
  have a: "Apply Pe Pm e (f, w) = (Return None, (effect Pm e f, w'))"
    using m m0 b w'(1) eff by (simp add: Apply_def DeleteFileMetadata_def GetData_def GetName_def)
  have "unat (w_lastSequenceNo w') \<le> unat (w_lastSequenceNo w) + 1"
    by (simp add: w'(6) unat_word_ariths)
  then have "replay_ready Pe Pm es (effect Pm e f, w')"
    using r store_ok_effect [OF f e] w'(2,8,9) ran_delete_subset [of f k]
    by (auto simp: replay_ready_def eff same_config_def simp del: fun_upd_apply)
  moreover have "LogSequenceNo (new_entry (w_lastSequenceNo w + 1) b True) = w_lastSequenceNo w + 1"
    by (simp add: new_entry_def)
  ultimately show ?thesis using a w'(2-5,7,8) delete_entry_op(1) [OF P(2) b] name
    by (intro exI [of _ w'] exI [of _ lo'] exI [of _ closed'] exI [of _ cur'] exI [of _ dropped]
        exI [of _ "new_entry (w_lastSequenceNo w + 1) b True"]) simp
qed

lemma Apply_other:
  assumes r: "replay_ready Pe Pm (e # es) (f, w)" and n: "\<not> (\<exists>k. replays_delete Pm e f k)"
  shows "Apply Pe Pm e (f, w) = (Return None, (effect Pm e f, w)) \<and> replay_ready Pe Pm es (effect Pm e f, w)"
proof -
  from r have f: "store_ok Pm f" and e: "entry_meta_ok Pm e" by (auto simp: replay_ready_def)
  from e obtain m where m: "Unmarshal Pm (Data e) = Inr m" "meta_wf Pm m"
    by (auto simp: entry_meta_ok_def split: sum.splits)
  show ?thesis
  proof (cases "GetIsDelete (Some e)")
    case False
    then have eff: "effect Pm e f = f(fm_Name m \<mapsto> m)" using m(1) by (simp add: effect_def entry_op_def)
    have "Apply Pe Pm e (f, w) = (Return None, (effect Pm e f, w))"
      using False m eff by (auto simp: Apply_def AddFileMetadata_def GetData_def GetName_def elim: meta_wfE)
    moreover have "replay_ready Pe Pm es (effect Pm e f, w)"
      using r store_ok_effect [OF f e] m(1) ran_update_subset [of f "fm_Name m" "Some m"] eff
      by (auto simp: replay_ready_def simp del: fun_upd_apply)
    ultimately show ?thesis by blast
  next
    case True
    with n m(1) have k: "f (fm_Name m) = None" by (auto simp: replays_delete_def entry_op_def)
    with True m(1) have eff: "effect Pm e f = f" by (auto simp: effect_def entry_op_def fun_eq_iff)
    have "Apply Pe Pm e (f, w) = (Return None, (effect Pm e f, w))"
      using True k m eff by (simp add: Apply_def DeleteFileMetadata_def GetData_def GetName_def)
    with r eff show ?thesis by (auto simp: replay_ready_def)
  qed
qed

lemma Apply_ready:
  assumes r: "replay_ready Pe Pm (e # es) (f, w)"
  shows "\<exists>w'. Apply Pe Pm e (f, w) = (Return None, (effect Pm e f, w')) \<and> replay_ready Pe Pm es (effect Pm e f, w')"
proof (cases "\<exists>k. replays_delete Pm e f k")
  case True
  then obtain k where k: "replays_delete Pm e f k" by blast
  from r obtain lo closed cur where "wal_rep Pe w lo closed cur" by (auto simp: replay_ready_def)
  from Apply_delete [OF r this k] show ?thesis by blast
qed (use Apply_other [OF r] in blast)

interpretation fst: snapshotable "file_snapshotable Pe Pm order"
  "\<lambda>f. proto_ok Pm \<and> order_ok order \<and> store_ok Pm f" "image Pm" "Map.empty" "effect Pm" "replay_ready Pe Pm"
  for Pe Pm order
proof unfold_locales
  fix f nm and ok healthy :: "nat \<times> fs \<Rightarrow> bool" and view h
  assume s: "proto_ok Pm \<and> order_ok order \<and> store_ok Pm f" and io: "io_writer (file_Write nm) ok healthy view"
    and h: "ok h" "healthy h"
  let ?ms = "map (\<lambda>name. the (f name)) (order f)"
  from s have o: "distinct (order f)" "set (order f) = dom f" by (auto simp: order_ok_def store_ok_def)
  with s have wf: "list_all (meta_wf Pm) ?ms" by (force simp: list_all_iff store_ok_def)
  from o s have "image Pm f (ml.frames Pm ?ms)" by (auto simp: image_def)
  with Snapshot_healthy [where f = f and order = order, OF io wf h] show "\<exists>h' b. sn_Snapshot (file_snapshotable Pe Pm order) (file_Write nm) f h = (None, h') \<and>
      ok h' \<and> view h' = view h @ b \<and> image Pm f b" by (auto simp: file_snapshotable_def)
qed (auto simp: file_snapshotable_def Restore_image intro: Apply_ready)

end
