(* ===== verification/Store_Replay.thy ===== *)
theory Store_Replay
  imports Store_Recovery
begin

text \<open>
  A map against a snapshot and a log: \<open>replays snap n log f\<close> says that \<open>f\<close> is the snapshot state
  \<open>snap\<close> with the entries of \<open>log\<close> later than \<open>n\<close> applied, and that \<open>snap\<close> already has what the others
  say of every name that no later one changes. Of the other names \<open>snap\<close> may have any value, since a
  snapshot is written while the map goes on changing. Below: replaying the whole log gives \<open>f\<close> as
  well, and what new entries, new snapshots and the removal of old segments do to the relation.
\<close>

section \<open>Logs in order\<close>

abbreviation ordered :: "WAL_Entry list \<Rightarrow> bool" where
  "ordered \<equiv> sorted_wrt (\<lambda>x y. LogSequenceNo x < LogSequenceNo y)"

abbreviation up_to :: "u64 \<Rightarrow> WAL_Entry list \<Rightarrow> WAL_Entry list" where
  "up_to n \<equiv> filter (\<lambda>e. LogSequenceNo e \<le> n)"

abbreviation after :: "u64 \<Rightarrow> WAL_Entry list \<Rightarrow> WAL_Entry list" where
  "after n \<equiv> filter (\<lambda>e. n < LogSequenceNo e)"

lemma numbered_ordered: "numbered n es \<Longrightarrow> ordered es"
proof -
  assume "numbered n es"
  then have "sorted_wrt (<) (map (\<lambda>e. unat (LogSequenceNo e)) es)" by (simp only: numbered_def sorted_wrt_upt)
  then show ?thesis by (simp add: sorted_wrt_map word_less_nat_alt)
qed

lemma ordered_split: "ordered es \<Longrightarrow> up_to n es @ after n es = es"
proof (induction es)
  case (Cons x es)
  show ?case
  proof (cases "LogSequenceNo x \<le> n")
    case False
    with Cons.prems have "\<forall>e \<in> set es. n < LogSequenceNo e" by auto
    with False show ?thesis by (auto simp: filter_empty_conv)
  qed (use Cons in auto)
qed simp

lemma ordered_unique: "ordered es \<Longrightarrow> x \<in> set es \<Longrightarrow> y \<in> set es \<Longrightarrow> LogSequenceNo x = LogSequenceNo y \<Longrightarrow> x = y"
  by (induction es) auto

section \<open>Replaying a log over a snapshot\<close>

definition replays :: "FileMetadata proto \<Rightarrow> files \<Rightarrow> u64 \<Rightarrow> WAL_Entry list \<Rightarrow> files \<Rightarrow> bool" where
  "replays Pm snap n log f \<longleftrightarrow> f = fold (effect Pm) (after n log) snap \<and>
     (\<forall>k v. last_op Pm (up_to n log) k = Some v \<longrightarrow> last_op Pm (after n log) k = None \<longrightarrow> snap k = v)"

lemma replays_all:
  assumes "replays Pm snap n log f" "ordered log"
  shows "fold (effect Pm) log snap = f"
proof -
  have "fold (effect Pm) (up_to n log @ after n log) snap = f"
    by (rule ext) (use assms(1) in \<open>auto simp: replays_def fold_effect last_op_append simp del: fold_append split: option.splits\<close>)
  then show ?thesis by (simp only: ordered_split [OF assms(2)])
qed

lemma replays_start: "\<forall>e \<in> set log. n < LogSequenceNo e \<Longrightarrow> replays Pm snap n log (fold (effect Pm) log snap)"
proof -
  assume a: "\<forall>e \<in> set log. n < LogSequenceNo e"
  then have "after n log = log" "up_to n log = []" by (auto simp: filter_empty_conv filter_id_conv not_le)
  then show ?thesis by (simp add: replays_def)
qed

lemma replays_snoc:
  assumes "replays Pm snap n log f" "n < LogSequenceNo e"
  shows "replays Pm snap n (log @ [e]) (effect Pm e f)"
  using assms by (auto simp: replays_def last_op_append split: option.splits)

text \<open>An entry may also turn up in front of entries about other names.\<close>

lemma effect_swap: "entry_op Pm e = Some (k, v) \<Longrightarrow> (\<forall>x \<in> set ys. \<forall>u. entry_op Pm x \<noteq> Some (k, u)) \<Longrightarrow>
  fold (effect Pm) ys (effect Pm e f) = effect Pm e (fold (effect Pm) ys f)"
proof (induction ys arbitrary: f)
  case (Cons y ys)
  then have "effect Pm y (effect Pm e f) = effect Pm e (effect Pm y f)"
    by (auto simp: effect_def fun_upd_twist split: option.splits)
  with Cons show ?case by simp
qed simp

lemma replays_insert:
  assumes "replays Pm snap n (xs @ ys) f" "n < LogSequenceNo e" "entry_op Pm e = Some (k, v)"
    and "\<forall>x \<in> set ys. \<forall>u. entry_op Pm x \<noteq> Some (k, u)" "ordered (xs @ e # ys)"
  shows "replays Pm snap n (xs @ e # ys) (effect Pm e f)"
proof -
  have ys: "\<forall>y \<in> set ys. n < LogSequenceNo y" using assms(2,5) by (auto simp: sorted_wrt_append)
  then have "after n ys = ys" "up_to n ys = []" by (auto simp: filter_empty_conv filter_id_conv not_le)
  with assms(1-4) show ?thesis
    by (auto simp: replays_def effect_swap last_op_append split: option.splits)
qed

text \<open>The removal of entries that the snapshot covers.\<close>

lemma replays_drop:
  assumes "replays Pm snap n (dropped @ log) f" "\<forall>e \<in> set dropped. LogSequenceNo e \<le> n"
  shows "replays Pm snap n log f"
proof -
  have "after n dropped = []" using assms(2) by (auto simp: filter_empty_conv not_less)
  with assms(1) show ?thesis by (auto simp: replays_def last_op_append split: option.splits)
qed

text \<open>
  A new snapshot with the number \<open>n\<close> may differ from the map on the names that later entries are
  about.
\<close>

lemma replays_snapshot:
  assumes r: "replays Pm snap m log f" and o: "ordered log"
    and g: "\<And>k. \<forall>e \<in> set log. n < LogSequenceNo e \<longrightarrow> (\<forall>v. entry_op Pm e \<noteq> Some (k, v)) \<Longrightarrow> g k = f k"
  shows "replays Pm g n log f"
proof -
  have f: "f = fold (effect Pm) (up_to n log @ after n log) snap"
    using replays_all [OF r o] by (simp only: ordered_split [OF o])
  have same: "g k = f k" if "last_op Pm (after n log) k = None" for k
    using that by (intro g) (auto simp: last_op_None)
  have val: "f k = (case last_op Pm (after n log) k of Some v \<Rightarrow> v
      | None \<Rightarrow> (case last_op Pm (up_to n log) k of Some v \<Rightarrow> v | None \<Rightarrow> snap k))" for k
    unfolding f by (simp only: fold_effect last_op_append split: option.splits) simp
  have "f = fold (effect Pm) (after n log) g"
    by (rule ext) (use same val in \<open>auto simp: fold_effect split: option.splits\<close>)
  moreover have "g k = v" if "last_op Pm (up_to n log) k = Some v" "last_op Pm (after n log) k = None" for k v
    using same [OF that(2)] val [of k] that by simp
  ultimately show ?thesis by (simp add: replays_def)
qed

end
