(* ===== verification/Store_System.thy ===== *)
theory Store_System
  imports Store_Replay
begin

text \<open>
  The file store over its life: the invariant that ties the map to the snapshot and the log, and
  what adding, deleting, a snapshot and a restart do to it.
\<close>

section \<open>The invariant\<close>

text \<open>
  The log is one that the directory and the buffer hold, its entries are about records that the
  codec reads, and the map is what the last snapshot and the log make.
\<close>

definition store_inv ::
  "WAL_Entry proto \<Rightarrow> FileMetadata proto \<Rightarrow> files \<Rightarrow> FileStore \<Rightarrow> nat \<Rightarrow> WAL_Entry list list \<Rightarrow> WAL_Entry list \<Rightarrow> bool"
  where
  "store_inv Pe Pm snap st lo closed cur \<longleftrightarrow>
     wal_rep Pe (snd st) lo closed cur \<and> store_ok Pm (fst st) \<and> list_all (entry_meta_ok Pm) (concat closed @ cur) \<and>
     replays Pm snap (w_lastSnapshot (snd st)) (concat closed @ cur) (fst st)"

lemma wal_rep_numbered: "wal_rep P w lo closed cur \<Longrightarrow> numbered (w_lastSequenceNo w) (concat closed @ cur)"
  by (simp add: wal_rep_def)

lemmas wal_rep_ordered = numbered_ordered [OF wal_rep_numbered]

text \<open>Replaying the whole log over the snapshot state gives the map.\<close>

lemma store_inv_replay: "store_inv Pe Pm snap (f, w) lo closed cur \<Longrightarrow> fold (effect Pm) (concat closed @ cur) snap = f"
  by (auto simp: store_inv_def simp del: fold_append intro!: replays_all dest: wal_rep_ordered)

lemma store_inv_step:
  assumes inv: "store_inv Pe Pm snap (f, w) lo closed cur"
    and rep: "wal_rep Pe w' lo' closed' cur'" and snap: "w_lastSnapshot w' = w_lastSnapshot w"
    and log: "(concat closed @ cur) @ [e] = dropped @ (concat closed' @ cur')"
    and cov: "\<forall>x \<in> set dropped. LogSequenceNo x \<le> w_lastSnapshot w"
    and new: "w_lastSnapshot w < LogSequenceNo e" and e: "entry_meta_ok Pm e"
  shows "store_inv Pe Pm snap (effect Pm e f, w') lo' closed' cur'"
proof -
  let ?log = "concat closed @ cur" and ?log' = "concat closed' @ cur'"
  from inv have "replays Pm snap (w_lastSnapshot w) ?log f" by (simp add: store_inv_def)
  from replays_snoc [OF this new] have "replays Pm snap (w_lastSnapshot w) (dropped @ ?log') (effect Pm e f)"
    unfolding log .
  from replays_drop [OF this cov] have "replays Pm snap (w_lastSnapshot w) ?log' (effect Pm e f)" .
  moreover have "list_all (entry_meta_ok Pm) (?log @ [e])" using inv e by (simp add: store_inv_def)
  then have "list_all (entry_meta_ok Pm) ?log'" unfolding log by simp
  moreover have "store_ok Pm (effect Pm e f)" using inv e by (simp add: store_inv_def store_ok_effect)
  ultimately show ?thesis using rep snap by (simp add: store_inv_def)
qed

text \<open>Before the first snapshot of a run the whole log counts as later than it.\<close>

lemma store_inv_no_snapshot:
  assumes rep: "wal_rep Pe w lo closed cur" and "w_lastSnapshot w = 0" "store_ok Pm f"
    and "list_all (entry_meta_ok Pm) (concat closed @ cur)" "fold (effect Pm) (concat closed @ cur) snap = f"
  shows "store_inv Pe Pm snap (f, w) lo closed cur"
proof -
  have "\<forall>e \<in> set (concat closed @ cur). w_lastSnapshot w < LogSequenceNo e"
    using numbered_pos [OF wal_rep_numbered [OF rep]] assms(2) by auto
  from replays_start [OF this] assms show ?thesis unfolding store_inv_def fst_conv snd_conv by metis
qed

text \<open>A snapshot \<open>g\<close> with the number \<open>n\<close>, after which the segments of \<open>dropped\<close> are gone.\<close>

lemma store_inv_snapshot:
  assumes inv: "store_inv Pe Pm snap (f, w) lo closed cur" and rep: "wal_rep Pe w' lo' closed' cur"
    and log: "concat closed = dropped @ concat closed'" "\<forall>e \<in> set dropped. LogSequenceNo e \<le> n"
    and n: "w_lastSnapshot w' = n"
    and g: "\<And>k. \<forall>e \<in> set (concat closed @ cur). n < LogSequenceNo e \<longrightarrow> (\<forall>v. entry_op Pm e \<noteq> Some (k, v)) \<Longrightarrow> g k = f k"
  shows "store_inv Pe Pm g (f, w') lo' closed' cur"
proof -
  from inv have "replays Pm snap (w_lastSnapshot w) (concat closed @ cur) f" "ordered (concat closed @ cur)"
    by (auto simp: store_inv_def dest: wal_rep_ordered)
  from replays_snapshot [OF this g] have "replays Pm g n (dropped @ (concat closed' @ cur)) f" by (simp add: log(1))
  from replays_drop [OF this log(2)] inv rep n log(1) show ?thesis by (simp add: store_inv_def)
qed

section \<open>Adding and deleting\<close>

text \<open>Room in the log for one more entry.\<close>

definition log_room :: "WAL \<Rightarrow> nat \<Rightarrow> bool" where
  "log_room w k \<longleftrightarrow> unat (w_lastSequenceNo w) + k < 2 ^ 64 \<and> unat (w_lastSegmentNo w) + k < 2 ^ 63 \<and> \<not> w_cancelled w"

lemma store_inv_flush:
  assumes "store_inv Pe Pm snap (f, w) lo closed cur"
  shows "\<exists>w'. flush w = (None, w') \<and> store_inv Pe Pm snap (f, w') lo closed cur \<and> flushed w' \<and>
    w_flushDone w' = w_flushDone w + 1 \<and> same_config w w' \<and> (\<forall>k. log_room w k \<longrightarrow> log_room w' k) \<and>
    w_lastSequenceNo w' = w_lastSequenceNo w \<and> w_lastSnapshot w' = w_lastSnapshot w \<and>
    (\<forall>x \<in> set (concat closed @ cur). durable Pe w' lo closed cur x)"
proof -
  from assms have "wal_rep Pe w lo closed cur" by (simp add: store_inv_def)
  from flush_wal_rep [OF this] obtain w' where w': "flush w = (None, w')" "wal_rep Pe w' lo closed cur" "flushed w'"
    "w_flushDone w' = w_flushDone w + 1" "w_lastSequenceNo w' = w_lastSequenceNo w"
    "w_lastSegmentNo w' = w_lastSegmentNo w" "w_lastSnapshot w' = w_lastSnapshot w" "same_config w w'"
    "\<forall>x \<in> set (concat closed @ cur). durable Pe w' lo closed cur x" by blast
  with assms show ?thesis by (auto simp: store_inv_def log_room_def same_config_def)
qed

text \<open>What an append leaves of the rest of the log.\<close>

definition log_grows where
  "log_grows P w lo closed cur w' lo' closed' cur' dropped e \<longleftrightarrow>
     (\<forall>x \<in> set dropped. LogSequenceNo x \<le> w_lastSnapshot w) \<and> w_lastSnapshot w' = w_lastSnapshot w \<and>
     w_lastSequenceNo w < LogSequenceNo e \<and> w_lastSequenceNo w < w_lastSequenceNo w' \<and>
     (\<forall>n k. n \<le> w_lastSequenceNo w \<longrightarrow> snap_point n k lo closed cur \<longrightarrow> snap_point n k lo' closed' cur') \<and>
     still_durable P w lo closed cur w' lo' closed' cur' e"

text \<open>The append itself, up to the point where the caller waits for the flush.\<close>

lemma store_started:
  assumes P: "proto_ok Pe" "proto_ok Pm" and inv: "store_inv Pe Pm snap (f, w) lo closed cur"
    and m: "meta_wf Pm m" "Marshal Pm m = Inr b" "meta_fits Pe Pm (w_maxSegmentSize w) m" and room: "log_room w 1"
  shows "\<exists>w' lo' closed' cur' dropped e. AppendEntry Pe b del w = (Inr (w_flushDone w'), w') \<and>
    store_inv Pe Pm snap (if del then f(fm_Name m := None) else f(fm_Name m \<mapsto> m), w') lo' closed' cur' \<and>
    e = new_entry (w_lastSequenceNo w + 1) b del \<and> e \<in> set cur' \<and>
    (concat closed @ cur) @ [e] = dropped @ (concat closed' @ cur') \<and>
    entry_op Pm e = Some (fm_Name m, if del then None else Some m) \<and> w_lastSequenceNo w' = w_lastSequenceNo w + 1 \<and>
    w_flushDone w \<le> w_flushDone w' \<and> same_config w w' \<and> (\<forall>k. log_room w (Suc k) \<longrightarrow> log_room w' k) \<and>
    log_grows Pe w lo closed cur w' lo' closed' cur' dropped e"
proof -
  let ?e = "new_entry (w_lastSequenceNo w + 1) b del"
  from inv have rep: "wal_rep Pe w lo closed cur" by (simp add: store_inv_def)
  from room have u: "unat (w_lastSequenceNo w) + 1 < 2 ^ 64" by (simp add: log_room_def)
  from meta_fits_can_append [OF m(3,2), of del] room have "can_append Pe b del w" by (simp add: log_room_def)
  from append_wal_rep [OF P(1) rep this] obtain w' lo' closed' cur' dropped where
    w': "appendEntry Pe b del w = (None, w')" "wal_rep Pe w' lo' closed' cur'"
    "(concat closed @ cur) @ [?e] = dropped @ (concat closed' @ cur')"
    "\<forall>y \<in> set dropped. LogSequenceNo y \<le> w_lastSnapshot w" "w_lastSnapshot w' = w_lastSnapshot w"
    "?e \<in> set cur'" "w_lastSequenceNo w' = w_lastSequenceNo w + 1" "same_config w w'"
    "unat (w_lastSegmentNo w') \<le> unat (w_lastSegmentNo w) + 1" "log_kept Pe w lo closed cur w' lo' closed' cur'"
    "\<forall>n k. n \<le> w_lastSequenceNo w \<longrightarrow> snap_point n k lo closed cur \<longrightarrow> snap_point n k lo' closed' cur'"
    "still_durable Pe w lo closed cur w' lo' closed' cur' ?e" by blast
  have seq: "unat (w_lastSequenceNo w') = unat (w_lastSequenceNo w) + 1"
    using w'(7) u by (simp add: unat_word_ariths)
  have mono: "w_flushDone w \<le> w_flushDone w'" using w'(10) unfolding log_kept_def by blast
  have kept: "\<forall>k. log_room w (Suc k) \<longrightarrow> log_room w' k"
    using w'(8,9) seq by (auto simp: log_room_def same_config_def)
  have op: "entry_op Pm ?e = Some (fm_Name m, if del then None else Some m)"
    using delete_entry_op [OF P(2) m(2)] by (cases del) simp_all
  have le: "w_lastSnapshot w \<le> w_lastSequenceNo w" using rep by (simp add: wal_rep_def)
  have lt: "w_lastSequenceNo w < LogSequenceNo ?e" "w_lastSequenceNo w < w_lastSequenceNo w'"
    using u seq by (simp_all add: new_entry_def word_less_nat_alt unat_word_ariths)
  have grows: "log_grows Pe w lo closed cur w' lo' closed' cur' dropped ?e"
    unfolding log_grows_def by (intro conjI w'(4,5,11,12) lt)
  from le lt(1) have "w_lastSnapshot w < LogSequenceNo ?e" by (rule order_le_less_trans)
  moreover have "entry_meta_ok Pm ?e"
    using proto_okD [OF P(2) m(2)] m(1) by (simp add: entry_meta_ok_def new_entry_def)
  ultimately have "store_inv Pe Pm snap (effect Pm ?e f, w') lo' closed' cur'"
    by (rule store_inv_step [OF inv w'(2,5,3,4)])
  moreover have "effect Pm ?e f = (if del then f(fm_Name m := None) else f(fm_Name m \<mapsto> m))"
    by (simp add: effect_def op)
  ultimately have "store_inv Pe Pm snap (if del then f(fm_Name m := None) else f(fm_Name m \<mapsto> m), w') lo' closed' cur'"
    by simp
  moreover have "AppendEntry Pe b del w = (Inr (w_flushDone w'), w')" using w'(1) by (simp add: AppendEntry_def)
  ultimately show ?thesis using w'(3,6-8) op kept mono grows by blast
qed

lemma store_append:
  assumes P: "proto_ok Pe" "proto_ok Pm" and inv: "store_inv Pe Pm snap (f, w) lo closed cur"
    and m: "meta_wf Pm m" "Marshal Pm m = Inr b" "meta_fits Pe Pm (w_maxSegmentSize w) m" and room: "log_room w 1"
  shows "\<exists>w' lo' closed' cur' e. AppendEntry_wait Pe b del w = (Return None, w') \<and>
    store_inv Pe Pm snap (if del then f(fm_Name m := None) else f(fm_Name m \<mapsto> m), w') lo' closed' cur' \<and> flushed w' \<and>
    durable Pe w' lo' closed' cur' e \<and> entry_op Pm e = Some (fm_Name m, if del then None else Some m) \<and>
    w_maxSegmentSize w' = w_maxSegmentSize w \<and> (\<forall>k. log_room w (Suc k) \<longrightarrow> log_room w' k)"
proof -
  from store_started [OF assms, of del] obtain w1 lo' closed' cur' e where
    w1: "AppendEntry Pe b del w = (Inr (w_flushDone w1), w1)"
    "store_inv Pe Pm snap (if del then f(fm_Name m := None) else f(fm_Name m \<mapsto> m), w1) lo' closed' cur'"
    "e \<in> set cur'" "entry_op Pm e = Some (fm_Name m, if del then None else Some m)"
    "same_config w w1" "\<forall>k. log_room w (Suc k) \<longrightarrow> log_room w1 k" by blast
  from store_inv_flush [OF w1(2)] obtain w2 where
    w2: "flush w1 = (None, w2)" "w_flushDone w2 = w_flushDone w1 + 1" "flushed w2"
    "store_inv Pe Pm snap (if del then f(fm_Name m := None) else f(fm_Name m \<mapsto> m), w2) lo' closed' cur'"
    "same_config w1 w2" "\<forall>k. log_room w1 k \<longrightarrow> log_room w2 k" "durable Pe w2 lo' closed' cur' e"
    using w1(3) by auto
  have "\<not> w_cancelled w1" using room w1(5) by (simp add: log_room_def same_config_def)
  then have "AppendEntry_wait Pe b del w = (Return None, w2)"
    using w1(1) w2(1,2) by (simp add: AppendEntry_wait_def flushBuffer_def AppendEntry_returns_def)
  moreover have "w_maxSegmentSize w2 = w_maxSegmentSize w" "\<forall>k. log_room w (Suc k) \<longrightarrow> log_room w2 k"
    using w1(5,6) w2(5,6) by (simp_all add: same_config_def)
  ultimately show ?thesis using w2(3,4,7) w1(4) by blast
qed

section \<open>Replaying\<close>

lemma sn_Apply_file [simp]: "sn_Apply (file_snapshotable Pe Pm order) = Apply Pe Pm"
  by (simp add: file_snapshotable_def)

text \<open>
  \<open>replayed\<close>: the replay of \<open>es\<close> has gone through; the log has got the entries \<open>dels\<close>, all of them
  deletions, and among them one of each name that the replay deleted.
\<close>

definition replayed where
  "replayed Pe Pm order es f w log w' lo' closed' cur' dels \<longleftrightarrow>
     apply_entries (file_snapshotable Pe Pm order) es (f, w) = (Return None, (fold (effect Pm) es f, w')) \<and>
     wal_rep Pe w' lo' closed' cur' \<and> flushed w' \<and> same_config w w' \<and>
     concat closed' @ cur' = log @ dels \<and> (\<forall>x \<in> set dels. \<exists>k. entry_op Pm x = Some (k, None)) \<and>
     (\<forall>es1 e es2 k. es = es1 @ e # es2 \<longrightarrow> replays_delete Pm e (fold (effect Pm) es1 f) k \<longrightarrow>
        (\<exists>x \<in> set dels. entry_op Pm x = Some (k, None)))"

lemma replayed_deletes:
  "replayed Pe Pm order es f w log w' lo' closed' cur' dels \<Longrightarrow> es = es1 @ e # es2 \<Longrightarrow>
   replays_delete Pm e (fold (effect Pm) es1 f) k \<Longrightarrow> \<exists>x \<in> set dels. entry_op Pm x = Some (k, None)"
  unfolding replayed_def by blast

lemma replay_log:
  "replay_ready Pe Pm es (f, w) \<Longrightarrow> wal_rep Pe w lo closed cur \<Longrightarrow> flushed w \<Longrightarrow> w_lastSnapshot w = 0 \<Longrightarrow>
   \<exists>w' lo' closed' cur' dels. replayed Pe Pm order es f w (concat closed @ cur) w' lo' closed' cur' dels"
proof (induction es arbitrary: f w lo closed cur)
  case Nil
  then have "replayed Pe Pm order [] f w (concat closed @ cur) w lo closed cur []" by (simp add: replayed_def)
  then show ?case by blast
next
  case (Cons e es)
  show ?case
  proof (cases "\<exists>k. replays_delete Pm e f k")
    case False
    from Apply_other [OF Cons.prems(1) this] have
      a: "Apply Pe Pm e (f, w) = (Return None, (effect Pm e f, w))" "replay_ready Pe Pm es (effect Pm e f, w)" by blast+
    from Cons.IH [OF a(2) Cons.prems(2-4)] obtain w' lo' closed' cur' dels where
      IH: "replayed Pe Pm order es (effect Pm e f) w (concat closed @ cur) w' lo' closed' cur' dels" by blast
    have "\<exists>x \<in> set dels. entry_op Pm x = Some (k, None)"
      if "e # es = es1 @ x # es2" "replays_delete Pm x (fold (effect Pm) es1 f) k" for es1 x es2 k
      using that False replayed_deletes [OF IH, of "tl es1" x es2 k] by (cases es1) auto
    with a(1) IH have "replayed Pe Pm order (e # es) f w (concat closed @ cur) w' lo' closed' cur' dels"
      by (simp add: replayed_def)
    then show ?thesis by blast
  next
    case True
    then obtain k where k: "replays_delete Pm e f k" by blast
    from Apply_delete [OF Cons.prems(1,2) k] obtain w1 lo1 closed1 cur1 dropped x where
      a: "Apply Pe Pm e (f, w) = (Return None, (effect Pm e f, w1))" "replay_ready Pe Pm es (effect Pm e f, w1)"
      "wal_rep Pe w1 lo1 closed1 cur1" "flushed w1" "w_lastSnapshot w1 = w_lastSnapshot w" "same_config w w1"
      "entry_op Pm x = Some (k, None)" "LogSequenceNo x = w_lastSequenceNo w + 1"
      "(concat closed @ cur) @ [x] = dropped @ (concat closed1 @ cur1)"
      "\<forall>y \<in> set dropped. LogSequenceNo y \<le> w_lastSnapshot w" by blast
    have "dropped = []"
    proof (rule ccontr)
      assume "dropped \<noteq> []"
      then have h: "hd dropped \<in> set dropped" by simp
      then have "LogSequenceNo (hd dropped) = 0" using a(10) Cons.prems(4) by auto
      moreover have "hd dropped \<in> set (concat closed @ cur) \<or> hd dropped = x"
        using h a(9) by (metis Un_iff empty_iff insert_iff list.set(1) list.set(2) set_append)
      moreover have "0 < LogSequenceNo y" if "y \<in> set (concat closed @ cur)" for y
        using numbered_pos [OF wal_rep_numbered [OF Cons.prems(2)] that] .
      moreover have "w_lastSequenceNo w + 1 \<noteq> 0"
      proof
        assume "w_lastSequenceNo w + 1 = 0"
        then have "unat (w_lastSequenceNo w + 1) = 0" by simp
        moreover have "unat (w_lastSequenceNo w) + 1 < 2 ^ 64" using Cons.prems(1) by (simp add: replay_ready_def)
        ultimately show False by (simp add: unat_word_ariths)
      qed
      ultimately show False using a(8) by fastforce
    qed
    with a(9) have log1: "concat closed1 @ cur1 = (concat closed @ cur) @ [x]" by simp
    have "w_lastSnapshot w1 = 0" using a(5) Cons.prems(4) by simp
    from Cons.IH [OF a(2,3,4) this] obtain w' lo' closed' cur' dels where
      IH: "replayed Pe Pm order es (effect Pm e f) w1 (concat closed1 @ cur1) w' lo' closed' cur' dels" by blast
    have "\<exists>y \<in> set (x # dels). entry_op Pm y = Some (j, None)"
      if "e # es = es1 @ y # es2" "replays_delete Pm y (fold (effect Pm) es1 f) j" for es1 y es2 j
      using that a(7) k replayed_deletes [OF IH, of "tl es1" y es2 j] by (cases es1) (auto simp: replays_delete_def)
    moreover have "same_config w w'" using same_config_trans [OF a(6)] IH by (simp add: replayed_def)
    ultimately have "replayed Pe Pm order (e # es) f w (concat closed @ cur) w' lo' closed' cur' (x # dels)"
      using a(1,7) IH log1 by (simp add: replayed_def)
    then show ?thesis by blast
  qed
qed

section \<open>Restarting\<close>

text \<open>
  \<open>restartable\<close>: what is assumed of the configuration and the codecs when the server starts again
  over the directory that the log \<open>w\<close> has written.
\<close>

definition restartable ::
  "WAL_Entry proto \<Rightarrow> FileMetadata proto \<Rightarrow> go_error + string \<Rightarrow> (string \<Rightarrow> fs) \<Rightarrow> WALConfig \<Rightarrow> WAL \<Rightarrow> files \<Rightarrow> WAL_Entry list \<Rightarrow> bool"
  where
  "restartable Pe Pm getwd disks wc w snap log \<longleftrightarrow>
     config_ok wc \<and> disks (w_dir (configured getwd wc)) = w_disk w \<and> log \<noteq> [] \<and>
     w_maxSegmentSize (configured getwd wc) = w_maxSegmentSize w \<and>
     unat (w_lastSequenceNo w) + length log < 2 ^ 64 \<and> unat (w_lastSegmentNo w) + length log < 2 ^ 63 \<and>
     (\<forall>m \<in> ran snap. meta_fits Pe Pm (w_maxSegmentSize w) m) \<and>
     (\<forall>e \<in> set log. \<forall>m. Unmarshal Pm (Data e) = Inr m \<longrightarrow> meta_fits Pe Pm (w_maxSegmentSize w) m)"

definition snapshot_on_disk :: "FileMetadata proto \<Rightarrow> files \<Rightarrow> fs \<Rightarrow> bool" where
  "snapshot_on_disk Pm snap d \<longleftrightarrow> (\<exists>n b. fs_Open SnapshotFile d = Inr (put_uint64 n @ b) \<and> image Pm snap b)"

text \<open>The snapshot file with the number in its first eight bytes.\<close>

definition snapshot_file :: "FileMetadata proto \<Rightarrow> u64 \<Rightarrow> files \<Rightarrow> fs \<Rightarrow> bool" where
  "snapshot_file Pm n snap d \<longleftrightarrow> (\<exists>b. fs_Open SnapshotFile d = Inr (put_uint64 n @ b) \<and> image Pm snap b)"

lemma snapshot_file_on_disk: "snapshot_file Pm n snap d \<Longrightarrow> snapshot_on_disk Pm snap d"
  by (auto simp: snapshot_file_def snapshot_on_disk_def)

text \<open>
  The second half of a snapshot with the numbers \<open>n\<close> and \<open>k\<close>: any map is written, over any log, and
  the log keeps its segments from \<open>k\<close> on.
\<close>

lemma wal_snapshot_finished:
  assumes P: "proto_ok Pe" "proto_ok Pm" "order_ok order" and rep: "wal_rep Pe w lo closed cur" and g: "store_ok Pm g"
    and d: "fs_node (w_disk w) snapshotTmp = None" "fs_node (w_disk w) SnapshotFile \<noteq> Some Dir"
    and pt: "snap_point n k lo closed cur" "n \<le> w_lastSequenceNo w"
  shows "\<exists>w'. finish_snapshot Pe (file_snapshotable Pe Pm order) n (word_of_nat k) (g, w) = (None, (g, w')) \<and>
    wal_rep Pe w' (lo + (k - lo)) (drop (k - lo) closed) cur \<and> w_writer w' = w_writer w \<and>
    w_flushDone w' = w_flushDone w \<and> same_config w w' \<and> w_lastSnapshot w' = n \<and>
    w_lastSequenceNo w' = w_lastSequenceNo w \<and> snapshot_file Pm n g (w_disk w') \<and> fs_node (w_disk w') snapshotTmp = None \<and>
    (\<forall>x \<in> set (concat (drop (k - lo) closed) @ cur).
       durable Pe w lo closed cur x \<longrightarrow> durable Pe w' (lo + (k - lo)) (drop (k - lo) closed) cur x)"
proof -
  from fst.finish_snapshot_ok [OF P(1) rep _ d pt, of Pm order g Pe] P(2,3) g obtain w' b where
    w': "finish_snapshot Pe (file_snapshotable Pe Pm order) n (word_of_nat k) (g, w) = (None, (g, w'))"
    "wal_rep Pe w' (lo + (k - lo)) (drop (k - lo) closed) cur" "w_writer w' = w_writer w" "w_flushDone w' = w_flushDone w"
    "same_config w w'" "w_lastSnapshot w' = n" "w_lastSequenceNo w' = w_lastSequenceNo w" "image Pm g b"
    "fs_node (w_disk w') SnapshotFile = Some (File (put_uint64 n @ b) (put_uint64 n @ b))"
    "fs_node (w_disk w') snapshotTmp = None"
    "\<forall>x \<in> set (concat (drop (k - lo) closed) @ cur).
       durable Pe w lo closed cur x \<longrightarrow> durable Pe w' (lo + (k - lo)) (drop (k - lo) closed) cur x" by blast
  have "\<not> faults (w_disk w') OpOpen SnapshotFile"
    using w'(2) by (auto simp: wal_rep_def wal_store_def dest: log_diskD(2) no_faultsD)
  with w'(8,9) have "snapshot_file Pm n g (w_disk w')" by (auto simp: snapshot_file_def fs_Open_def)
  with w' show ?thesis by blast
qed

lemma wal_snapshot_taken:
  assumes P: "proto_ok Pe" "proto_ok Pm" "order_ok order" and rep: "wal_rep Pe w lo closed cur" and g: "store_ok Pm g"
    and d: "fs_node (w_disk w) snapshotTmp = None" "fs_node (w_disk w) SnapshotFile \<noteq> Some Dir"
  shows "\<exists>w'. takeSnapshot Pe (file_snapshotable Pe Pm order) (g, w) = (None, (g, w')) \<and>
    wal_rep Pe w' (lo + length closed) [] cur \<and> w_writer w' = w_writer w \<and>
    w_flushDone w' = w_flushDone w \<and> snapshot_file Pm (w_lastSequenceNo w) g (w_disk w')"
proof -
  have "w_lastSegmentNo w = word_of_nat (lo + length closed)" using rep by (simp add: wal_rep_def wal_store_def)
  with wal_snapshot_finished [OF P rep g d snap_point_now [OF wal_rep_numbered [OF rep]] order.refl]
  show ?thesis by (simp add: takeSnapshot_def) blast
qed

text \<open>
  It leaves the store consistent, if the map \<open>g\<close> differs from what the log says only on names that
  entries later than \<open>n\<close> are about.
\<close>

lemma store_finishes_snapshot:
  assumes P: "proto_ok Pe" "proto_ok Pm" "order_ok order" and inv: "store_inv Pe Pm snap (f, w) lo closed cur"
    and d: "store_ok Pm g" "fs_node (w_disk w) snapshotTmp = None" "fs_node (w_disk w) SnapshotFile \<noteq> Some Dir"
    and pt: "snap_point n k lo closed cur" "n \<le> w_lastSequenceNo w"
    and g: "\<And>k. (\<forall>e \<in> set (concat closed @ cur). n < LogSequenceNo e \<longrightarrow> (\<forall>v. entry_op Pm e \<noteq> Some (k, v))) \<Longrightarrow> g k = f k"
  shows "\<exists>w'. finish_snapshot Pe (file_snapshotable Pe Pm order) n (word_of_nat k) (g, w) = (None, (g, w')) \<and>
    w_lastSnapshot w' = n \<and> snapshot_file Pm n g (w_disk w') \<and>
    store_inv Pe Pm g (f, w') (lo + (k - lo)) (drop (k - lo) closed) cur \<and> fs_node (w_disk w') snapshotTmp = None \<and>
    w_flushDone w' = w_flushDone w \<and> w_lastSequenceNo w' = w_lastSequenceNo w \<and>
    (\<forall>x \<in> set (concat (drop (k - lo) closed) @ cur).
       durable Pe w lo closed cur x \<longrightarrow> durable Pe w' (lo + (k - lo)) (drop (k - lo) closed) cur x)"
proof -
  from inv have "wal_rep Pe w lo closed cur" by (simp add: store_inv_def)
  from wal_snapshot_finished [OF P this d pt] obtain w' where
    w': "finish_snapshot Pe (file_snapshotable Pe Pm order) n (word_of_nat k) (g, w) = (None, (g, w'))"
    "wal_rep Pe w' (lo + (k - lo)) (drop (k - lo) closed) cur" "w_lastSnapshot w' = n"
    "snapshot_file Pm n g (w_disk w')" "fs_node (w_disk w') snapshotTmp = None" "w_flushDone w' = w_flushDone w" "w_lastSequenceNo w' = w_lastSequenceNo w"
    "\<forall>x \<in> set (concat (drop (k - lo) closed) @ cur).
       durable Pe w lo closed cur x \<longrightarrow> durable Pe w' (lo + (k - lo)) (drop (k - lo) closed) cur x" by blast
  have log: "concat closed = concat (take (k - lo) closed) @ concat (drop (k - lo) closed)"
    by (simp add: concat_append [symmetric] del: concat_append)
  have "\<forall>e \<in> set (concat (take (k - lo) closed)). LogSequenceNo e \<le> n" using pt(1) unfolding snap_point_def by blast
  from store_inv_snapshot [OF inv w'(2) log this w'(3) g] w' show ?thesis by blast
qed

text \<open>Taking a snapshot between two calls.\<close>

lemma store_takes_snapshot:
  assumes P: "proto_ok Pe" "proto_ok Pm" "order_ok order" and inv: "store_inv Pe Pm snap (f, w) lo closed cur"
    and d: "fs_node (w_disk w) snapshotTmp = None" "fs_node (w_disk w) SnapshotFile \<noteq> Some Dir"
  shows "\<exists>w'. takeSnapshot Pe (file_snapshotable Pe Pm order) (f, w) = (None, (f, w')) \<and>
    w_lastSnapshot w' = w_lastSequenceNo w \<and> snapshot_file Pm (w_lastSequenceNo w) f (w_disk w') \<and>
    store_inv Pe Pm f (f, w') (lo + length closed) [] cur \<and> fs_node (w_disk w') snapshotTmp = None"
proof -
  from inv have i: "store_ok Pm f" "w_lastSegmentNo w = word_of_nat (lo + length closed)"
    "numbered (w_lastSequenceNo w) (concat closed @ cur)" by (simp_all add: store_inv_def wal_rep_def wal_store_def)
  from store_finishes_snapshot [OF P inv i(1) d snap_point_now [OF i(3)] order.refl refl] i(2)
  show ?thesis by (simp add: takeSnapshot_def) blast
qed

lemma restart_log:
  assumes P: "proto_ok Pe" "proto_ok Pm" and rep: "wal_rep Pe w lo closed cur" and fl: "flushed w"
    and ok: "list_all (entry_meta_ok Pm) (concat closed @ cur)" "store_ok Pm snap"
    and sn: "snapshot_on_disk Pm snap (w_disk w)"
    and r: "restartable Pe Pm getwd disks wc w snap (concat closed @ cur)"
  shows "\<exists>w0 w1 lo' closed' cur' dels n. InitWALwithConfig Pe getwd disks wc = (None, w0) \<and>
    replayed Pe Pm order (concat closed @ cur) snap w0 (concat closed @ cur) w1 lo' closed' cur' dels \<and>
    FileStore_EnableSnapshots Pe Pm order (NewFileStore w0) =
      (Return None, (fold (effect Pm) (concat closed @ cur) snap, w1\<lparr>w_lastSnapshot := n\<rparr>))"
proof -
  let ?log = "concat closed @ cur"
  from rep have st: "wal_store Pe w lo closed cur" and num: "numbered (w_lastSequenceNo w) ?log" by (simp_all add: wal_rep_def)
  from st have s: "[] \<notin> set closed" "list_all (entry_wf Pe) ?log"
    "length (wl.frames Pe cur) < unat (w_maxSegmentSize w)" by (simp_all add: wal_store_def)
  from r have d: "log_disk (disks (w_dir (configured getwd wc))) lo (map (wl.frames Pe) (closed @ [cur]))"
    using wal_rep_flushed_disk [OF rep fl] by (simp add: restartable_def)
  from r s(3) have size: "length (wl.frames Pe cur) < unat (w_maxSegmentSize (configured getwd wc))" "config_ok wc" "?log \<noteq> []"
    by (simp_all add: restartable_def)
  from InitWAL_restart [where disks = disks, OF P(1) size(2) d s(1) size(3) s(2) num size(1)] obtain w0 where
    w0: "InitWALwithConfig Pe getwd disks wc = (None, w0)" "wal_rep Pe w0 lo closed cur" "flushed w0"
    "w_lastSequenceNo w0 = w_lastSequenceNo w" "w_lastSnapshot w0 = 0" "ReadAllEntries Pe w0 = Inr ?log"
    "\<not> w_cancelled w0" "w_disk w0 = w_disk w" "w_maxSegmentSize w0 = w_maxSegmentSize w"
    using r by (auto simp: restartable_def)
  have "w_lastSegmentNo w0 = w_lastSegmentNo w"
    using w0(2) st by (simp add: wal_rep_def wal_store_def)
  with r P w0 ok have ready: "replay_ready Pe Pm ?log (snap, w0)"
    by (auto simp: replay_ready_def restartable_def list_all_iff)
  from replay_log [OF ready w0(2,3,5)] obtain w1 lo' closed' cur' dels where
    rp: "replayed Pe Pm order ?log snap w0 ?log w1 lo' closed' cur' dels" by blast
  from sn obtain n b where "fs_Open SnapshotFile (w_disk w0) = Inr (put_uint64 n @ b)" "image Pm snap b"
    using w0(8) by (auto simp: snapshot_on_disk_def)
  from fst.EnableSnapshots_ok [OF this w0(6) ready, of order] rp
  have "FileStore_EnableSnapshots Pe Pm order (NewFileStore w0) =
      (Return None, (fold (effect Pm) ?log snap, w1\<lparr>w_lastSnapshot := n\<rparr>))"
    by (auto simp: FileStore_EnableSnapshots_def NewFileStore_def replayed_def)
  with w0(1) rp show ?thesis by blast
qed

end
