(* ===== verification/Store_Properties.thy ===== *)
theory Store_Properties
  imports Store_System
begin

text \<open>
  The properties of the write-ahead log and of the file store, with witnesses: a log of one
  segment over the sample codecs.
\<close>

section \<open>A concrete log\<close>

definition demo_wal :: "WAL_Entry proto \<Rightarrow> WAL_Entry list \<Rightarrow> WAL" where
  "demo_wal P es = (configured (Inr ''/srv'') \<lparr>wc_dir = [], wc_enableFsSync = False, wc_maxSegmentSize = 0,
       wc_flushInterval = 0, wc_maxSegements = 0, wc_snapshotInterval = 0\<rparr>)
     \<lparr>w_curSegmentSize := word_of_nat (length (wl.frames P es)), w_writer := Some (seg_name 1, NewWriter),
      w_segment := Some (seg_name 1), w_lastSegmentNo := 1, w_lastSequenceNo := word_of_nat (length es),
      w_disk := \<lparr>entries = [(seg_name 1, File (wl.frames P es) []), (SnapshotFile, File (put_uint64 0) [])],
                 faults = (\<lambda>_ _. False), room = (\<lambda>_. None)\<rparr>\<rparr>"

lemma seg_name_1: "seg_name 1 = ''wal-log-1''"
  by (simp add: seg_name_def generateLogFilePath_def WalLogPrefix_def Itoa_def dec_of_nat.simps digit_char_def) code_simp

lemma demo_nodes:
  "fs_node (w_disk (demo_wal P es)) nm =
     (if nm = seg_name 1 then Some (File (wl.frames P es) [])
      else if nm = SnapshotFile then Some (File (put_uint64 0) []) else None)"
  by (simp add: demo_wal_def fs_node_def)

lemma demo_fields:
  "w_writer (demo_wal P es) = Some (seg_name 1, NewWriter)" "w_segment (demo_wal P es) = Some (seg_name 1)"
  "w_lastSegmentNo (demo_wal P es) = 1" "w_lastSequenceNo (demo_wal P es) = word_of_nat (length es)"
  "w_curSegmentSize (demo_wal P es) = word_of_nat (length (wl.frames P es))"
  "w_maxSegmentSize (demo_wal P es) = 400" "w_maxSegements (demo_wal P es) = 3"
  "w_lastSnapshot (demo_wal P es) = 0" "\<not> w_cancelled (demo_wal P es)"
  by (simp_all add: demo_wal_def configured_def defaultWALConfig_def Let_def)

lemma demo_log_disk: "log_disk (w_disk (demo_wal P es)) 1 [wl.frames P es]"
proof -
  have "dir_wf (entries (w_disk (demo_wal P es)))"
    by (simp add: demo_wal_def dir_wf_def seg_name_1 [unfolded One_nat_def] SnapshotFile_def)
  moreover have "\<not> HasPrefix SnapshotFile WalLogPrefix"
    by (simp add: HasPrefix_def SnapshotFile_def WalLogPrefix_def)
  moreover have "is_file (w_disk (demo_wal P es)) (seg_name 1)" "file_data (seg_name 1) (w_disk (demo_wal P es)) = wl.frames P es"
    by (simp_all add: is_file_def file_data_def demo_nodes)
  ultimately show ?thesis
    by (auto simp: log_disk_def demo_nodes no_faults_def split: if_splits) (simp_all add: demo_wal_def)
qed

lemma demo_rep:
  assumes "list_all (entry_wf P) es" "numbered (word_of_nat (length es)) es" "length (wl.frames P es) < 400"
  shows "wal_rep P (demo_wal P es) 1 [] es" "flushed (demo_wal P es)"
  using assms demo_log_disk [of P es] numbered_pos [OF assms(2)]
  by (auto simp: wal_rep_def wal_store_def demo_fields NewWriter_def flushed_def)

definition demo_meta :: "int \<Rightarrow> FileMetadata" where
  "demo_meta n = \<lparr>fm_Size = n, fm_Name = ''a'', fm_ChunkInfo = Map.empty\<rparr>"

definition demo_codec :: "FileMetadata proto" where
  "demo_codec = sample_meta [demo_meta 1, demo_meta 2]"

lemma demo_Marshal: "Marshal demo_codec (demo_meta 1) = Inr [1]" "Marshal demo_codec (demo_meta 2) = Inr [2]"
  by (simp_all add: demo_codec_def sample_meta_def demo_meta_def)

lemma demo_codec_ok: "proto_ok demo_codec"
  by (simp add: demo_codec_def sample_meta_ok)

lemma demo_meta_wf: "meta_wf demo_codec (demo_meta 1)" "meta_wf demo_codec (demo_meta 2)"
  by (simp_all add: meta_wf_def demo_Marshal)

lemma sample_entry_length: "Marshal sample_entry (new_entry n b del) = Inr x \<Longrightarrow> length x = 13 + length b"
  by (auto simp: sample_entry_def new_entry_def)

lemma sample_entry_fits:
  "length b < 300 \<Longrightarrow> (case Marshal sample_entry (new_entry n b del) of
     Inl e \<Rightarrow> False | Inr x \<Rightarrow> length x + 4 < unat (400 :: u64) \<and> length x < 2 ^ 32)"
  by (simp add: sample_entry_def new_entry_def)

lemma demo_fits: "meta_fits sample_entry demo_codec 400 (demo_meta 1)" "meta_fits sample_entry demo_codec 400 (demo_meta 2)"
  using sample_entry_fits [of "[1]"] sample_entry_fits [of "[2]"] by (simp_all add: meta_fits_def demo_Marshal)

text \<open>Add a file, delete it, add another one of the same name.\<close>

definition demo_log :: "WAL_Entry list" where
  "demo_log = [new_entry 1 [1] False, new_entry 2 [1] True, new_entry 3 [2] False]"

lemma demo_entries:
  "entry_op demo_codec (new_entry n [1] False) = Some (''a'', Some (demo_meta 1))"
  "entry_op demo_codec (new_entry n [1] True) = Some (''a'', None)"
  "entry_op demo_codec (new_entry n [2] False) = Some (''a'', Some (demo_meta 2))"
  using delete_entry_op [OF demo_codec_ok demo_Marshal(1), of n] delete_entry_op [OF demo_codec_ok demo_Marshal(2), of n]
  by (simp_all add: demo_meta_def)

lemma demo_log_rep: "wal_rep sample_entry (demo_wal sample_entry demo_log) 1 [] demo_log" "flushed (demo_wal sample_entry demo_log)"
proof -
  have wf: "entry_wf sample_entry (new_entry n b del)" if "length b < 300" for n b del
    using sample_entry_fits [OF that, of n del] new_entry_wf [of sample_entry n b del] by (auto split: sum.splits)
  have l: "length (entry_bytes sample_entry (new_entry n b del)) = 17 + length b" for n b del
    by (simp add: entry_bytes_def sample_entry_def new_entry_def)
  have "numbered (word_of_nat (length demo_log)) demo_log"
    by (simp add: demo_log_def numbered_def new_entry_def upt_rec)
  with wf l demo_rep [of sample_entry demo_log]
  show "wal_rep sample_entry (demo_wal sample_entry demo_log) 1 [] demo_log" "flushed (demo_wal sample_entry demo_log)"
    by (simp_all add: demo_log_def)
qed

lemma demo_store_inv: "store_inv sample_entry demo_codec Map.empty ([''a'' \<mapsto> demo_meta 2], demo_wal sample_entry demo_log) 1 [] demo_log"
proof -
  have "list_all (entry_meta_ok demo_codec) demo_log"
    using proto_okD [OF demo_codec_ok demo_Marshal(1)] proto_okD [OF demo_codec_ok demo_Marshal(2)] demo_meta_wf
    by (simp add: demo_log_def entry_meta_ok_def new_entry_def)
  moreover have "fold (effect demo_codec) demo_log Map.empty = [''a'' \<mapsto> demo_meta 2]"
    by (simp add: demo_log_def effect_def demo_entries)
  moreover have "store_ok demo_codec [''a'' \<mapsto> demo_meta 2]"
    using demo_meta_wf(2) by (simp add: store_ok_def demo_meta_def)
  ultimately show ?thesis using demo_log_rep(1) by (intro store_inv_no_snapshot) (simp_all add: demo_fields)
qed

section \<open>Properties of the store\<close>

text \<open>C14: adding a file whose record fits a segment of the log (\<open>meta_fits\<close>: the framed entry is
  shorter than \<open>maxSegmentSize\<close>, which at the default of 400 bytes leaves room for about six chunks),
  to a log that is not cancelled and whose numbers are not used up, returns nil, sets the record
  under its name, and its entry is on the disk by then.\<close>

theorem store_add:
  assumes "proto_ok Pe" "proto_ok Pm" "store_inv Pe Pm snap (f, w) lo closed cur"
    and "meta_wf Pm m" "meta_fits Pe Pm (w_maxSegmentSize w) m" "log_room w 1"
  shows "\<exists>w' lo' closed' cur' e. AddFileMetadata Pe Pm m True (f, w) = (Return None, (f(fm_Name m \<mapsto> m), w')) \<and>
    store_inv Pe Pm snap (f(fm_Name m \<mapsto> m), w') lo' closed' cur' \<and>
    durable Pe w' lo' closed' cur' e \<and> entry_op Pm e = Some (fm_Name m, Some m)"
proof -
  from assms(4) obtain b where b: "Marshal Pm m = Inr b" by (auto elim: meta_wfE)
  from store_append [OF assms(1-4) b assms(5,6), of False] obtain w' lo' closed' cur' e where
    w': "AppendEntry_wait Pe b False w = (Return None, w')"
    "store_inv Pe Pm snap (f(fm_Name m \<mapsto> m), w') lo' closed' cur'"
    "durable Pe w' lo' closed' cur' e" "entry_op Pm e = Some (fm_Name m, Some m)" by auto
  have "AddFileMetadata Pe Pm m True (f, w) = (Return None, (f(fm_Name m \<mapsto> m), w'))"
    using b w'(1) by (simp add: AddFileMetadata_def GetName_def)
  with w' show ?thesis by blast
qed

lemma demo_room: "log_room (demo_wal sample_entry demo_log) 1"
  by (simp add: log_room_def demo_fields demo_log_def)

lemma store_add_witness:
  "\<exists>w' lo' closed' cur' e.
     AddFileMetadata sample_entry demo_codec (demo_meta 1) True ([''a'' \<mapsto> demo_meta 2], demo_wal sample_entry demo_log) =
       (Return None, ([''a'' \<mapsto> demo_meta 2](fm_Name (demo_meta 1) \<mapsto> demo_meta 1), w')) \<and>
     store_inv sample_entry demo_codec Map.empty ([''a'' \<mapsto> demo_meta 2](fm_Name (demo_meta 1) \<mapsto> demo_meta 1), w') lo' closed' cur' \<and>
     durable sample_entry w' lo' closed' cur' e \<and>
     entry_op demo_codec e = Some (fm_Name (demo_meta 1), Some (demo_meta 1))"
  by (rule store_add [OF sample_entry_ok demo_codec_ok demo_store_inv demo_meta_wf(1) _ demo_room])
    (simp add: demo_fields demo_fits)

text \<open>C15: deleting a file that exists returns nil, removes it, and its entry is on the disk by then.\<close>

theorem store_delete:
  assumes "proto_ok Pe" "proto_ok Pm" "store_inv Pe Pm snap (f, w) lo closed cur" "f k = Some m"
    and "meta_fits Pe Pm (w_maxSegmentSize w) m" "log_room w 1"
  shows "\<exists>w' lo' closed' cur' e. DeleteFileMetadata Pe Pm k (f, w) = (Return None, (f(k := None), w')) \<and>
    store_inv Pe Pm snap (f(k := None), w') lo' closed' cur' \<and>
    durable Pe w' lo' closed' cur' e \<and> entry_op Pm e = Some (k, None)"
proof -
  from assms(3,4) have m: "meta_wf Pm m" "fm_Name m = k" by (auto simp: store_inv_def store_ok_def)
  from m(1) obtain b where b: "Marshal Pm m = Inr b" by (auto elim: meta_wfE)
  from store_append [OF assms(1-3) m(1) b assms(5,6), of True] m(2) obtain w' lo' closed' cur' e where
    w': "AppendEntry_wait Pe b True w = (Return None, w')" "store_inv Pe Pm snap (f(k := None), w') lo' closed' cur'"
    "durable Pe w' lo' closed' cur' e" "entry_op Pm e = Some (k, None)" by auto
  have "DeleteFileMetadata Pe Pm k (f, w) = (Return None, (f(k := None), w'))"
    using b w'(1) assms(4) by (simp add: DeleteFileMetadata_def)
  with w' show ?thesis by blast
qed

lemma store_delete_witness:
  "\<exists>w' lo' closed' cur' e.
     DeleteFileMetadata sample_entry demo_codec ''a'' ([''a'' \<mapsto> demo_meta 2], demo_wal sample_entry demo_log) =
       (Return None, ([''a'' \<mapsto> demo_meta 2](''a'' := None), w')) \<and>
     store_inv sample_entry demo_codec Map.empty ([''a'' \<mapsto> demo_meta 2](''a'' := None), w') lo' closed' cur' \<and>
     durable sample_entry w' lo' closed' cur' e \<and> entry_op demo_codec e = Some (''a'', None)"
  by (rule store_delete [OF sample_entry_ok demo_codec_ok demo_store_inv _ _ demo_room, of "''a''" "demo_meta 2"])
    (simp_all add: demo_fields demo_fits)

text \<open>
  C16: a snapshot of a healthy store, with no temporary file left over, keeps the store, writes a file
  that begins with the last sequence number and goes on with the records of the map, and leaves the
  log with the current segment only.
\<close>

theorem store_snapshot:
  assumes "proto_ok Pe" "proto_ok Pm" "order_ok order" "store_inv Pe Pm snap (f, w) lo closed cur"
    and "fs_node (w_disk w) snapshotTmp = None" "fs_node (w_disk w) SnapshotFile \<noteq> Some Dir"
  shows "\<exists>w'. takeSnapshot Pe (file_snapshotable Pe Pm order) (f, w) = (None, (f, w')) \<and>
    w_lastSnapshot w' = w_lastSequenceNo w \<and> snapshot_file Pm (w_lastSequenceNo w) f (w_disk w') \<and>
    store_inv Pe Pm f (f, w') (lo + length closed) [] cur"
  using store_takes_snapshot [OF assms] by blast

text \<open>
  C7: a restart recovers the store: if its snapshot is on the disk and the log flushed, \<open>InitWAL\<close>
  and \<open>EnableSnapshots\<close> return nil and the files are those from before.
\<close>

theorem store_restart_recovers:
  assumes "proto_ok Pe" "proto_ok Pm" "store_inv Pe Pm snap (f, w) lo closed cur" "flushed w" "store_ok Pm snap"
    and "snapshot_on_disk Pm snap (w_disk w)" "restartable Pe Pm getwd disks wc w snap (concat closed @ cur)"
  shows "\<exists>w0 w1. InitWALwithConfig Pe getwd disks wc = (None, w0) \<and>
    FileStore_EnableSnapshots Pe Pm order (NewFileStore w0) = (Return None, (f, w1))"
proof -
  from assms(3) have "wal_rep Pe w lo closed cur" "list_all (entry_meta_ok Pm) (concat closed @ cur)"
    by (simp_all add: store_inv_def)
  from restart_log [OF assms(1,2) this(1) assms(4) this(2) assms(5-7), of order] store_inv_replay [OF assms(3)]
  show ?thesis by auto
qed

definition demo_order :: "files \<Rightarrow> string list" where
  "demo_order f = sorted_list_of_set (dom f)"

lemma demo_order_ok: "order_ok demo_order"
  by (simp add: order_ok_def demo_order_def)

definition demo_config :: WALConfig where
  "demo_config = \<lparr>wc_dir = [], wc_enableFsSync = False, wc_maxSegmentSize = 0,
     wc_flushInterval = 0, wc_maxSegements = 0, wc_snapshotInterval = 0\<rparr>"

lemma demo_disk_open: "fs_Open SnapshotFile (w_disk (demo_wal P es)) = Inr (put_uint64 0 @ [])"
proof -
  have "seg_name 1 \<noteq> SnapshotFile" by (simp add: seg_name_1 [unfolded One_nat_def] SnapshotFile_def)
  moreover have "\<not> faults (w_disk (demo_wal P es)) OpOpen SnapshotFile" by (simp add: demo_wal_def)
  ultimately show ?thesis by (simp add: fs_Open_def demo_nodes)
qed

lemma demo_snapshot: "snapshot_on_disk demo_codec Map.empty (w_disk (demo_wal sample_entry demo_log))"
  unfolding snapshot_on_disk_def using demo_disk_open [of sample_entry demo_log] demo_codec_ok
  by (auto simp: image_def intro!: exI [of _ "[]"])

lemma demo_restartable:
  "restartable sample_entry demo_codec (Inr ''/srv'') (\<lambda>_. w_disk (demo_wal sample_entry demo_log)) demo_config
     (demo_wal sample_entry demo_log) Map.empty demo_log"
proof -
  have "w_maxSegmentSize (configured (Inr ''/srv'') demo_config) = 400" "config_ok demo_config"
    by (simp_all add: configured_def demo_config_def config_ok_def Let_def)
  moreover have "meta_fits sample_entry demo_codec 400 m" if "e \<in> set demo_log" "Unmarshal demo_codec (Data e) = Inr m" for e m
    using that proto_okD [OF demo_codec_ok demo_Marshal(1)] proto_okD [OF demo_codec_ok demo_Marshal(2)] demo_fits
    by (auto simp: demo_log_def new_entry_def)
  ultimately show ?thesis by (simp add: restartable_def demo_fields) (simp add: demo_log_def)
qed

lemma store_snapshot_witness:
  "\<exists>w'. takeSnapshot sample_entry (file_snapshotable sample_entry demo_codec demo_order)
       ([''a'' \<mapsto> demo_meta 2], demo_wal sample_entry demo_log) = (None, ([''a'' \<mapsto> demo_meta 2], w')) \<and>
     w_lastSnapshot w' = w_lastSequenceNo (demo_wal sample_entry demo_log) \<and>
     snapshot_file demo_codec (w_lastSequenceNo (demo_wal sample_entry demo_log)) [''a'' \<mapsto> demo_meta 2] (w_disk w') \<and>
     store_inv sample_entry demo_codec [''a'' \<mapsto> demo_meta 2] ([''a'' \<mapsto> demo_meta 2], w') (1 + length ([] :: WAL_Entry list list)) [] demo_log"
proof (rule store_snapshot [OF sample_entry_ok demo_codec_ok demo_order_ok demo_store_inv])
  have "snapshotTmp \<noteq> seg_name 1" "snapshotTmp \<noteq> SnapshotFile"
    by (simp_all add: snapshotTmp_def generateSnapshotFileName_def seg_name_1 [unfolded One_nat_def] SnapshotFile_def)
  then show "fs_node (w_disk (demo_wal sample_entry demo_log)) snapshotTmp = None" by (simp add: demo_nodes)
  show "fs_node (w_disk (demo_wal sample_entry demo_log)) SnapshotFile \<noteq> Some Dir" by (simp add: demo_nodes)
qed

lemma store_restart_recovers_witness:
  "\<exists>w0 w1. InitWALwithConfig sample_entry (Inr ''/srv'') (\<lambda>_. w_disk (demo_wal sample_entry demo_log)) demo_config = (None, w0) \<and>
    FileStore_EnableSnapshots sample_entry demo_codec demo_order (NewFileStore w0) = (Return None, ([''a'' \<mapsto> demo_meta 2], w1))"
  by (rule store_restart_recovers [OF sample_entry_ok demo_codec_ok demo_store_inv demo_log_rep(2) _ demo_snapshot])
    (use demo_restartable in simp_all)

lemma EnableSnapshots_no_snapshot:
  assumes "fs_Open SnapshotFile (w_disk w) = Inl ErrNotExist"
  shows "FileStore_EnableSnapshots Pe Pm order (NewFileStore w) = (Return None, (Map.empty, w\<lparr>w_lastSnapshot := 0\<rparr>))"
  using assms
  by (simp add: FileStore_EnableSnapshots_def NewFileStore_def EnableSnapshots_def restore_def generateSnapshotFileName_def)

text \<open>
  Without a snapshot file the log is not replayed: after a restart before the first snapshot
  the store is empty, whatever the log contains, and no error is reported.
\<close>

lemma restart_without_snapshot_ignores_log:
  assumes "fs_Open SnapshotFile (w_disk w) = Inl ErrNotExist"
  shows "FileStore_EnableSnapshots Pe Pm order (NewFileStore w) = (Return None, (Map.empty, w\<lparr>w_lastSnapshot := 0\<rparr>))"
  using assms by (rule EnableSnapshots_no_snapshot)

definition demo_crash :: WAL where
  "demo_crash = (demo_wal sample_entry demo_log)
     \<lparr>w_disk := \<lparr>entries = [(seg_name 1, File (wl.frames sample_entry demo_log) [])],
                 faults = (\<lambda>_ _. False), room = (\<lambda>_. None)\<rparr>\<rparr>"

lemma restart_without_snapshot_ignores_log_witness:
  "FileStore_EnableSnapshots sample_entry demo_codec demo_order (NewFileStore demo_crash) =
     (Return None, (Map.empty, demo_crash\<lparr>w_lastSnapshot := 0\<rparr>))"
  by (rule restart_without_snapshot_ignores_log)
    (simp add: demo_crash_def fs_Open_def fs_node_def seg_name_1 [unfolded One_nat_def] SnapshotFile_def)

text \<open>
  C27: replaying a deletion appends it to the log again, behind every later entry. If the name was
  deleted and added again, the first restart still has the file, but the log it leaves yields a
  store without it when the next restart applies that log to the same snapshot.
\<close>

theorem replayed_delete_hides_later_add:
  assumes "proto_ok Pe" "proto_ok Pm" "store_inv Pe Pm snap (f, w) lo closed cur" "flushed w" "store_ok Pm snap"
    and "snapshot_on_disk Pm snap (w_disk w)" "restartable Pe Pm getwd disks wc w snap (concat closed @ cur)"
    and "concat closed @ cur = es1 @ e # es2" "replays_delete Pm e (fold (effect Pm) es1 snap) k" "f k = Some m"
  shows "\<exists>w0 w1 log1. InitWALwithConfig Pe getwd disks wc = (None, w0) \<and>
    FileStore_EnableSnapshots Pe Pm order (NewFileStore w0) = (Return None, (f, w1)) \<and> f k = Some m \<and>
    ReadAllEntries Pe w1 = Inr log1 \<and> fold (effect Pm) log1 snap k = None"
proof -
  let ?log = "concat closed @ cur"
  from assms(3) have "wal_rep Pe w lo closed cur" "list_all (entry_meta_ok Pm) ?log"
    by (simp_all add: store_inv_def)
  from restart_log [OF assms(1,2) this(1) assms(4) this(2) assms(5-7), of order] obtain w0 w1 lo' closed' cur' dels n where
    r: "InitWALwithConfig Pe getwd disks wc = (None, w0)"
    "replayed Pe Pm order ?log snap w0 ?log w1 lo' closed' cur' dels"
    "FileStore_EnableSnapshots Pe Pm order (NewFileStore w0) = (Return None, (fold (effect Pm) ?log snap, w1\<lparr>w_lastSnapshot := n\<rparr>))"
    by blast
  from replayed_deletes [OF r(2) assms(8,9)] obtain x where x: "x \<in> set dels" "entry_op Pm x = Some (k, None)" by blast
  from r(2) have w1: "wal_rep Pe w1 lo' closed' cur'" "flushed w1" "concat closed' @ cur' = ?log @ dels"
    and dels: "\<forall>x \<in> set dels. \<exists>k. entry_op Pm x = Some (k, None)" by (simp_all add: replayed_def)
  have "fold (effect Pm) dels g k = None" for g
    using fold_effect_deletes [OF dels x] .
  then have "fold (effect Pm) (?log @ dels) snap k = None" by (simp only: fold_append comp_apply)
  moreover have "ReadAllEntries Pe (w1\<lparr>w_lastSnapshot := n\<rparr>) = Inr (?log @ dels)"
    using ReadAllEntries_rep [OF assms(1) w1(1,2)] w1(3) by simp
  moreover have "FileStore_EnableSnapshots Pe Pm order (NewFileStore w0) = (Return None, (f, w1\<lparr>w_lastSnapshot := n\<rparr>))"
    using r(3) store_inv_replay [OF assms(3)] by simp
  ultimately show ?thesis using r(1) assms(10) by blast
qed

lemma replayed_delete_hides_later_add_witness:
  "\<exists>w0 w1 log1. InitWALwithConfig sample_entry (Inr ''/srv'') (\<lambda>_. w_disk (demo_wal sample_entry demo_log)) demo_config = (None, w0) \<and>
    FileStore_EnableSnapshots sample_entry demo_codec demo_order (NewFileStore w0) = (Return None, ([''a'' \<mapsto> demo_meta 2], w1)) \<and>
    [''a'' \<mapsto> demo_meta 2] ''a'' = Some (demo_meta 2) \<and>
    ReadAllEntries sample_entry w1 = Inr log1 \<and> fold (effect demo_codec) log1 Map.empty ''a'' = None"
proof (rule replayed_delete_hides_later_add [OF sample_entry_ok demo_codec_ok demo_store_inv demo_log_rep(2) _ demo_snapshot])
  show "concat [] @ demo_log = [new_entry 1 [1] False] @ new_entry 2 [1] True # [new_entry 3 [2] False]"
    by (simp add: demo_log_def)
  show "replays_delete demo_codec (new_entry 2 [1] True) (fold (effect demo_codec) [new_entry 1 [1] False] Map.empty) ''a''"
    by (simp add: replays_delete_def demo_entries effect_def)
qed (use demo_restartable in simp_all)

end
