(* ===== verification/Wal_Frame.thy ===== *)
theory Wal_Frame
  imports Wal_Snapshot
begin

text \<open>
  What the write-ahead log does not touch: appending, flushing and rotating change files of the
  log only, so the snapshot next to them stays as it is.
\<close>

definition same_others :: "fs \<Rightarrow> fs \<Rightarrow> bool" where
  "same_others d d' \<longleftrightarrow> (\<forall>x. \<not> HasPrefix x WalLogPrefix \<longrightarrow> fs_node d' x = fs_node d x)"

definition log_handles :: "WAL \<Rightarrow> bool" where
  "log_handles w \<longleftrightarrow> (\<forall>f b. w_writer w = Some (f, b) \<longrightarrow> HasPrefix f WalLogPrefix) \<and>
     (\<forall>g. w_segment w = Some g \<longrightarrow> HasPrefix g WalLogPrefix)"

text \<open>\<open>log_frame\<close>: from one log to the other only files of the log have changed.\<close>

definition log_frame :: "WAL \<Rightarrow> WAL \<Rightarrow> bool" where
  "log_frame w w' \<longleftrightarrow> (log_handles w \<longrightarrow> log_handles w' \<and> same_others (w_disk w) (w_disk w'))"

lemma same_others_refl [simp]: "same_others d d"
  by (simp add: same_others_def)

lemma same_others_trans: "same_others d d1 \<Longrightarrow> same_others d1 d2 \<Longrightarrow> same_others d d2"
  by (simp add: same_others_def)

lemma log_frame_refl [simp]: "log_frame w w"
  by (simp add: log_frame_def)

lemma log_frame_trans: "log_frame w w1 \<Longrightarrow> log_frame w1 w2 \<Longrightarrow> log_frame w w2"
  by (auto simp: log_frame_def intro: same_others_trans)

lemma same_others_node: "same_others d d' \<Longrightarrow> \<not> HasPrefix x WalLogPrefix \<Longrightarrow> fs_node d' x = fs_node d x"
  by (simp add: same_others_def)

lemma same_othersI: "HasPrefix nm WalLogPrefix \<Longrightarrow> (\<And>x. x \<noteq> nm \<Longrightarrow> fs_node d' x = fs_node d x) \<Longrightarrow> same_others d d'"
  unfolding same_others_def by metis

lemma generateLogFilePath_prefix: "HasPrefix (generateLogFilePath n) WalLogPrefix"
  by (simp add: generateLogFilePath_def HasPrefix_def)

section \<open>The writes\<close>

lemma fs_Append_others: "fs_Append f p s = (n, e, s') \<Longrightarrow> HasPrefix f WalLogPrefix \<Longrightarrow> same_others s s'"
  unfolding fs_Append_def by (rule same_othersI) (blast dest: fs_WriteAt_other)+

lemma bufio_Flush_others: "bufio_Flush (fs_Append f) b s = (e, b', s') \<Longrightarrow> HasPrefix f WalLogPrefix \<Longrightarrow> same_others s s'"
  by (auto simp: bufio_Flush_def Let_def split: prod.splits if_splits dest: fs_Append_others)

lemma bufio_put_others: "bufio_put (fs_Append f) p b s = (e, b', s') \<Longrightarrow> HasPrefix f WalLogPrefix \<Longrightarrow> same_others s s'"
  by (auto simp: bufio_put_def Let_def split: prod.splits if_splits dest: fs_Append_others)

lemma bufio_Write_others: "bufio_Write (fs_Append f) p b s = (e, b', s') \<Longrightarrow> HasPrefix f WalLogPrefix \<Longrightarrow> same_others s s'"
  by (auto simp: bufio_Write_def Let_def split: prod.splits if_splits
      dest: bufio_put_others bufio_Flush_others intro: same_others_trans)

lemma fs_Sync_others: "fs_Sync f s = (e, s') \<Longrightarrow> HasPrefix f WalLogPrefix \<Longrightarrow> same_others s s'"
  by (rule same_othersI) (auto simp: fs_Sync_def split: if_splits option.splits node.splits)

lemma fs_Create_others: "fs_Create f s = (e, s') \<Longrightarrow> HasPrefix f WalLogPrefix \<Longrightarrow> same_others s s'"
  by (rule same_othersI) (auto simp: fs_Create_def split: if_splits)

lemma fs_Remove_others: "fs_Remove f s = (e, s') \<Longrightarrow> HasPrefix f WalLogPrefix \<Longrightarrow> same_others s s'"
  by (rule same_othersI) (auto simp: fs_Remove_def fs_node_def split: if_splits option.splits)

lemmas write_others = bufio_Flush_others bufio_Write_others fs_Sync_others fs_Create_others fs_Remove_others

section \<open>The operations of the log\<close>

lemma flush_frame: "flush w = (e, w') \<Longrightarrow> log_frame w w'"
  by (auto simp: flush_def log_frame_def log_handles_def Let_def split: option.splits prod.splits if_splits
      dest!: write_others dest: same_others_trans)

lemma removeLogFile_frame: "removeLogFile P n w = (e, w') \<Longrightarrow> log_frame w w'"
  by (auto simp: removeLogFile_def log_frame_def log_handles_def Let_def
      split: option.splits prod.splits if_splits sum.splits
      dest!: fs_Remove_others [OF _ generateLogFilePath_prefix])

lemma open_next_segment_frame: "open_next_segment w = (e, w') \<Longrightarrow> log_frame w w'"
proof -
  assume o: "open_next_segment w = (e, w')"
  let ?w1 = "w\<lparr>w_lastSegmentNo := w_lastSegmentNo w + 1\<rparr>"
  let ?p = "generateLogFilePath (w_lastSegmentNo w + 1)"
  obtain ce d where c: "fs_Create ?p (w_disk w) = (ce, d)" by (cases "fs_Create ?p (w_disk w)")
  note cd = fs_Create_others [OF c generateLogFilePath_prefix]
  show ?thesis
  proof (cases ce)
    case (Some x)
    with o c cd show ?thesis by (auto simp: open_next_segment_def Let_def log_frame_def log_handles_def)
  next
    case None
    let ?w2 = "?w1\<lparr>w_disk := d, w_segment := Some ?p, w_curSegmentSize := 0\<rparr>"
    obtain fe w3 where f: "(if w_writer ?w2 \<noteq> None then flush ?w2 else (None, ?w2)) = (fe, w3)"
      by (cases "if w_writer ?w2 \<noteq> None then flush ?w2 else (None, ?w2)")
    then have "log_frame ?w2 w3" by (auto dest: flush_frame split: if_splits)
    moreover have "log_frame w ?w2" using cd by (simp add: log_frame_def log_handles_def generateLogFilePath_prefix)
    ultimately have "log_frame w w3" by (rule log_frame_trans [rotated])
    moreover have "w' = w3 \<or> w' = w3\<lparr>w_writer := Some (?p, NewWriter)\<rparr>"
      using o c None f by (auto simp: open_next_segment_def Let_def split: option.splits)
    moreover have "log_frame w3 (w3\<lparr>w_writer := Some (?p, NewWriter)\<rparr>)"
      by (simp add: log_frame_def log_handles_def generateLogFilePath_prefix)
    ultimately show ?thesis by (blast intro: log_frame_trans)
  qed
qed

lemma addNewLogFile_frame: "addNewLogFile P w = (e, w') \<Longrightarrow> log_frame w w'"
proof -
  assume a: "addNewLogFile P w = (e, w')"
  obtain e1 w1 where r: "(if w_maxSegements w \<le> countLogFiles w then removeLastLogFile P w else (None, w)) = (e1, w1)"
    by (cases "if w_maxSegements w \<le> countLogFiles w then removeLastLogFile P w else (None, w)")
  then have f: "log_frame w w1" by (auto simp: removeLastLogFile_def dest: removeLogFile_frame split: if_splits)
  with a r show ?thesis
    by (cases e1) (auto simp: addNewLogFile_def dest: open_next_segment_frame log_frame_trans)
qed

lemma write_entry_frame: "write_entry m w = (e, w') \<Longrightarrow> log_frame w w'"
  by (auto simp: write_entry_def log_frame_def log_handles_def split: option.splits prod.splits
      dest!: bufio_Write_others dest: same_others_trans)

lemma AppendEntry_frame:
  assumes "AppendEntry P data del w = (r, w')"
  shows "log_frame w w'"
proof -
  obtain e w1 where a: "appendEntry P data del w = (e, w1)" by (cases "appendEntry P data del w")
  with assms have "w' = w1" by (auto simp: AppendEntry_def split: option.splits)
  obtain e2 w2 where r: "(if w_maxSegmentSize w \<le> w_curSegmentSize w then addNewLogFile P w else (None, w)) = (e2, w2)"
    by (cases "if w_maxSegmentSize w \<le> w_curSegmentSize w then addNewLogFile P w else (None, w)")
  then have f: "log_frame w w2" by (auto dest: addNewLogFile_frame split: if_splits)
  let ?w3 = "w2\<lparr>w_lastSequenceNo := w_lastSequenceNo w2 + 1\<rparr>"
  have "log_frame w2 ?w3" by (simp add: log_frame_def log_handles_def)
  with f have f3: "log_frame w ?w3" by (rule log_frame_trans)
  show ?thesis
  proof (cases "e2 = None \<and> (\<exists>m. marshallEntry P (new_entry (w_lastSequenceNo w2 + 1) data del) = Inr m)")
    case False
    with a r have "w1 = w2 \<or> w1 = ?w3" by (auto simp: appendEntry_def Let_def split: option.splits sum.splits)
    with f f3 \<open>w' = w1\<close> show ?thesis by auto
  next
    case True
    then obtain m where m: "marshallEntry P (new_entry (w_lastSequenceNo w2 + 1) data del) = Inr m" by blast
    let ?c = "w_maxSegmentSize w2 \<le> w_curSegmentSize w + word_of_nat (length m) + 4"
    obtain e4 w4 where r4: "(if ?c then addNewLogFile P ?w3 else (None, ?w3)) = (e4, w4)"
      by (cases "if ?c then addNewLogFile P ?w3 else (None, ?w3)")
    then have "log_frame ?w3 w4" by (auto dest: addNewLogFile_frame split: if_splits)
    with f3 have f4: "log_frame w w4" by (rule log_frame_trans)
    have "w1 = w4 \<or> write_entry m w4 = (e, w1)"
      using a r r4 m True by (auto simp: appendEntry_def Let_def split: option.splits if_splits)
    with f4 \<open>w' = w1\<close> show ?thesis by (auto dest: write_entry_frame intro: log_frame_trans)
  qed
qed

lemma flushBuffer_frame: "log_frame w (flushBuffer w)"
  using flush_frame [of w "fst (flush w)" "snd (flush w)"] by (simp add: flushBuffer_def)

text \<open>In particular the snapshot and its temporary file are left alone.\<close>

lemma wal_rep_handles: "wal_rep P w lo closed cur \<Longrightarrow> log_handles w"
  by (auto simp: wal_rep_def wal_store_def log_handles_def)

lemma snapshot_names [simp]: "\<not> HasPrefix SnapshotFile WalLogPrefix" "\<not> HasPrefix snapshotTmp WalLogPrefix"
  by (simp_all add: HasPrefix_def SnapshotFile_def WalLogPrefix_def snapshotTmp_def generateSnapshotFileName_def)

lemma log_frame_snapshot:
  assumes "log_frame w w'" "wal_rep P w lo closed cur"
  shows "fs_node (w_disk w') SnapshotFile = fs_node (w_disk w) SnapshotFile"
    "fs_node (w_disk w') snapshotTmp = fs_node (w_disk w) snapshotTmp"
proof -
  from assms have "same_others (w_disk w) (w_disk w')" using wal_rep_handles by (auto simp: log_frame_def)
  then show "fs_node (w_disk w') SnapshotFile = fs_node (w_disk w) SnapshotFile"
    "fs_node (w_disk w') snapshotTmp = fs_node (w_disk w) snapshotTmp"
    by (auto dest: same_others_node [OF _ snapshot_names(1)] same_others_node [OF _ snapshot_names(2)])
qed

end
