(* ===== verification/Wal_Properties.thy ===== *)
theory Wal_Properties
  imports Store_Properties Wal_Frame
begin

text \<open>
  The write-ahead log under concurrent use, as a step relation: callers that append and wait, the
  goroutine that flushes, the return of a caller whose channel has been closed, the application that
  changes the map behind the snapshots, and the goroutine that takes snapshots, in its two parts: it
  reads the sequence number and the segment number under the lock of the log, and later writes the
  map, whatever it has become, and removes the segments before that one. The invariant gives the
  durability of what has been acknowledged. Then the cases in which the log does not do what it
  should: a full segment and a torn tail.
\<close>

section \<open>The system\<close>

text \<open>
  \<open>sy_acked\<close> and \<open>sy_covered\<close> are for the statements: the entries whose append has returned nil, and
  the number and the map of the last snapshot that ended without an error. No step reads them.
\<close>

record wal_sys =
  sy_wal :: WAL
  sy_files :: files
  sy_waiting :: "(nat \<times> WAL_Entry) list"
  sy_snap :: "(u64 \<times> u64) option"
  sy_acked :: "WAL_Entry list"
  sy_covered :: "(u64 \<times> files) option"

definition sys_start :: "files \<Rightarrow> WAL \<Rightarrow> wal_sys" where
  "sys_start f w = \<lparr>sy_wal = w, sy_files = f, sy_waiting = [], sy_snap = None, sy_acked = [], sy_covered = None\<rparr>"

text \<open>An append up to its wait, which it reaches only if it has not failed.\<close>

definition sys_append :: "WAL_Entry proto \<Rightarrow> bytes \<Rightarrow> bool \<Rightarrow> wal_sys \<Rightarrow> wal_sys" where
  "sys_append Pe data del s =
     (case AppendEntry Pe data del (sy_wal s) of
        (Inl e, w') \<Rightarrow> s\<lparr>sy_wal := w'\<rparr>
      | (Inr g, w') \<Rightarrow> s\<lparr>sy_wal := w',
          sy_waiting := (g, new_entry (w_lastSequenceNo w') data del) # sy_waiting s\<rparr>)"

definition sys_snap_begin :: "wal_sys \<Rightarrow> wal_sys" where
  "sys_snap_begin s =
     (if w_cancelled (sy_wal s) \<or> sy_snap s \<noteq> None then s
      else s\<lparr>sy_snap := Some (w_lastSequenceNo (sy_wal s), w_lastSegmentNo (sy_wal s))\<rparr>)"

definition sys_snap_end :: "WAL_Entry proto \<Rightarrow> FileMetadata proto \<Rightarrow> (files \<Rightarrow> string list) \<Rightarrow> wal_sys \<Rightarrow> wal_sys" where
  "sys_snap_end Pe Pm order s =
     (case sy_snap s of
        None \<Rightarrow> s
      | Some (seqNo, segNo) \<Rightarrow>
          (case finish_snapshot Pe (file_snapshotable Pe Pm order) seqNo segNo (sy_files s, sy_wal s) of
             (err, (f, w')) \<Rightarrow> s\<lparr>sy_wal := w', sy_snap := None,
               sy_covered := if err = None then Some (seqNo, sy_files s) else sy_covered s\<rparr>))"

definition sys_ack :: "nat \<Rightarrow> WAL_Entry \<Rightarrow> wal_sys \<Rightarrow> wal_sys" where
  "sys_ack g e s = s\<lparr>sy_waiting := remove1 (g, e) (sy_waiting s), sy_acked := e # sy_acked s\<rparr>"

inductive wal_step ::
  "WAL_Entry proto \<Rightarrow> FileMetadata proto \<Rightarrow> (files \<Rightarrow> string list) \<Rightarrow> wal_sys \<Rightarrow> wal_sys \<Rightarrow> bool"
  for Pe Pm order where
  Append: "wal_step Pe Pm order s (sys_append Pe data del s)"
| Flush: "wal_step Pe Pm order s (s\<lparr>sy_wal := flushBuffer (sy_wal s)\<rparr>)"
| Acknowledge: "(g, e) \<in> set (sy_waiting s) \<Longrightarrow> AppendEntry_returns g (sy_wal s) \<Longrightarrow>
     wal_step Pe Pm order s (sys_ack g e s)"
| Update: "wal_step Pe Pm order s (s\<lparr>sy_files := f\<rparr>)"
| SnapshotBegin: "wal_step Pe Pm order s (sys_snap_begin s)"
| SnapshotEnd: "wal_step Pe Pm order s (sys_snap_end Pe Pm order s)"

text \<open>
  The steps that the guarantees are about: only entries are appended that fit a segment
  (\<open>can_append\<close>), and the map has only records that marshal, under their own names. What the log
  does with an entry that does not fit is the subject of \<open>full_segment_rotates_twice\<close> below.
\<close>

inductive fitting_step ::
  "WAL_Entry proto \<Rightarrow> FileMetadata proto \<Rightarrow> (files \<Rightarrow> string list) \<Rightarrow> wal_sys \<Rightarrow> wal_sys \<Rightarrow> bool"
  for Pe Pm order where
  FitAppend: "can_append Pe data del (sy_wal s) \<Longrightarrow> fitting_step Pe Pm order s (sys_append Pe data del s)"
| FitFlush: "fitting_step Pe Pm order s (s\<lparr>sy_wal := flushBuffer (sy_wal s)\<rparr>)"
| FitAcknowledge: "(g, e) \<in> set (sy_waiting s) \<Longrightarrow> AppendEntry_returns g (sy_wal s) \<Longrightarrow>
     fitting_step Pe Pm order s (sys_ack g e s)"
| FitUpdate: "store_ok Pm f \<Longrightarrow> fitting_step Pe Pm order s (s\<lparr>sy_files := f\<rparr>)"
| FitSnapshotBegin: "fitting_step Pe Pm order s (sys_snap_begin s)"
| FitSnapshotEnd: "fitting_step Pe Pm order s (sys_snap_end Pe Pm order s)"

inductive_cases fitting_stepE: "fitting_step Pe Pm order s s'"

lemma fitting_step_wal_step: "fitting_step Pe Pm order s s' \<Longrightarrow> wal_step Pe Pm order s s'"
  by (induction rule: fitting_step.induct) (auto intro: wal_step.intros)

text \<open>Nothing left over from an earlier snapshot stands in the way of the next one.\<close>

definition snapshot_clear :: "fs \<Rightarrow> bool" where
  "snapshot_clear d \<longleftrightarrow> fs_node d snapshotTmp = None \<and> fs_node d SnapshotFile \<noteq> Some Dir"

text \<open>An entry can be found on the disk: it is in the readable part of a segment file.\<close>

definition on_disk :: "WAL_Entry proto \<Rightarrow> fs \<Rightarrow> WAL_Entry \<Rightarrow> bool" where
  "on_disk P d e \<longleftrightarrow> (\<exists>nm k t. HasPrefix nm WalLogPrefix \<and> is_file d nm \<and> file_data nm d = wl.frames P k @ t \<and>
     list_all (entry_wf P) k \<and> e \<in> set k)"

lemma durable_on_disk:
  assumes "wal_rep P w lo closed cur" "durable P w lo closed cur e"
  shows "on_disk P (w_disk w) e"
proof -
  from assms(1) obtain b c where d: "log_disk (w_disk w) lo (map (wl.frames P) closed @ [c])"
    by (auto simp: wal_rep_def elim: wal_storeE)
  from assms(1) have wf: "list_all (entry_wf P) (concat closed @ cur)" by (simp add: wal_rep_def wal_store_def)
  show ?thesis
  proof (cases "e \<in> set (concat closed)")
    case True
    then obtain es where "es \<in> set closed" "e \<in> set es" by auto
    then obtain i where i: "i < length closed" "e \<in> set (closed ! i)" by (metis in_set_conv_nth)
    then have l: "i < length (map (wl.frames P) closed @ [c])" by simp
    from log_diskD(6) [OF d l] i(1) have "file_data (seg_name (lo + i)) (w_disk w) = wl.frames P (closed ! i) @ []"
      by (simp add: nth_append)
    moreover have "list_all (entry_wf P) (closed ! i)" using wf nth_mem [OF i(1)] by (auto simp: list_all_iff)
    ultimately show ?thesis using log_diskD(5) [OF d l] i(2) HasPrefix_seg_name unfolding on_disk_def by blast
  next
    case False
    with assms(2) obtain k k' t where k: "cur = k @ k'" "e \<in> set k"
      "file_data (seg_name (lo + length closed)) (w_disk w) = wl.frames P k @ t" unfolding durable_def by blast
    then have "list_all (entry_wf P) k" using wf by simp
    moreover have "is_file (w_disk w) (seg_name (lo + length closed))"
      using log_diskD(5) [OF d, of "length closed"] by simp
    ultimately show ?thesis using k(2,3) HasPrefix_seg_name unfolding on_disk_def by blast
  qed
qed

section \<open>The invariant\<close>

text \<open>\<open>safe\<close>: an entry is on the disk, or the last snapshot covers it.\<close>

definition safe where
  "safe P w lo closed cur e \<longleftrightarrow> durable P w lo closed cur e \<or> LogSequenceNo e \<le> w_lastSnapshot w"

definition waiting_ok where
  "waiting_ok P w lo closed cur g e \<longleftrightarrow> g \<le> w_flushDone w \<and>
     (e \<in> set (concat closed @ cur) \<or> LogSequenceNo e \<le> w_lastSnapshot w) \<and>
     (g < w_flushDone w \<longrightarrow> safe P w lo closed cur e)"

text \<open>
  What does not depend on the layout of the log: the number of the last snapshot and its file, the
  numbers of one that is going on, and that only entries later than \<open>n0\<close>, the last snapshot of the
  start, are waiting or acknowledged.
\<close>

definition covers_inv :: "FileMetadata proto \<Rightarrow> u64 \<Rightarrow> wal_sys \<Rightarrow> bool" where
  "covers_inv Pm n0 s \<longleftrightarrow> store_ok Pm (sy_files s) \<and> snapshot_clear (w_disk (sy_wal s)) \<and>
     n0 \<le> w_lastSnapshot (sy_wal s) \<and>
     (\<forall>e \<in> set (sy_acked s) \<union> snd ` set (sy_waiting s). n0 < LogSequenceNo e) \<and>
     (case sy_covered s of
        None \<Rightarrow> w_lastSnapshot (sy_wal s) = n0
      | Some (n, f) \<Rightarrow> w_lastSnapshot (sy_wal s) = n \<and> snapshot_file Pm n f (w_disk (sy_wal s)))"

definition snap_going :: "wal_sys \<Rightarrow> nat \<Rightarrow> WAL_Entry list list \<Rightarrow> WAL_Entry list \<Rightarrow> bool" where
  "snap_going s lo closed cur \<longleftrightarrow> (\<forall>n seg. sy_snap s = Some (n, seg) \<longrightarrow>
     w_lastSnapshot (sy_wal s) \<le> n \<and> n \<le> w_lastSequenceNo (sy_wal s) \<and>
     (\<exists>k. seg = word_of_nat k \<and> snap_point n k lo closed cur))"

definition sys_inv :: "WAL_Entry proto \<Rightarrow> FileMetadata proto \<Rightarrow> u64 \<Rightarrow> wal_sys \<Rightarrow> bool" where
  "sys_inv P Pm n0 s \<longleftrightarrow> covers_inv Pm n0 s \<and> (\<exists>lo closed cur. wal_rep P (sy_wal s) lo closed cur \<and>
     (\<forall>e \<in> set (sy_acked s). safe P (sy_wal s) lo closed cur e) \<and>
     (\<forall>(g, e) \<in> set (sy_waiting s). waiting_ok P (sy_wal s) lo closed cur g e) \<and> snap_going s lo closed cur)"

lemma sys_invE:
  assumes "sys_inv P Pm n0 s"
  obtains lo closed cur where "covers_inv Pm n0 s" "wal_rep P (sy_wal s) lo closed cur"
    "\<forall>e. e \<in> set (sy_acked s) \<longrightarrow> safe P (sy_wal s) lo closed cur e"
    "\<forall>g e. (g, e) \<in> set (sy_waiting s) \<longrightarrow> waiting_ok P (sy_wal s) lo closed cur g e"
    "snap_going s lo closed cur"
  using assms unfolding sys_inv_def by blast

lemma sys_invI:
  assumes "covers_inv Pm n0 s" "wal_rep P (sy_wal s) lo closed cur"
    "\<And>e. e \<in> set (sy_acked s) \<Longrightarrow> safe P (sy_wal s) lo closed cur e"
    "\<And>g e. (g, e) \<in> set (sy_waiting s) \<Longrightarrow> waiting_ok P (sy_wal s) lo closed cur g e"
    "snap_going s lo closed cur"
  shows "sys_inv P Pm n0 s"
  using assms unfolding sys_inv_def by blast

text \<open>The log's own operations leave the snapshot on the disk.\<close>

lemma covers_inv_frame:
  assumes "covers_inv Pm n0 s" "log_frame (sy_wal s) w'" "wal_rep P (sy_wal s) lo closed cur" "wal_rep P w' lo' closed' cur'"
    and "w_lastSnapshot w' = w_lastSnapshot (sy_wal s)"
  shows "covers_inv Pm n0 (s\<lparr>sy_wal := w'\<rparr>)"
proof -
  have "\<not> faults (w_disk w') OpOpen SnapshotFile"
    using assms(4) by (auto simp: wal_rep_def wal_store_def dest: log_diskD(2) no_faultsD)
  with assms(1,5) log_frame_snapshot [OF assms(2,3)] show ?thesis
    by (auto simp: covers_inv_def snapshot_clear_def snapshot_file_def fs_Open_def split: option.splits if_splits)
qed

lemma safe_log: "safe P w lo closed cur e \<Longrightarrow> e \<in> set (concat closed @ cur) \<or> LogSequenceNo e \<le> w_lastSnapshot w"
  using durable_log unfolding safe_def by blast

lemma waiting_ok_append:
  assumes kept: "log_kept P w lo closed cur w' lo' closed' cur'" and snap: "w_lastSnapshot w' = w_lastSnapshot w"
    and log: "(concat closed @ cur) @ [e] = dropped @ (concat closed' @ cur')"
    and cov: "\<forall>x \<in> set dropped. LogSequenceNo x \<le> w_lastSnapshot w" and wait: "waiting_ok P w lo closed cur g x"
  shows "waiting_ok P w' lo' closed' cur' g x"
proof -
  from kept have mono: "w_flushDone w \<le> w_flushDone w'"
    and k1: "durable P w lo closed cur x \<Longrightarrow> durable P w' lo' closed' cur' x \<or> LogSequenceNo x \<le> w_lastSnapshot w"
    and k2: "w_flushDone w < w_flushDone w' \<Longrightarrow> x \<in> set (concat closed @ cur) \<Longrightarrow>
       durable P w' lo' closed' cur' x \<or> LogSequenceNo x \<le> w_lastSnapshot w" unfolding log_kept_def by blast+
  from wait have g: "g \<le> w_flushDone w" "x \<in> set (concat closed @ cur) \<or> LogSequenceNo x \<le> w_lastSnapshot w"
    "g < w_flushDone w \<Longrightarrow> safe P w lo closed cur x" unfolding waiting_ok_def by blast+
  have mem: "x \<in> set (concat closed' @ cur') \<or> LogSequenceNo x \<le> w_lastSnapshot w'"
  proof (cases "x \<in> set (concat closed @ cur)")
    case True
    then have "x \<in> set (dropped @ (concat closed' @ cur'))" unfolding log [symmetric] by simp
    with cov snap show ?thesis by auto
  qed (use g(2) snap in simp)
  have "safe P w' lo' closed' cur' x" if "g < w_flushDone w'"
  proof (cases "g < w_flushDone w")
    case True
    from g(3) [OF True] k1 snap show ?thesis unfolding safe_def by metis
  next
    case False
    with that g(1) have "w_flushDone w < w_flushDone w'" by simp
    with k2 g(2) snap show ?thesis unfolding safe_def by metis
  qed
  with g(1) mono mem show ?thesis unfolding waiting_ok_def by simp
qed

lemma sys_inv_append:
  assumes P: "proto_ok P" and inv: "sys_inv P Pm n0 s" and ok: "can_append P data del (sy_wal s)"
  shows "sys_inv P Pm n0 (sys_append P data del s)"
proof -
  let ?w = "sy_wal s" and ?e = "new_entry (w_lastSequenceNo (sy_wal s) + 1) data del"
  from inv obtain lo closed cur where i: "covers_inv Pm n0 s" "wal_rep P ?w lo closed cur"
    "\<forall>e. e \<in> set (sy_acked s) \<longrightarrow> safe P ?w lo closed cur e"
    "\<forall>g e. (g, e) \<in> set (sy_waiting s) \<longrightarrow> waiting_ok P ?w lo closed cur g e" "snap_going s lo closed cur" by (rule sys_invE)
  from append_wal_rep [OF P i(2) ok] obtain w1 lo' closed' cur' dropped where
    w1: "appendEntry P data del ?w = (None, w1)" "wal_rep P w1 lo' closed' cur'"
    "(concat closed @ cur) @ [?e] = dropped @ (concat closed' @ cur')"
    "\<forall>x \<in> set dropped. LogSequenceNo x \<le> w_lastSnapshot ?w" "w_lastSnapshot w1 = w_lastSnapshot ?w"
    "?e \<in> set cur'" "log_kept P ?w lo closed cur w1 lo' closed' cur'" "w_lastSequenceNo w1 = w_lastSequenceNo ?w + 1"
    "\<forall>n k. n \<le> w_lastSequenceNo ?w \<longrightarrow> snap_point n k lo closed cur \<longrightarrow> snap_point n k lo' closed' cur'" by blast
  then have a: "AppendEntry P data del ?w = (Inr (w_flushDone w1), w1)" by (simp add: AppendEntry_def)
  let ?s = "s\<lparr>sy_wal := w1, sy_waiting := (w_flushDone w1, ?e) # sy_waiting s\<rparr>"
  have s: "sys_append P data del s = ?s" using a w1(8) by (simp add: sys_append_def)
  have lt: "w_lastSequenceNo ?w < w_lastSequenceNo ?w + 1" using ok by (simp add: can_append_def word_less_nat_alt unat_word_ariths)
  have keep: "safe P w1 lo' closed' cur' x" if "safe P ?w lo closed cur x" for x
    using that w1(5,7) unfolding safe_def log_kept_def by metis
  have new: "waiting_ok P w1 lo' closed' cur' (w_flushDone w1) ?e" using w1(6) by (simp add: waiting_ok_def)
  have le: "n0 \<le> w_lastSequenceNo ?w" using i(1,2) by (auto simp: covers_inv_def wal_rep_def intro: order_trans)
  have "covers_inv Pm n0 (s\<lparr>sy_wal := w1\<rparr>)" using covers_inv_frame [OF i(1) AppendEntry_frame [OF a] i(2) w1(2,5)] .
  then have "covers_inv Pm n0 ?s" using le lt by (auto simp: covers_inv_def new_entry_def split: option.splits)
  moreover have "snap_going ?s lo' closed' cur'"
    using i(5) lt w1(5,8,9) by (fastforce simp: snap_going_def)
  ultimately show ?thesis unfolding s
    by (intro sys_invI [of Pm n0 _ P lo' closed' cur'])
      (use w1(2) i(3) keep new waiting_ok_append [OF w1(7,5,3,4) i(4) [rule_format]] in auto)
qed

lemma sys_inv_flush:
  assumes inv: "sys_inv P Pm n0 s"
  shows "sys_inv P Pm n0 (s\<lparr>sy_wal := flushBuffer (sy_wal s)\<rparr>)"
proof (cases "w_cancelled (sy_wal s)")
  case True
  with inv show ?thesis by (simp add: flushBuffer_def)
next
  case False
  from inv obtain lo closed cur where i: "covers_inv Pm n0 s" "wal_rep P (sy_wal s) lo closed cur"
    "\<forall>e. e \<in> set (sy_acked s) \<longrightarrow> safe P (sy_wal s) lo closed cur e"
    "\<forall>g e. (g, e) \<in> set (sy_waiting s) \<longrightarrow> waiting_ok P (sy_wal s) lo closed cur g e" "snap_going s lo closed cur"
    by (rule sys_invE)
  from flush_wal_rep [OF i(2)] obtain w' where w': "flush (sy_wal s) = (None, w')" "wal_rep P w' lo closed cur"
    "w_flushDone w' = w_flushDone (sy_wal s) + 1" "w_lastSnapshot w' = w_lastSnapshot (sy_wal s)"
    "\<forall>x \<in> set (concat closed @ cur). durable P w' lo closed cur x" "w_lastSequenceNo w' = w_lastSequenceNo (sy_wal s)" by blast
  have s: "s\<lparr>sy_wal := flushBuffer (sy_wal s)\<rparr> = s\<lparr>sy_wal := w'\<rparr>" using False w'(1) by (simp add: flushBuffer_def)
  have all: "safe P w' lo closed cur x"
    if "x \<in> set (concat closed @ cur) \<or> LogSequenceNo x \<le> w_lastSnapshot (sy_wal s)" for x
    using that w'(4,5) unfolding safe_def by metis
  have "safe P w' lo closed cur e" if "e \<in> set (sy_acked s)" for e
    using all safe_log [OF i(3) [rule_format, OF that]] by blast
  moreover have "waiting_ok P w' lo closed cur g e" if "(g, e) \<in> set (sy_waiting s)" for g e
    using i(4) [rule_format, OF that] all w'(3,4) by (auto simp: waiting_ok_def)
  moreover have "covers_inv Pm n0 (s\<lparr>sy_wal := w'\<rparr>)"
    using covers_inv_frame [OF i(1) flush_frame [OF w'(1)] i(2) w'(2,4)] .
  moreover have "snap_going (s\<lparr>sy_wal := w'\<rparr>) lo closed cur" using i(5) w'(4,6) by (simp add: snap_going_def)
  ultimately show ?thesis unfolding s using w'(2) by (intro sys_invI [of Pm n0 _ P lo closed cur]) simp_all
qed

lemma sys_inv_acknowledge:
  assumes inv: "sys_inv P Pm n0 s" and e: "(g, e) \<in> set (sy_waiting s)" "AppendEntry_returns g (sy_wal s)"
  shows "sys_inv P Pm n0 (sys_ack g e s)"
proof -
  from inv obtain lo closed cur where i: "covers_inv Pm n0 s" "wal_rep P (sy_wal s) lo closed cur"
    "\<forall>e. e \<in> set (sy_acked s) \<longrightarrow> safe P (sy_wal s) lo closed cur e"
    "\<forall>g e. (g, e) \<in> set (sy_waiting s) \<longrightarrow> waiting_ok P (sy_wal s) lo closed cur g e" "snap_going s lo closed cur"
    by (rule sys_invE)
  note sub = set_remove1_subset [of "(g, e)" "sy_waiting s"]
  have "safe P (sy_wal s) lo closed cur e" using i(4) [rule_format, OF e(1)] e(2) by (simp add: waiting_ok_def AppendEntry_returns_def)
  moreover have "covers_inv Pm n0 (sys_ack g e s)"
    using i(1) e(1) sub unfolding covers_inv_def sys_ack_def by (force split: option.splits)
  moreover have "snap_going (sys_ack g e s) lo closed cur" using i(5) by (simp add: snap_going_def sys_ack_def)
  ultimately show ?thesis using i(2-4) sub
    by (intro sys_invI [of Pm n0 _ P lo closed cur]) (auto simp: sys_ack_def)
qed

lemma sys_inv_snap_begin:
  assumes inv: "sys_inv P Pm n0 s"
  shows "sys_inv P Pm n0 (sys_snap_begin s)"
proof -
  from inv obtain lo closed cur where i: "covers_inv Pm n0 s" "wal_rep P (sy_wal s) lo closed cur"
    "\<forall>e. e \<in> set (sy_acked s) \<longrightarrow> safe P (sy_wal s) lo closed cur e"
    "\<forall>g e. (g, e) \<in> set (sy_waiting s) \<longrightarrow> waiting_ok P (sy_wal s) lo closed cur g e" "snap_going s lo closed cur"
    by (rule sys_invE)
  have "w_lastSegmentNo (sy_wal s) = word_of_nat (lo + length closed)" "w_lastSnapshot (sy_wal s) \<le> w_lastSequenceNo (sy_wal s)"
    using i(2) by (simp_all add: wal_rep_def wal_store_def)
  moreover from this(1) have "\<exists>k. w_lastSegmentNo (sy_wal s) = word_of_nat k \<and> snap_point (w_lastSequenceNo (sy_wal s)) k lo closed cur"
    using snap_point_now [OF wal_rep_numbered [OF i(2)]] by blast
  ultimately have "snap_going (sys_snap_begin s) lo closed cur"
    using i(5) by (simp add: snap_going_def sys_snap_begin_def)
  moreover have "covers_inv Pm n0 (sys_snap_begin s)" using i(1)
    by (auto simp: covers_inv_def sys_snap_begin_def split: option.splits)
  ultimately show ?thesis using i(2-4)
    by (intro sys_invI [of Pm n0 _ P lo closed cur]) (auto simp: sys_snap_begin_def)
qed

lemma sys_inv_snap_end:
  assumes P: "proto_ok Pe" "proto_ok Pm" "order_ok order" and inv: "sys_inv Pe Pm n0 s"
  shows "sys_inv Pe Pm n0 (sys_snap_end Pe Pm order s)"
proof (cases "sy_snap s")
  case None
  with inv show ?thesis by (simp add: sys_snap_end_def)
next
  case (Some nk)
  then obtain n seg where nk: "sy_snap s = Some (n, seg)" by (cases nk) simp
  let ?w = "sy_wal s"
  from inv obtain lo closed cur where i: "covers_inv Pm n0 s" "wal_rep Pe ?w lo closed cur"
    "\<forall>e. e \<in> set (sy_acked s) \<longrightarrow> safe Pe ?w lo closed cur e"
    "\<forall>g e. (g, e) \<in> set (sy_waiting s) \<longrightarrow> waiting_ok Pe ?w lo closed cur g e" "snap_going s lo closed cur"
    by (rule sys_invE)
  from i(5) nk obtain k where k: "seg = word_of_nat k" "snap_point n k lo closed cur" "w_lastSnapshot ?w \<le> n"
    "n \<le> w_lastSequenceNo ?w" by (auto simp: snap_going_def)
  have d: "store_ok Pm (sy_files s)" "fs_node (w_disk ?w) snapshotTmp = None" "fs_node (w_disk ?w) SnapshotFile \<noteq> Some Dir"
    using i(1) by (simp_all add: covers_inv_def snapshot_clear_def)
  let ?lo = "lo + (k - lo)" and ?cl = "drop (k - lo) closed"
  from wal_snapshot_finished [OF P i(2) d k(2,4)] obtain w' where
    w': "finish_snapshot Pe (file_snapshotable Pe Pm order) n seg (sy_files s, ?w) = (None, (sy_files s, w'))"
    "wal_rep Pe w' ?lo ?cl cur" "w_flushDone w' = w_flushDone ?w" "w_lastSnapshot w' = n"
    "snapshot_file Pm n (sy_files s) (w_disk w')" "fs_node (w_disk w') snapshotTmp = None"
    "\<forall>x \<in> set (concat ?cl @ cur). durable Pe ?w lo closed cur x \<longrightarrow> durable Pe w' ?lo ?cl cur x"
    unfolding k(1) by blast
  let ?s = "s\<lparr>sy_wal := w', sy_snap := None, sy_covered := Some (n, sy_files s)\<rparr>"
  have s: "sys_snap_end Pe Pm order s = ?s" using nk w'(1) by (simp add: sys_snap_end_def)
  have log: "concat closed @ cur = concat (take (k - lo) closed) @ (concat ?cl @ cur)"
    by (simp add: concat_append [symmetric] del: concat_append)
  have dr: "\<forall>e \<in> set (concat (take (k - lo) closed)). LogSequenceNo e \<le> n" using k(2) unfolding snap_point_def by blast
  have stay: "x \<in> set (concat ?cl @ cur) \<or> LogSequenceNo x \<le> n" if "x \<in> set (concat closed @ cur)" for x
    using that dr unfolding log set_append [of "concat (take (k - lo) closed)"] by blast
  have old: "LogSequenceNo x \<le> w_lastSnapshot ?w \<Longrightarrow> LogSequenceNo x \<le> n" for x using k(3) by (rule order_trans [rotated])
  have safe: "safe Pe w' ?lo ?cl cur x" if "safe Pe ?w lo closed cur x" for x
    using that w'(4,7) stay [of x] durable_log [of Pe ?w lo closed cur x] old [of x] unfolding safe_def by metis
  have "waiting_ok Pe w' ?lo ?cl cur g e" if "waiting_ok Pe ?w lo closed cur g e" for g e
    using that w'(3,4) stay [of e] old [of e] safe [of e] unfolding waiting_ok_def by metis
  moreover have "fs_node (w_disk w') SnapshotFile \<noteq> Some Dir"
    using w'(5) by (auto simp: snapshot_file_def fs_Open_def split: option.splits node.splits if_splits)
  then have "covers_inv Pm n0 ?s"
    using i(1) k(3) w'(4-6) by (auto simp: covers_inv_def snapshot_clear_def intro: order_trans)
  moreover have "snap_going ?s ?lo ?cl cur" by (simp add: snap_going_def)
  ultimately show ?thesis unfolding s using w'(2) i(3,4) safe
    by (intro sys_invI [of Pm n0 _ Pe ?lo ?cl cur]) simp_all
qed

lemma sys_inv_update:
  assumes "sys_inv P Pm n0 s" "store_ok Pm f"
  shows "sys_inv P Pm n0 (s\<lparr>sy_files := f\<rparr>)"
  using assms by (auto simp: sys_inv_def covers_inv_def snap_going_def split: option.splits)

lemma sys_inv_step:
  assumes P: "proto_ok Pe" "proto_ok Pm" "order_ok order" and "sys_inv Pe Pm n0 s" "fitting_step Pe Pm order s s'"
  shows "sys_inv Pe Pm n0 s'"
  using assms(5)
  by cases (use assms in \<open>auto intro: sys_inv_append sys_inv_flush sys_inv_acknowledge sys_inv_update
      sys_inv_snap_begin sys_inv_snap_end\<close>)

lemma sys_inv_reachable:
  assumes "proto_ok Pe" "proto_ok Pm" "order_ok order" "wal_rep Pe w lo closed cur" "store_ok Pm f" "snapshot_clear (w_disk w)"
    and "(fitting_step Pe Pm order)\<^sup>*\<^sup>* (sys_start f w) s"
  shows "sys_inv Pe Pm (w_lastSnapshot w) s"
proof -
  have "sys_inv Pe Pm (w_lastSnapshot w) (sys_start f w)"
    using assms(4-6) by (auto simp: sys_inv_def covers_inv_def snap_going_def sys_start_def)
  with assms(7) show ?thesis by (induction rule: rtranclp_induct) (auto intro: sys_inv_step [OF assms(1-3)])
qed

text \<open>
  C3: acknowledged entries are durable: take a log on a healthy disk, with nothing in the way of a
  snapshot, and a run in which only entries that fit a segment are appended, with flushes, with
  snapshots that read their numbers at one moment and write the map at a later one, and with a map
  that changes all the time. In every state an entry whose \<open>AppendEntry\<close> has returned nil is readable
  in a segment file, or covered by a snapshot: its number is at most the one with which the snapshot
  file begins, and the rest of that file has all records of the map that the snapshot was to write.
\<close>

theorem wal_acked_durable:
  assumes "proto_ok Pe" "proto_ok Pm" "order_ok order" "wal_rep Pe w lo closed cur" "store_ok Pm f" "snapshot_clear (w_disk w)"
    and "(fitting_step Pe Pm order)\<^sup>*\<^sup>* (sys_start f w) s" "e \<in> set (sy_acked s)"
  shows "on_disk Pe (w_disk (sy_wal s)) e \<or>
    (\<exists>n g. sy_covered s = Some (n, g) \<and> LogSequenceNo e \<le> n \<and> snapshot_file Pm n g (w_disk (sy_wal s)))"
proof -
  from sys_inv_reachable [OF assms(1-7)] obtain lo' closed' cur' where
    i: "covers_inv Pm (w_lastSnapshot w) s" "wal_rep Pe (sy_wal s) lo' closed' cur'"
    "\<forall>e. e \<in> set (sy_acked s) \<longrightarrow> safe Pe (sy_wal s) lo' closed' cur' e" by (rule sys_invE)
  have "w_lastSnapshot w < LogSequenceNo e" using i(1) assms(8) by (auto simp: covers_inv_def)
  with i(1) have "\<exists>n g. sy_covered s = Some (n, g) \<and> LogSequenceNo e \<le> n \<and> snapshot_file Pm n g (w_disk (sy_wal s))"
    if "LogSequenceNo e \<le> w_lastSnapshot (sy_wal s)"
    using that by (auto simp: covers_inv_def split: option.splits)
  with i(3) assms(8) durable_on_disk [OF i(2)] show ?thesis unfolding safe_def by blast
qed

lemma demo_can_append: "can_append sample_entry [1] False (demo_wal sample_entry demo_log)"
  using meta_fits_can_append [of sample_entry demo_codec "demo_wal sample_entry demo_log" "demo_meta 1" "[1]" False]
    demo_fits(1) demo_Marshal(1) demo_room by (simp add: demo_fields log_room_def)

lemma demo_clear: "snapshot_clear (w_disk (demo_wal sample_entry demo_log))"
proof -
  have "snapshotTmp \<noteq> seg_name 1" "snapshotTmp \<noteq> SnapshotFile"
    by (simp_all add: snapshotTmp_def generateSnapshotFileName_def seg_name_1 [unfolded One_nat_def] SnapshotFile_def)
  then show ?thesis by (simp add: snapshot_clear_def demo_nodes)
qed

lemma demo_files_ok: "store_ok demo_codec [''a'' \<mapsto> demo_meta 2]"
  using demo_store_inv by (simp add: store_inv_def)

text \<open>One append, a flush, the return of the caller, and a snapshot.\<close>

lemma demo_run:
  "\<exists>s e. (fitting_step sample_entry demo_codec demo_order)\<^sup>*\<^sup>*
       (sys_start [''a'' \<mapsto> demo_meta 2] (demo_wal sample_entry demo_log)) s \<and> e \<in> set (sy_acked s)"
proof -
  let ?w = "demo_wal sample_entry demo_log" and ?step = "fitting_step sample_entry demo_codec demo_order"
  let ?s0 = "sys_start [''a'' \<mapsto> demo_meta 2] ?w" and ?e = "new_entry (w_lastSequenceNo ?w + 1) [1] False"
  from append_wal_rep [OF sample_entry_ok demo_log_rep(1) demo_can_append] obtain w1 lo closed cur where
    w1: "appendEntry sample_entry [1] False ?w = (None, w1)" "wal_rep sample_entry w1 lo closed cur" "same_config ?w w1"
    "w_lastSequenceNo w1 = w_lastSequenceNo ?w + 1" by blast
  then have a: "AppendEntry sample_entry [1] False ?w = (Inr (w_flushDone w1), w1)" by (simp add: AppendEntry_def)
  let ?s1 = "?s0\<lparr>sy_wal := w1, sy_waiting := [(w_flushDone w1, ?e)]\<rparr>"
  have "sys_append sample_entry [1] False ?s0 = ?s1" using a w1(4) by (simp add: sys_append_def sys_start_def)
  with FitAppend [of sample_entry "[1]" False ?s0 demo_codec demo_order] demo_can_append
  have s1: "?step ?s0 ?s1" by (simp add: sys_start_def)
  from flush_wal_rep [OF w1(2)] obtain w2 where w2: "flush w1 = (None, w2)" "w_flushDone w2 = w_flushDone w1 + 1" by blast
  have "\<not> w_cancelled w1" using w1(3) by (simp add: same_config_def demo_fields)
  with FitFlush [of sample_entry demo_codec demo_order ?s1] w2(1)
  have s2: "?step ?s1 (?s1\<lparr>sy_wal := w2\<rparr>)" by (simp add: flushBuffer_def)
  let ?s3 = "sys_ack (w_flushDone w1) ?e (?s1\<lparr>sy_wal := w2\<rparr>)"
  have s3: "?step (?s1\<lparr>sy_wal := w2\<rparr>) ?s3"
    using w2(2) by (intro FitAcknowledge) (simp_all add: AppendEntry_returns_def)
  have "?step\<^sup>*\<^sup>* ?s0 (sys_snap_end sample_entry demo_codec demo_order (sys_snap_begin ?s3))"
    using s1 s2 s3 FitSnapshotBegin [of sample_entry demo_codec demo_order ?s3]
      FitSnapshotEnd [of sample_entry demo_codec demo_order "sys_snap_begin ?s3"]
    by (meson converse_rtranclp_into_rtranclp r_into_rtranclp)
  moreover have "?e \<in> set (sy_acked (sys_snap_end sample_entry demo_codec demo_order (sys_snap_begin ?s3)))"
    by (simp add: sys_snap_end_def sys_snap_begin_def sys_ack_def split: prod.splits option.splits)
  ultimately show ?thesis by blast
qed

lemma wal_acked_durable_witness:
  "\<exists>s e. (fitting_step sample_entry demo_codec demo_order)\<^sup>*\<^sup>*
       (sys_start [''a'' \<mapsto> demo_meta 2] (demo_wal sample_entry demo_log)) s \<and> e \<in> set (sy_acked s) \<and>
     (on_disk sample_entry (w_disk (sy_wal s)) e \<or>
       (\<exists>n g. sy_covered s = Some (n, g) \<and> LogSequenceNo e \<le> n \<and> snapshot_file demo_codec n g (w_disk (sy_wal s))))"
  using demo_run wal_acked_durable [OF sample_entry_ok demo_codec_ok demo_order_ok demo_log_rep(1) demo_files_ok demo_clear] by blast

text \<open>
  C11: on a healthy disk, with nothing in the way of a snapshot, the log is well formed in every state
  that appends of entries that fit a segment, flushes, returns of callers and snapshots in their two
  parts reach: the segments are numbered consecutively and each holds a list of entries with valid
  check sums, the current one ends in the writer's buffer and is below its maximum size, the sequence
  numbers of the entries are consecutive up to the last one given out, every segment but the oldest
  lies behind the last snapshot, and the fields of the \<open>WAL\<close> agree with all of it. An entry that
  does not fit ends this (\<open>full_segment_rotates_twice\<close>).
\<close>

theorem wal_stays_well_formed:
  assumes "proto_ok Pe" "proto_ok Pm" "order_ok order" "wal_rep Pe w lo closed cur" "store_ok Pm f" "snapshot_clear (w_disk w)"
    and "(fitting_step Pe Pm order)\<^sup>*\<^sup>* (sys_start f w) s"
  shows "\<exists>lo' closed' cur'. wal_rep Pe (sy_wal s) lo' closed' cur'"
  using sys_inv_reachable [OF assms] by (auto simp: sys_inv_def)

lemma wal_stays_well_formed_witness:
  "\<exists>s e. (fitting_step sample_entry demo_codec demo_order)\<^sup>*\<^sup>*
       (sys_start [''a'' \<mapsto> demo_meta 2] (demo_wal sample_entry demo_log)) s \<and>
     e \<in> set (sy_acked s) \<and> (\<exists>lo closed cur. wal_rep sample_entry (sy_wal s) lo closed cur)"
  using demo_run wal_stays_well_formed [OF sample_entry_ok demo_codec_ok demo_order_ok demo_log_rep(1) demo_files_ok demo_clear]
  by blast

section \<open>A full segment\<close>

lemma flush_fields: "flush w = (e, w') \<Longrightarrow>
  w_lastSegmentNo w' = w_lastSegmentNo w \<and> w_lastSequenceNo w' = w_lastSequenceNo w \<and> w_maxSegmentSize w' = w_maxSegmentSize w"
  by (auto simp: flush_def Let_def split: option.splits prod.splits if_splits)

lemma removeLogFile_fields: "removeLogFile P n w = (e, w') \<Longrightarrow>
  w_lastSegmentNo w' = w_lastSegmentNo w \<and> w_lastSequenceNo w' = w_lastSequenceNo w \<and> w_maxSegmentSize w' = w_maxSegmentSize w"
  by (auto simp: removeLogFile_def Let_def split: option.splits prod.splits if_splits sum.splits)

lemma addNewLogFile_fields: "addNewLogFile P w = (None, w') \<Longrightarrow>
  w_lastSegmentNo w' = w_lastSegmentNo w + 1 \<and> w_lastSequenceNo w' = w_lastSequenceNo w \<and> w_maxSegmentSize w' = w_maxSegmentSize w"
  by (auto simp: addNewLogFile_def open_next_segment_def removeLastLogFile_def Let_def
      split: option.splits prod.splits if_splits dest!: removeLogFile_fields flush_fields)

lemma write_entry_segno: "write_entry m w = (e, w') \<Longrightarrow> w_lastSegmentNo w' = w_lastSegmentNo w"
  by (auto simp: write_entry_def split: option.splits prod.splits)

text \<open>
  An append to a log whose current segment has reached the maximum size opens two segments, not
  one: the second check still uses the size from before the first rotation.
\<close>

lemma full_segment_rotates_twice:
  assumes "appendEntry P data del w = (None, w')" "w_maxSegmentSize w \<le> w_curSegmentSize w"
    and "\<forall>m. Marshal P (new_entry (w_lastSequenceNo w + 1) data del) = Inr m \<longrightarrow>
       unat (w_curSegmentSize w) + length m + 4 < 2 ^ 64"
  shows "w_lastSegmentNo w' = w_lastSegmentNo w + 2"
proof -
  from assms(1,2) obtain w1 where w1: "addNewLogFile P w = (None, w1)"
    by (auto simp: appendEntry_def Let_def split: option.splits prod.splits)
  note f1 = addNewLogFile_fields [OF w1]
  from assms(1,2) w1 f1 obtain m where m: "Marshal P (new_entry (w_lastSequenceNo w + 1) data del) = Inr m"
    by (auto simp: appendEntry_def marshallEntry_def Let_def split: option.splits prod.splits sum.splits)
  have n: "word_of_nat (unat (w_curSegmentSize w)) = w_curSegmentSize w" by simp
  have "unat (w_curSegmentSize w) + length m + 4 < 2 ^ 64" using assms(3) m by blast
  then have "unat (word_of_nat (unat (w_curSegmentSize w) + length m + 4) :: u64) = unat (w_curSegmentSize w) + length m + 4"
    by (rule unat_word_of_nat64)
  moreover have "(word_of_nat (unat (w_curSegmentSize w) + length m + 4) :: u64) = w_curSegmentSize w + word_of_nat (length m) + 4"
    by simp
  ultimately have "w_maxSegmentSize w \<le> w_curSegmentSize w + word_of_nat (length m) + 4"
    using assms(2) by (simp only: word_le_nat_alt)
  with assms(1,2) w1 f1 m obtain w3 where w3: "addNewLogFile P (w1\<lparr>w_lastSequenceNo := w_lastSequenceNo w + 1\<rparr>) = (None, w3)"
    "write_entry m w3 = (None, w')"
    by (auto simp: appendEntry_def marshallEntry_def Let_def split: option.splits prod.splits)
  from addNewLogFile_fields [OF w3(1)] write_entry_segno [OF w3(2)] f1 show ?thesis by simp
qed

definition demo_full :: WAL where
  "demo_full = (configured (Inr ''/srv'') demo_config)\<lparr>w_curSegmentSize := 400\<rparr>"

lemma demo_full_append: "fst (appendEntry sample_entry [] False demo_full) = None"
  by code_simp

lemma full_segment_rotates_twice_witness:
  "w_lastSegmentNo (snd (appendEntry sample_entry [] False demo_full)) = w_lastSegmentNo demo_full + 2"
proof (rule full_segment_rotates_twice)
  show "appendEntry sample_entry [] False demo_full = (None, snd (appendEntry sample_entry [] False demo_full))"
    using demo_full_append by (metis prod.collapse)
  show "w_maxSegmentSize demo_full \<le> w_curSegmentSize demo_full"
    by (simp add: demo_full_def configured_def demo_config_def Let_def)
  show "\<forall>m. Marshal sample_entry (new_entry (w_lastSequenceNo demo_full + 1) [] False) = Inr m \<longrightarrow>
      unat (w_curSegmentSize demo_full) + length m + 4 < 2 ^ 64"
    by (auto dest: sample_entry_length simp: demo_full_def)
qed

section \<open>A torn tail\<close>

lemma findLastRecord_loop_torn:
  assumes e: "entry_wf P e" "entry_bytes P e = t @ u" "t \<noteq> []" "u \<noteq> []"
  shows "list_all (entry_wf P) es \<Longrightarrow>
    \<exists>er. findLastRecord_loop P (pre @ wl.frames P es @ t) (length pre) k = Inl er \<and> \<not> errors_Is er ErrReadEmptyLogFile"
proof (induction es arbitrary: pre k)
  case Nil
  from e(1) obtain b where b: "length b < 2 ^ 32" "entry_bytes P e = put_uint32 (word_of_nat (length b)) @ b"
    by (rule entry_wfE) blast
  show ?case
  proof (cases "length t < 4")
    case True
    with e(3) binary_Read32_short [of t] show ?thesis
      by (simp add: findLastRecord_loop.simps [of P "pre @ t" "length pre"])
  next
    case False
    from b(2) e(2) have eq: "t @ u = put_uint32 (word_of_nat (length b)) @ b" by simp
    have tk: "take 4 t = put_uint32 (word_of_nat (length b))"
      using arg_cong [OF eq, of "take 4"] False by simp
    have dr: "b = drop 4 t @ u" using arg_cong [OF eq, of "drop 4"] False by simp
    have t: "t = put_uint32 (word_of_nat (length b)) @ drop 4 t" by (metis append_take_drop_id tk)
    have short: "length (drop 4 t) < length b" using dr e(4) by (metis length_append length_greater_0_conv less_add_same_cancel1)
    let ?f = "pre @ t" and ?o = "length pre + 4 + length b"
    have r1: "binary_Read32 (drop (length pre) ?f) = Inr (word_of_nat (length b), drop 4 t)"
      by (subst t) simp
    have past: "drop ?o ?f = []" using short False by simp
    have bk: "drop (?o - length b) ?f = drop 4 t" by simp
    obtain er where er: "ReadFull (length b) (drop 4 t) = Inl er" "er = EOF \<or> er = ErrUnexpectedEOF"
      using short by (cases "drop 4 t = []") (simp_all add: ReadFull_def)
    have "findLastRecord_loop P ?f ?o (length b) = Inl (wrap ''failed to read log entry data'' er)"
      unfolding findLastRecord_loop.simps [of P ?f ?o] past bk er(1) by simp
    then have "findLastRecord_loop P ?f (length pre) k = Inl (wrap ''failed to read log entry data'' er)"
      unfolding findLastRecord_loop.simps [of P ?f "length pre" k] r1 using b(1) by (simp add: unat_word_of_length32)
    with er(2) show ?thesis by auto
  qed
next
  case (Cons x es)
  then obtain b where b: "length b < 2 ^ 32" "entry_bytes P x = put_uint32 (word_of_nat (length b)) @ b"
    by (auto elim: entry_wfE)
  then have r: "binary_Read32 (drop (length pre) (pre @ wl.frames P (x # es) @ t)) =
      Inr (word_of_nat (length b), b @ wl.frames P es @ t)" by simp
  from Cons.IH [of "pre @ entry_bytes P x" "length b"] Cons.prems b obtain er where
    "findLastRecord_loop P (pre @ wl.frames P (x # es) @ t) (length pre + 4 + length b) (length b) = Inl er"
    "\<not> errors_Is er ErrReadEmptyLogFile" by (auto simp: add.assoc)
  then show ?case unfolding findLastRecord_loop.simps [of P _ "length pre" k] r
    using b(1) by (simp add: unat_word_of_length32 del: wl.frames_simps)
qed

text \<open>
  C28: a crash in the middle of a flush stops the next start: if the last segment ends within an
  entry, \<open>InitWAL\<close> returns an error instead of a log without that entry.
\<close>

theorem torn_tail_stops_restart:
  assumes "config_ok wc" "list_all (entry_wf P) es" "entry_wf P e" "entry_bytes P e = t @ u" "t \<noteq> []" "u \<noteq> []"
    and "log_disk (disks (w_dir (configured getwd wc))) lo (cs @ [wl.frames P es @ t])"
  shows "fst (InitWALwithConfig P getwd disks wc) \<noteq> None"
proof -
  let ?w = "(configured getwd wc)\<lparr>w_disk := disks (w_dir (configured getwd wc))\<rparr>"
  let ?c = "wl.frames P es @ t" and ?k = "lo + length cs"
  have d: "log_disk (w_disk ?w) lo (cs @ [?c])" using assms(7) by simp
  from findLastRecord_loop_torn [OF assms(3-6,2), of "[]" 0] obtain er where
    er: "findLastRecord P ?c = Inl er" "\<not> errors_Is er ErrReadEmptyLogFile" by (auto simp: findLastRecord_def)
  have seg: "findLastSegmentNumber ?w = Inr (word_of_nat ?k)" using findLastSegmentNumber_disk [OF d] by simp
  have op: "fs_Open (generateLogFilePath (word_of_nat ?k)) (w_disk ?w) = Inr ?c"
    using fs_Open_log_disk [OF d, of "length cs"] by (simp add: seg_name_def nth_append)
  have "findLastSequenceNumberInLogFile P f ?c d' = Inl er" for f d'
    using er by (simp add: findLastSequenceNumberInLogFile.simps [of P f])
  then have "fst (reopen_last_segment P ?w) \<noteq> None"
    using op by (simp add: reopen_last_segment_def seg Let_def)
  moreover have "checkPreExistingWALFiles ?w" using checkPreExisting_disk [OF d] by simp
  ultimately show ?thesis unfolding InitWALwithConfig_eq [OF assms(1)] Let_def by simp
qed

definition demo_torn :: fs where
  "demo_torn = \<lparr>entries = [(seg_name 1, File (take 3 (entry_bytes sample_entry (new_entry 1 [1] False))) [])],
     faults = (\<lambda>_ _. False), room = (\<lambda>_. None)\<rparr>"

lemma torn_tail_stops_restart_witness:
  "fst (InitWALwithConfig sample_entry (Inr ''/srv'') (\<lambda>_. demo_torn) demo_config) \<noteq> None"
proof (rule torn_tail_stops_restart [of demo_config sample_entry "[]" "new_entry 1 [1] False"])
  let ?b = "entry_bytes sample_entry (new_entry 1 [1] False)"
  have l: "length ?b = 18" by (simp add: entry_bytes_def sample_entry_def new_entry_def)
  show "?b = take 3 ?b @ drop 3 ?b" by simp
  show "take 3 ?b \<noteq> []" "drop 3 ?b \<noteq> []" using l by auto
  show "entry_wf sample_entry (new_entry 1 [1] False)"
    using sample_entry_fits [of "[1]" 1 False] new_entry_wf [of sample_entry 1 "[1]" False] by (auto split: sum.splits)
  show "config_ok demo_config" by (simp add: config_ok_def demo_config_def)
  show "log_disk demo_torn 1 ([] @ [wl.frames sample_entry [] @ take 3 ?b])"
    by (auto simp: log_disk_def demo_torn_def dir_wf_def no_faults_def is_file_def file_data_def fs_node_def split: if_splits)
qed simp

end
