(* ===== verification/Hasher.thy ===== *)
theory Hasher
  imports DFS_Prelude
begin

text \<open>
  Content hashing, \<open>internal/hasher/hasher.go\<close>: MD5 (the standard library's \<open>crypto/md5\<close>, written
  out after RFC 1321) and the lower-case hexadecimal rendering that becomes a chunk's id. The
  locale \<open>content_hasher\<close> is what the two Go interfaces \<open>Hasher\<close> (of the client and of the
  storage) promise together: hashing a whole content and hashing it piece by piece while it is
  written agree.
\<close>

unbundle bit_operations_syntax

section \<open>MD5\<close>

definition md5_shift :: "nat list" where
  "md5_shift =
    [7, 12, 17, 22, 7, 12, 17, 22, 7, 12, 17, 22, 7, 12, 17, 22,
     5, 9, 14, 20, 5, 9, 14, 20, 5, 9, 14, 20, 5, 9, 14, 20,
     4, 11, 16, 23, 4, 11, 16, 23, 4, 11, 16, 23, 4, 11, 16, 23,
     6, 10, 15, 21, 6, 10, 15, 21, 6, 10, 15, 21, 6, 10, 15, 21]"

definition md5_K :: "u32 list" where
  "md5_K =
    [0xd76aa478, 0xe8c7b756, 0x242070db, 0xc1bdceee, 0xf57c0faf, 0x4787c62a, 0xa8304613, 0xfd469501,
     0x698098d8, 0x8b44f7af, 0xffff5bb1, 0x895cd7be, 0x6b901122, 0xfd987193, 0xa679438e, 0x49b40821,
     0xf61e2562, 0xc040b340, 0x265e5a51, 0xe9b6c7aa, 0xd62f105d, 0x02441453, 0xd8a1e681, 0xe7d3fbc8,
     0x21e1cde6, 0xc33707d6, 0xf4d50d87, 0x455a14ed, 0xa9e3e905, 0xfcefa3f8, 0x676f02d9, 0x8d2a4c8a,
     0xfffa3942, 0x8771f681, 0x6d9d6122, 0xfde5380c, 0xa4beea44, 0x4bdecfa9, 0xf6bb4b60, 0xbebfbc70,
     0x289b7ec6, 0xeaa127fa, 0xd4ef3085, 0x04881d05, 0xd9d4d039, 0xe6db99e5, 0x1fa27cf8, 0xc4ac5665,
     0xf4292244, 0x432aff97, 0xab9423a7, 0xfc93a039, 0x655b59c3, 0x8f0ccc92, 0xffeff47d, 0x85845dd1,
     0x6fa87e4f, 0xfe2ce6e0, 0xa3014314, 0x4e0811a1, 0xf7537e82, 0xbd3af235, 0x2ad7d2bb, 0xeb86d391]"

definition le32 :: "u32 \<Rightarrow> bytes" where
  "le32 w = rev (put_uint32 w)"

fun words_le :: "bytes \<Rightarrow> u32 list" where
  "words_le (a # b # c # d # r) = get_uint32 [d, c, b, a] # words_le r"
| "words_le _ = []"

definition rotl32 :: "nat \<Rightarrow> u32 \<Rightarrow> u32" where
  "rotl32 n w = push_bit n w OR drop_bit (32 - n) w"

text \<open>One of the 64 rounds on the state \<open>(a, b, c, d)\<close> with the block's words \<open>M\<close>.\<close>

definition md5_round :: "u32 list \<Rightarrow> u32 \<times> u32 \<times> u32 \<times> u32 \<Rightarrow> nat \<Rightarrow> u32 \<times> u32 \<times> u32 \<times> u32" where
  "md5_round M st i =
     (case st of (a, b, c, d) \<Rightarrow>
        let (f, g) =
          (if i < 16 then ((b AND c) OR (NOT b AND d), i)
           else if i < 32 then ((d AND b) OR (NOT d AND c), (5 * i + 1) mod 16)
           else if i < 48 then (b XOR c XOR d, (3 * i + 5) mod 16)
           else (c XOR (b OR NOT d), (7 * i) mod 16))
        in (d, b + rotl32 (md5_shift ! i) (f + a + md5_K ! i + M ! g), b, c))"

definition md5_block :: "u32 \<times> u32 \<times> u32 \<times> u32 \<Rightarrow> u32 list \<Rightarrow> u32 \<times> u32 \<times> u32 \<times> u32" where
  "md5_block st M =
     (case (st, foldl (md5_round M) st [0..<64]) of
        ((a, b, c, d), (a', b', c', d')) \<Rightarrow> (a + a', b + b', c + c', d + d'))"

fun md5_blocks :: "u32 \<times> u32 \<times> u32 \<times> u32 \<Rightarrow> u32 list \<Rightarrow> u32 \<times> u32 \<times> u32 \<times> u32" where
  "md5_blocks st [] = st"
| "md5_blocks st (w # ws) = md5_blocks (md5_block st (take 16 (w # ws))) (drop 15 ws)"

definition md5_pad :: "bytes \<Rightarrow> bytes" where
  "md5_pad msg = msg @ [0x80] @ replicate ((119 - length msg mod 64) mod 64) 0
     @ rev (put_uint64 (word_of_nat (8 * length msg)))"

definition md5_Sum :: "bytes \<Rightarrow> bytes" where
  "md5_Sum msg =
     (case md5_blocks (0x67452301, 0xefcdab89, 0x98badcfe, 0x10325476) (words_le (md5_pad msg)) of
        (a, b, c, d) \<Rightarrow> le32 a @ le32 b @ le32 c @ le32 d)"

lemma length_md5_Sum [simp]: "length (md5_Sum msg) = 16"
  by (simp add: md5_Sum_def le32_def split: prod.splits)

section \<open>Hexadecimal\<close>

definition hex_digit :: "nat \<Rightarrow> char" where
  "hex_digit n = char_of (if n < 10 then 48 + n else 87 + n)"

definition hex_EncodeToString :: "bytes \<Rightarrow> string" where
  "hex_EncodeToString b = concat (map (\<lambda>x. [hex_digit (unat x div 16), hex_digit (unat x mod 16)]) b)"

lemma hex_digit_inject: "m < 16 \<Longrightarrow> n < 16 \<Longrightarrow> hex_digit m = hex_digit n \<longleftrightarrow> m = n"
proof -
  assume mn: "m < 16" "n < 16"
  have v: "of_char (hex_digit k) = (if k < 10 then 48 + k else 87 + k)" if "k < 16" for k
    using that by (simp add: hex_digit_def)
  show ?thesis
  proof
    assume "hex_digit m = hex_digit n"
    then have "(of_char (hex_digit m) :: nat) = of_char (hex_digit n)" by simp
    with v [OF mn(1)] v [OF mn(2)] mn show "m = n" by (auto split: if_splits)
  qed simp
qed

lemma hex_digit_char:
  "n < 16 \<Longrightarrow> of_char (hex_digit n) \<in> {48 ..< 58} \<union> {97 ..< (103 :: nat)}"
  by (simp add: hex_digit_def)

lemma length_hex [simp]: "length (hex_EncodeToString b) = 2 * length b"
  by (induction b) (simp_all add: hex_EncodeToString_def)

lemma hex_EncodeToString_inject [simp]:
  "hex_EncodeToString a = hex_EncodeToString b \<longleftrightarrow> a = b"
proof (induction a arbitrary: b)
  case Nil
  show ?case by (cases b) (simp_all add: hex_EncodeToString_def)
next
  case (Cons x a)
  show ?case
  proof (cases b)
    case (Cons y b')
    have lt: "unat x div 16 < 16" "unat y div 16 < 16"
      using unat_byte_lt [of x] unat_byte_lt [of y] by linarith+
    have "x = y" if "unat x div 16 = unat y div 16" "unat x mod 16 = unat y mod 16"
      using that div_mult_mod_eq [of "unat x" 16] div_mult_mod_eq [of "unat y" 16]
      by (metis word_unat_eq_iff)
    then have "unat x div 16 = unat y div 16 \<and> unat x mod 16 = unat y mod 16 \<longleftrightarrow> x = y" by blast
    with Cons.IH [of b'] Cons lt show ?thesis
      by (simp add: hex_EncodeToString_def hex_digit_inject conj_assoc [symmetric])
  qed (simp add: hex_EncodeToString_def)
qed

lemma hex_chars:
  "c \<in> set (hex_EncodeToString b) \<Longrightarrow> of_char c \<in> {48 ..< 58} \<union> {97 ..< (103 :: nat)}"
proof (induction b)
  case (Cons x b)
  have "unat x div 16 < 16" using unat_byte_lt [of x] by linarith
  with Cons hex_digit_char [of "unat x div 16"] hex_digit_char [of "unat x mod 16"] show ?case
    by (auto simp: hex_EncodeToString_def)
qed (simp add: hex_EncodeToString_def)

section \<open>The hashers\<close>

text \<open>
  \<open>HashContent\<close> copies the whole reader into a fresh hash. \<open>GetHasher\<close> is a fresh hash.Hash; its
  state is what has been written to it, and \<open>EncodeToString\<close> renders its sum.
\<close>

definition GetHasher :: bytes where
  "GetHasher = []"

definition hash_Write :: "bytes \<Rightarrow> bytes \<Rightarrow> bytes" where
  "hash_Write p h = h @ p"

definition EncodeToString :: "bytes \<Rightarrow> string" where
  "EncodeToString h = hex_EncodeToString (md5_Sum h)"

definition HashContent :: "bytes \<Rightarrow> string" where
  "HashContent r = hex_EncodeToString (md5_Sum (hash_Write r []))"

definition MD5ContentHash :: "bytes \<Rightarrow> string" where
  "MD5ContentHash r = hex_EncodeToString (md5_Sum (hash_Write r []))"

locale content_hasher =
  fixes hash_content :: "bytes \<Rightarrow> string"
    and fresh :: "'h"
    and feed :: "bytes \<Rightarrow> 'h \<Rightarrow> 'h"
    and render :: "'h \<Rightarrow> string"
  assumes content_render: "hash_content b = render (feed b fresh)"
    and feed_append: "feed (a @ b) h = feed b (feed a h)"
    and feed_Nil: "feed [] h = h"
begin

text \<open>A storage that hashes what it writes, in whatever pieces, computes the client's id.\<close>

lemma feed_pieces: "foldl (\<lambda>h p. feed p h) h ps = feed (concat ps) h"
  by (induction ps arbitrary: h) (simp_all add: feed_append feed_Nil)

lemma render_pieces: "render (foldl (\<lambda>h p. feed p h) fresh ps) = hash_content (concat ps)"
  by (simp add: feed_pieces content_render)

end

interpretation md5: content_hasher HashContent GetHasher hash_Write EncodeToString
  by unfold_locales
    (simp_all add: HashContent_def GetHasher_def hash_Write_def EncodeToString_def)

lemma HashContent_length [simp]: "length (HashContent b) = 32"
  by (simp add: HashContent_def)

lemma HashContent_chars:
  "c \<in> set (HashContent b) \<Longrightarrow> c \<noteq> CHR ''/'' \<and> c \<noteq> CHR ''.''"
  using hex_chars [of c "md5_Sum b"] by (auto simp: HashContent_def hash_Write_def)

lemma MD5ContentHash_eq: "MD5ContentHash = HashContent"
  by (simp add: fun_eq_iff MD5ContentHash_def HashContent_def)

end
