(* ===== verification/Storage.thy ===== *)
theory Storage
  imports File_System Hasher
begin

text \<open>
  A chunk server's storage, \<open>internal/storage\<close>: the path of a key (\<open>path_transform.go\<close>) and the
  file storage that writes a chunk to a \<open>.tmp\<close> file while hashing it, renames it into place and
  reads it back (\<open>storage.go\<close>). The locale \<open>chunk_storage\<close> is the Go interface \<open>Storage\<close> with
  what its client, the chunk handler, relies on.
\<close>

section \<open>Paths\<close>

record fullPath =
  fileName :: string
  basePath :: string

definition GetFilePath :: "fullPath \<Rightarrow> string" where
  "GetFilePath f = basePath f @ ''/'' @ fileName f"

text \<open>The slice \<open>key[a:b]\<close>, which panics out of range.\<close>

definition slice :: "string \<Rightarrow> nat \<Rightarrow> nat \<Rightarrow> go_error + string" where
  "slice key a b = (if a \<le> b \<and> b \<le> length key then Inr (take (b - a) (drop a key)) else Inl Panic)"

text \<open>The loop of \<open>DefaultPathTransform\<close> from iteration \<open>i\<close> on.\<close>

function path_loop :: "string \<Rightarrow> nat \<Rightarrow> nat \<Rightarrow> nat \<Rightarrow> nat \<Rightarrow> string \<Rightarrow> go_error + string" where
  "path_loop key split depth i start base =
     (if i < depth then
        (if i = depth - 1 then
           (case slice key start (length key) of
              Inl e \<Rightarrow> Inl e
            | Inr p \<Rightarrow> path_loop key split depth (Suc i) start (base @ p))
         else
           (case slice key start (start + split) of
              Inl e \<Rightarrow> Inl e
            | Inr p \<Rightarrow> path_loop key split depth (Suc i) (start + split) (base @ p @ ''/'')))
      else Inr base)"
  by pat_completeness auto
termination
  by (relation "measure (\<lambda>(key, split, depth, i, start, base). depth - i)") auto

declare path_loop.simps [simp del]

definition DefaultPathTransform :: "string \<Rightarrow> int \<Rightarrow> go_error + fullPath" where
  "DefaultPathTransform key depth =
     (if depth = 0 then Inr \<lparr>fileName = key, basePath = ''.''\<rparr>
      else if depth < 0 then Inl ErrNegativeFileDepth
      else case path_loop key (length key div nat depth) (nat depth) 0 0 '''' of
             Inl e \<Rightarrow> Inl e
           | Inr base \<Rightarrow> Inr \<lparr>fileName = key, basePath = base\<rparr>)"

section \<open>The file storage\<close>

record FileMetaData =
  FullPath :: fullPath
  ContentHash :: string

record FileStorage =
  pathTransformFunc :: "string \<Rightarrow> int \<Rightarrow> go_error + fullPath"
  storage_depth :: int
  storage_hasher :: "bytes \<Rightarrow> string"

definition NewFileStorage ::
  "(string \<Rightarrow> int \<Rightarrow> go_error + fullPath) \<Rightarrow> int \<Rightarrow> (bytes \<Rightarrow> string) \<Rightarrow> FileStorage" where
  "NewFileStorage p d h = \<lparr>pathTransformFunc = p, storage_depth = d, storage_hasher = h\<rparr>"

definition getFilePath :: "FileStorage \<Rightarrow> string \<Rightarrow> go_error + fullPath" where
  "getFilePath f key = pathTransformFunc f key (storage_depth f)"

definition storage_root :: string where
  "storage_root = ''./test-write/''"

text \<open>
  \<open>Write\<close>: \<open>io.Copy\<close> to the \<open>io.MultiWriter\<close> of the file and the hasher; \<open>storage_hasher f\<close> renders the
  hash of everything written to it. \<open>os.MkdirAll\<close> works or fails, as the environment of the disk
  says, and that includes a file in the place of one of the directories; the directories themselves
  are not entries of the disk, whose names are whole paths, compared as strings. For keys
  without a slash and not shorter than the depth, as the MD5 ids are, this loses nothing: the paths of
  two of them have the same number of components, so that no file stands where another one needs a
  directory.
\<close>

definition FS_Write :: "FileStorage \<Rightarrow> string \<Rightarrow> bytes \<Rightarrow> fs \<Rightarrow> (go_error + FileMetaData) \<times> fs" where
  "FS_Write f key data s =
     (case getFilePath f key of
        Inl e \<Rightarrow> (Inl (wrap ''failed getting file path'' e), s)
      | Inr path0 \<Rightarrow>
          let path = path0\<lparr>basePath := storage_root @ basePath path0, fileName := fileName path0 @ ''.tmp''\<rparr>
          in if faults s OpMkdirAll (basePath path)
             then (Inl (wrap ''failed creating directories'' ErrIO), s)
             else case fs_Create (GetFilePath path) s of
                    (Some e, s1) \<Rightarrow> (Inl (wrap ''failed opening file to write'' e), s1)
                  | (None, s1) \<Rightarrow>
                      (case Copy (fs_Append (GetFilePath path)) data s1 of
                         (Some e, s2) \<Rightarrow> (Inl (wrap ''failed writing data to file'' e), s2)
                       | (None, s2) \<Rightarrow> (Inr \<lparr>FullPath = path, ContentHash = storage_hasher f data\<rparr>, s2)))"

text \<open>\<open>Read\<close> returns the contents that the limited reader will deliver and their length.\<close>

definition FS_Read :: "FileStorage \<Rightarrow> string \<Rightarrow> fs \<Rightarrow> go_error + (bytes \<times> int)" where
  "FS_Read f key s =
     (case getFilePath f key of
        Inl e \<Rightarrow> Inl (wrap ''failed getting file path for key'' e)
      | Inr path0 \<Rightarrow>
          let path = path0\<lparr>basePath := storage_root @ basePath path0\<rparr>;
              filePath = basePath path @ ''/'' @ fileName path
          in case fs_Open filePath s of
               Inl e \<Rightarrow> Inl (wrap ''failed opening file'' e)
             | Inr d \<Rightarrow> if faults s OpStat filePath
                        then Inl (wrap ''failed getting file status'' ErrIO)
                        else Inr (d, int (length d)))"

definition RenameFile :: "string \<Rightarrow> fs \<Rightarrow> go_error option \<times> fs" where
  "RenameFile oldPath s =
     (let i = LastIndex oldPath CHR ''.''
      in if i < 0 then (Some Panic, s) else fs_Rename oldPath (take (nat i) oldPath) s)"

text \<open>The interface \<open>Storage\<close> as the chunk handler uses it.\<close>

locale chunk_storage =
  fixes swrite :: "string \<Rightarrow> bytes \<Rightarrow> 's \<Rightarrow> (go_error + 'm) \<times> 's"
    and spath :: "'m \<Rightarrow> string"
    and shash :: "'m \<Rightarrow> string"
    and srename :: "string \<Rightarrow> 's \<Rightarrow> go_error option \<times> 's"
    and sread :: "string \<Rightarrow> 's \<Rightarrow> bytes option"
    and plain :: "string \<Rightarrow> bool"
    and digest :: "bytes \<Rightarrow> string"
  assumes write_hash: "swrite k d s = (Inr m, s') \<Longrightarrow> shash m = digest d"
    and write_hidden: "plain k' \<Longrightarrow> swrite k d s = (r, s') \<Longrightarrow> sread k' s' = sread k' s"
    and rename_commits:
      "plain k \<Longrightarrow> swrite k d s = (Inr m, s') \<Longrightarrow> srename (spath m) s' = (None, s'') \<Longrightarrow>
       sread k s'' = Some d \<or> sread k s'' = None"
    and rename_others:
      "plain k' \<Longrightarrow> k' \<noteq> k \<Longrightarrow> swrite k d s = (Inr m, s') \<Longrightarrow> srename (spath m) s' = (None, s'') \<Longrightarrow>
       sread k' s'' = sread k' s"
    and rename_fails: "srename p s = (Some e, s') \<Longrightarrow> s' = s"
begin

text \<open>
  Content addressing: every chunk that can be read under a plain key hashes to that key. A
  write that is renamed into place only after its hash has been compared with the key keeps
  this, whatever the bytes and the key.
\<close>

definition addressed :: "'s \<Rightarrow> bool" where
  "addressed s \<longleftrightarrow> (\<forall>k d. plain k \<longrightarrow> sread k s = Some d \<longrightarrow> digest d = k)"

lemma addressed_write: "addressed s \<Longrightarrow> swrite k d s = (r, s') \<Longrightarrow> addressed s'"
  by (auto simp: addressed_def write_hidden)

lemma addressed_commit:
  assumes "addressed s" "swrite k d s = (Inr m, s')" "k = shash m" "srename (spath m) s' = (r, s'')"
  shows "addressed s''"
proof (cases r)
  case None
  show ?thesis unfolding addressed_def
  proof (intro allI impI)
    fix k' d' assume k': "plain k'" "sread k' s'' = Some d'"
    show "digest d' = k'"
    proof (cases "k' = k")
      case True
      with k' rename_commits [of k d s m s' s''] assms None have "d' = d" by auto
      with assms write_hash [OF assms(2)] True show ?thesis by simp
    next
      case False
      with k' rename_others [OF k'(1) False assms(2)] assms None have "sread k' s = Some d'" by simp
      with k' assms(1) show ?thesis by (simp add: addressed_def)
    qed
  qed
next
  case (Some e)
  with rename_fails assms have "s'' = s'" by blast
  with addressed_write [OF assms(1,2)] show ?thesis by simp
qed

end

section \<open>The path of a key\<close>

text \<open>What the loop computes: \<open>depth - 1\<close> pieces of equal length and the rest.\<close>

definition path_base :: "nat \<Rightarrow> string \<Rightarrow> string" where
  "path_base d key =
     (if d = 0 then ''.''
      else concat (map (\<lambda>j. take (length key div d) (drop (j * (length key div d)) key) @ ''/'') [0..<d - 1])
           @ drop ((d - 1) * (length key div d)) key)"

lemma path_loop_eq:
  "i < d \<Longrightarrow> d * sp \<le> length key \<Longrightarrow>
   path_loop key sp d i (i * sp) base =
     Inr (base @ concat (map (\<lambda>j. take sp (drop (j * sp) key) @ ''/'') [i..<d - 1]) @ drop ((d - 1) * sp) key)"
proof (induction "d - i" arbitrary: i base)
  case 0
  then show ?case by simp
next
  case (Suc n)
  show ?case
  proof (cases "i = d - 1")
    case True
    have "i * sp \<le> length key" using Suc.prems by (metis le_trans less_imp_le mult_le_mono1)
    with True Suc.prems show ?thesis
      by (subst path_loop.simps, subst path_loop.simps) (simp add: slice_def)
  next
    case False
    have "Suc i * sp \<le> d * sp" using Suc.prems by (intro mult_le_mono1) simp
    then have "i * sp + sp \<le> length key" using Suc.prems by simp
    moreover have "n = d - Suc i" "Suc i < d" using Suc.hyps(2) Suc.prems False by auto
    moreover have "[i..<d - 1] = i # [Suc i..<d - 1]" using Suc.prems False by (simp add: upt_conv_Cons)
    ultimately show ?thesis
      using Suc.hyps(1) [of "Suc i"] Suc.prems False
      by (subst path_loop.simps) (simp add: slice_def add.commute)
  qed
qed

lemma DefaultPathTransform_eq:
  "DefaultPathTransform key (int d) = Inr \<lparr>fileName = key, basePath = path_base d key\<rparr>"
proof (cases "d = 0")
  case False
  have "d * (length key div d) \<le> length key" by simp
  with False path_loop_eq [of 0 d "length key div d" key "[]"] show ?thesis
    by (simp add: DefaultPathTransform_def path_base_def)
qed (simp add: DefaultPathTransform_def path_base_def)

lemma path_base_pieces:
  assumes "0 < d" "n \<le> d - 1"
  shows "filter (\<lambda>c. c \<noteq> CHR ''/'') (concat (map (\<lambda>j. take sp (drop (j * sp) key) @ ''/'') [0..<n]))
    = filter (\<lambda>c. c \<noteq> CHR ''/'') (take (n * sp) key)"
  using assms
proof (induction n)
  case (Suc n)
  have "take (Suc n * sp) key = take (n * sp) key @ take sp (drop (n * sp) key)"
    by (simp only: mult_Suc add.commute [of sp] take_add)
  with Suc show ?case by simp
qed simp

lemma length_path_base:
  assumes "0 < d"
  shows "length (path_base d key) = length key + (d - 1)"
proof -
  let ?sp = "length key div d"
  have le: "j * ?sp + ?sp \<le> length key" if "j < d" for j
  proof -
    from that have "Suc j * ?sp \<le> d * ?sp" by (intro mult_le_mono1) simp
    also have "\<dots> \<le> length key" by simp
    finally show ?thesis by simp
  qed
  have "length (concat (map (\<lambda>j. take ?sp (drop (j * ?sp) key) @ ''/'') [0..<n])) = n * Suc ?sp"
    if "n \<le> d - 1" for n
    using that
  proof (induction n)
    case (Suc n)
    then have "n * ?sp + ?sp \<le> length key" by (intro le) simp
    with Suc show ?case by simp
  qed simp
  from this [of "d - 1"] le [of "d - 1"] assms show ?thesis
    by (cases d) (simp_all add: path_base_def)
qed

lemma set_path_base: "0 < d \<Longrightarrow> set (path_base d key) \<subseteq> insert CHR ''/'' (set key)"
  by (auto simp: path_base_def dest: in_set_takeD in_set_dropD)

definition chunk_path :: "nat \<Rightarrow> string \<Rightarrow> string" where
  "chunk_path d key = storage_root @ path_base d key @ ''/'' @ key"

lemma chunk_path_inject [simp]: "chunk_path d k = chunk_path d k' \<longleftrightarrow> k = k'"
proof
  assume e: "chunk_path d k = chunk_path d k'"
  have "length (chunk_path d x) = length storage_root + (if d = 0 then 2 + length x else 2 * length x + d)" for x
    using length_path_base [of d x] by (auto simp: chunk_path_def path_base_def)
  from this [of k] this [of k'] e have "length k = length k'" by (auto split: if_splits)
  moreover from e have "path_base d k @ ''/'' @ k = path_base d k' @ ''/'' @ k'"
    by (simp add: chunk_path_def)
  ultimately show "k = k'" by (metis append_eq_append_conv append_assoc)
qed simp

text \<open>The last dot of a plain key's path is followed by a separator, that of a temporary file is not.\<close>

lemma chunk_path_neq_tmp:
  assumes "CHR ''.'' \<notin> set k'"
  shows "chunk_path d k' \<noteq> p @ ''.tmp''"
proof
  assume e: "chunk_path d k' = p @ ''.tmp''"
  obtain x y where xy: "chunk_path d k' = x @ CHR ''.'' # y" "CHR ''.'' \<notin> set y" "CHR ''/'' \<in> set y"
  proof (cases "d = 0")
    case True
    with assms have "chunk_path d k' = storage_root @ CHR ''.'' # ''/'' @ k'" "CHR ''.'' \<notin> set (''/'' @ k')"
      by (simp_all add: chunk_path_def path_base_def)
    then show ?thesis by (rule that) simp
  next
    case False
    let ?y = "''/test-write/'' @ path_base d k' @ ''/'' @ k'"
    have "chunk_path d k' = [] @ CHR ''.'' # ?y" by (simp add: chunk_path_def storage_root_def)
    moreover have "CHR ''.'' \<notin> set ?y" using assms set_path_base [of d k'] False by auto
    ultimately show ?thesis by (rule that) simp
  qed
  have "LastIndex (x @ CHR ''.'' # y) CHR ''.'' = LastIndex (p @ CHR ''.'' # ''tmp'') CHR ''.''"
    using e xy(1) by simp
  then have "length x = length p"
    using LastIndex_append [OF xy(2)] LastIndex_append [of "CHR ''.''" "''tmp''" p] by simp
  with e xy(1) have "y = ''tmp''" by simp
  with xy(3) show False by simp
qed

section \<open>The file storage meets the interface\<close>

lemma FS_Write_cases:
  assumes "FS_Write (NewFileStorage DefaultPathTransform (int d) h) k data s = (r, s')"
  shows "(\<forall>x. x \<noteq> chunk_path d k @ ''.tmp'' \<longrightarrow> fs_node s' x = fs_node s x) \<and> faults s' = faults s \<and>
    (\<forall>m. r = Inr m \<longrightarrow> GetFilePath (FullPath m) = chunk_path d k @ ''.tmp'' \<and> ContentHash m = h data \<and>
       (\<exists>y. fs_node s' (chunk_path d k @ ''.tmp'') = Some (File data y)))"
proof -
  let ?f = "NewFileStorage DefaultPathTransform (int d) h" and ?tmp = "chunk_path d k @ ''.tmp''"
  let ?path = "\<lparr>fileName = k @ ''.tmp'', basePath = storage_root @ path_base d k\<rparr>"
  have g: "getFilePath ?f k = Inr \<lparr>fileName = k, basePath = path_base d k\<rparr>"
    by (simp add: getFilePath_def NewFileStorage_def DefaultPathTransform_eq)
  have p: "GetFilePath ?path = ?tmp" by (simp add: GetFilePath_def chunk_path_def)
  show ?thesis
  proof (cases "faults s OpMkdirAll (basePath ?path) \<or> fst (fs_Create ?tmp s) \<noteq> None")
    case True
    with assms g p show ?thesis
      by (auto simp: FS_Write_def Let_def fs_Create_def split: if_splits prod.splits option.splits)
  next
    case False
    then have c: "fs_Create ?tmp s = (None, fs_put ?tmp (File [] []) s)"
      by (auto simp: fs_Create_def split: if_splits)
    let ?s1 = "fs_put ?tmp (File [] []) s"
    obtain e s2 where cp: "Copy (fs_Append ?tmp) data ?s1 = (e, s2)" by (cases "Copy (fs_Append ?tmp) data ?s1")
    have frame: "(\<forall>x. x \<noteq> ?tmp \<longrightarrow> fs_node s2 x = fs_node s x) \<and> faults s2 = faults s"
    proof (cases "data = []")
      case True
      with cp show ?thesis by (auto simp: Copy_def)
    next
      case ne: False
      with cp obtain n where "fs_WriteAt ?tmp (length (file_data ?tmp ?s1)) data ?s1 = (n, e, s2)"
        by (auto simp: Copy_def fs_Append_def Let_def split: prod.splits)
      from fs_WriteAt_other [OF this] fs_WriteAt_faults [OF this] show ?thesis by auto
    qed
    have r: "(r, s') = (case e of Some e' \<Rightarrow> (Inl (wrap ''failed writing data to file'' e'), s2)
        | None \<Rightarrow> (Inr \<lparr>FullPath = ?path, ContentHash = h data\<rparr>, s2))"
      using assms g p c cp False by (simp add: FS_Write_def Let_def NewFileStorage_def split: option.splits)
    have "e = None \<Longrightarrow> \<exists>y. fs_node s2 ?tmp = Some (File data y)"
      using fw.Copy_None [of ?s1 ?tmp data s2] cp by (auto simp: is_file_iff)
    with r frame p show ?thesis by (auto split: option.splits)
  qed
qed

definition FS_contents :: "nat \<Rightarrow> (bytes \<Rightarrow> string) \<Rightarrow> string \<Rightarrow> fs \<Rightarrow> bytes option" where
  "FS_contents d h k s =
     (case FS_Read (NewFileStorage DefaultPathTransform (int d) h) k s of Inr (b, n) \<Rightarrow> Some b | Inl e \<Rightarrow> None)"

lemma FS_Read_eq:
  "FS_Read (NewFileStorage DefaultPathTransform (int d) h) k s =
     (case fs_Open (chunk_path d k) s of
        Inl e \<Rightarrow> Inl (wrap ''failed opening file'' e)
      | Inr b \<Rightarrow> if faults s OpStat (chunk_path d k)
                 then Inl (wrap ''failed getting file status'' ErrIO) else Inr (b, int (length b)))"
  by (simp add: FS_Read_def getFilePath_def NewFileStorage_def DefaultPathTransform_eq chunk_path_def Let_def
      split: sum.splits)

lemma FS_Read_cong:
  "fs_node s' (chunk_path d k) = fs_node s (chunk_path d k) \<Longrightarrow> faults s' = faults s \<Longrightarrow>
   FS_Read (NewFileStorage DefaultPathTransform (int d) h) k s' =
   FS_Read (NewFileStorage DefaultPathTransform (int d) h) k s"
  by (simp add: FS_Read_eq fs_Open_def split: option.splits node.splits)

lemma FS_contents_cong:
  "fs_node s' (chunk_path d k) = fs_node s (chunk_path d k) \<Longrightarrow> faults s' = faults s \<Longrightarrow>
   FS_contents d h k s' = FS_contents d h k s"
  using FS_Read_cong [of s' d k s h] by (simp add: FS_contents_def)

lemma RenameFile_tmp: "RenameFile (p @ ''.tmp'') s = fs_Rename (p @ ''.tmp'') p s"
  using LastIndex_append [of "CHR ''.''" "''tmp''" p] by (simp add: RenameFile_def)

lemma fs_Rename_None:
  "fs_Rename old new s = (None, s') \<Longrightarrow> old \<noteq> new \<Longrightarrow>
   faults s' = faults s \<and> fs_node s' new = fs_node s old \<and> fs_node s' old = None \<and>
   (\<forall>x. x \<noteq> old \<longrightarrow> x \<noteq> new \<longrightarrow> fs_node s' x = fs_node s x)"
  by (auto simp: fs_Rename_def fs_node_def split: option.splits if_splits)

lemma fs_Rename_Some: "fs_Rename old new s = (Some e, s') \<Longrightarrow> s' = s"
  by (auto simp: fs_Rename_def split: option.splits if_splits)

interpretation st: chunk_storage
    "FS_Write (NewFileStorage DefaultPathTransform (int d) h)" "\<lambda>m. GetFilePath (FullPath m)"
    ContentHash RenameFile "FS_contents d h" "\<lambda>k. CHR ''.'' \<notin> set k" h
  for d h
proof unfold_locales
  fix k data s m s'
  assume "FS_Write (NewFileStorage DefaultPathTransform (int d) h) k data s = (Inr m, s')"
  from FS_Write_cases [OF this] show "ContentHash m = h data" by blast
next
  fix k' k data s r s'
  assume p: "CHR ''.'' \<notin> set k'"
    and w: "FS_Write (NewFileStorage DefaultPathTransform (int d) h) k data s = (r, s')"
  from FS_Write_cases [OF w] chunk_path_neq_tmp [OF p, of d "chunk_path d k"]
  show "FS_contents d h k' s' = FS_contents d h k' s"
    by (intro FS_contents_cong) blast+
next
  fix k data s m s' s''
  assume w: "FS_Write (NewFileStorage DefaultPathTransform (int d) h) k data s = (Inr m, s')"
    and r: "RenameFile (GetFilePath (FullPath m)) s' = (None, s'')"
  from FS_Write_cases [OF w] r obtain y where
    f: "fs_node s' (chunk_path d k @ ''.tmp'') = Some (File data y)"
      "fs_Rename (chunk_path d k @ ''.tmp'') (chunk_path d k) s' = (None, s'')"
    by (auto simp: RenameFile_tmp)
  from fs_Rename_None [OF f(2)] f(1) have "fs_node s'' (chunk_path d k) = Some (File data y)" by simp
  then show "FS_contents d h k s'' = Some data \<or> FS_contents d h k s'' = None"
    by (simp add: FS_contents_def FS_Read_eq fs_Open_def)
next
  fix k' k data s m s' s''
  assume p: "CHR ''.'' \<notin> set k'" "k' \<noteq> k"
    and w: "FS_Write (NewFileStorage DefaultPathTransform (int d) h) k data s = (Inr m, s')"
    and r: "RenameFile (GetFilePath (FullPath m)) s' = (None, s'')"
  note w' = FS_Write_cases [OF w]
  with r have f: "fs_Rename (chunk_path d k @ ''.tmp'') (chunk_path d k) s' = (None, s'')"
    by (simp add: RenameFile_tmp)
  from p have "chunk_path d k' \<noteq> chunk_path d k @ ''.tmp''" "chunk_path d k' \<noteq> chunk_path d k"
    using chunk_path_neq_tmp [OF p(1)] by auto
  with fs_Rename_None [OF f] w' show "FS_contents d h k' s'' = FS_contents d h k' s"
    by (intro FS_contents_cong) auto
next
  fix p s e s'
  assume "RenameFile p s = (Some e, s')"
  then show "s' = s" by (auto simp: RenameFile_def Let_def dest: fs_Rename_Some split: if_splits)
qed

lemma FS_Write_ok:
  assumes nf: "no_faults s" and nd: "fs_node s (chunk_path d k @ ''.tmp'') \<noteq> Some Dir"
  shows "\<exists>m s'. FS_Write (NewFileStorage DefaultPathTransform (int d) h) k data s = (Inr m, s') \<and> no_faults s'"
proof -
  let ?f = "NewFileStorage DefaultPathTransform (int d) h" and ?tmp = "chunk_path d k @ ''.tmp''"
  have g: "getFilePath ?f k = Inr \<lparr>fileName = k, basePath = path_base d k\<rparr>"
    by (simp add: getFilePath_def NewFileStorage_def DefaultPathTransform_eq)
  have p: "GetFilePath \<lparr>fileName = k @ ''.tmp'', basePath = storage_root @ path_base d k\<rparr> = ?tmp"
    by (simp add: GetFilePath_def chunk_path_def)
  let ?s1 = "fs_put ?tmp (File [] []) s"
  have c: "fs_Create ?tmp s = (None, ?s1)" using nf nd by (simp add: fs_Create_def no_faultsD)
  have nf1: "no_faults ?s1" using nf by simp
  obtain s2 where cp: "Copy (fs_Append ?tmp) data ?s1 = (None, s2)" and nf2: "no_faults s2"
  proof (cases "data = []")
    case True
    then show ?thesis using that nf1 by (simp add: Copy_def)
  next
    case False
    obtain n e s2 where w: "fs_WriteAt ?tmp (length (file_data ?tmp ?s1)) data ?s1 = (n, e, s2)"
      by (metis prod_cases3)
    from fs_WriteAt_healthy [OF no_faultsD(2) [OF nf1] w] fs_WriteAt_faults [OF w] nf1
    have "e = None" "no_faults s2" by (simp_all add: no_faults_def)
    with w False show ?thesis using that by (simp add: Copy_def fs_Append_def)
  qed
  with g p c nf show ?thesis
    by (simp add: FS_Write_def Let_def NewFileStorage_def no_faultsD)
qed

section \<open>Properties\<close>

text \<open>C20: DefaultPathTransform never panics: it rejects exactly the negative depths; otherwise the
  base path is the key with \<open>depth - 1\<close> separators in it, and distinct keys have distinct paths.\<close>

theorem DefaultPathTransform_spec:
  "((\<exists>e. DefaultPathTransform key d = Inl e) \<longleftrightarrow> d < 0) \<and>
   (\<exists>p. DefaultPathTransform key (int (Suc n)) = Inr p \<and> fileName p = key \<and>
      filter (\<lambda>c. c \<noteq> CHR ''/'') (basePath p) = filter (\<lambda>c. c \<noteq> CHR ''/'') key \<and>
      length (basePath p) = length key + n) \<and>
   (map_sum id GetFilePath (DefaultPathTransform key (int m)) =
      map_sum id GetFilePath (DefaultPathTransform key' (int m)) \<longleftrightarrow> key = key')"
proof (intro conjI)
  show "(\<exists>e. DefaultPathTransform key d = Inl e) \<longleftrightarrow> d < 0"
    using DefaultPathTransform_eq [of key "nat d"]
    by (cases "d < 0") (simp_all add: DefaultPathTransform_def)
  have "filter (\<lambda>c. c \<noteq> CHR ''/'') (path_base (Suc n) key) = filter (\<lambda>c. c \<noteq> CHR ''/'') key"
    using path_base_pieces [of "Suc n" n "length key div Suc n" key]
      filter_append [of "\<lambda>c. c \<noteq> CHR ''/''" "take (n * (length key div Suc n)) key" "drop (n * (length key div Suc n)) key"]
    by (simp add: path_base_def)
  with DefaultPathTransform_eq [of key "Suc n"] length_path_base [of "Suc n" key]
  show "\<exists>p. DefaultPathTransform key (int (Suc n)) = Inr p \<and> fileName p = key \<and>
     filter (\<lambda>c. c \<noteq> CHR ''/'') (basePath p) = filter (\<lambda>c. c \<noteq> CHR ''/'') key \<and>
     length (basePath p) = length key + n" by simp
  show "map_sum id GetFilePath (DefaultPathTransform key (int m)) =
     map_sum id GetFilePath (DefaultPathTransform key' (int m)) \<longleftrightarrow> key = key'"
    using chunk_path_inject [of m key key']
    by (simp add: DefaultPathTransform_eq GetFilePath_def chunk_path_def)
qed

text \<open>Writing a chunk, renaming it into place and reading it back.\<close>

lemma storage_roundtrip:
  assumes "no_faults s" "fs_node s (chunk_path d k @ ''.tmp'') \<noteq> Some Dir" "fs_node s (chunk_path d k) \<noteq> Some Dir"
  shows "\<exists>m s1 s2. FS_Write (NewFileStorage DefaultPathTransform (int d) h) k data s = (Inr m, s1) \<and>
    ContentHash m = h data \<and> RenameFile (GetFilePath (FullPath m)) s1 = (None, s2) \<and>
    FS_Read (NewFileStorage DefaultPathTransform (int d) h) k s2 = Inr (data, int (length data)) \<and>
    (\<forall>k'. CHR ''.'' \<notin> set k' \<and> k' \<noteq> k \<longrightarrow>
       FS_Read (NewFileStorage DefaultPathTransform (int d) h) k' s2 =
       FS_Read (NewFileStorage DefaultPathTransform (int d) h) k' s)"
proof -
  let ?f = "NewFileStorage DefaultPathTransform (int d) h" and ?p = "chunk_path d k"
  from FS_Write_ok [OF assms(1,2)] obtain m s1 where
    w: "FS_Write ?f k data s = (Inr m, s1)" and nf: "no_faults s1" by blast
  note c = FS_Write_cases [OF w]
  then obtain y where m: "GetFilePath (FullPath m) = ?p @ ''.tmp''" "ContentHash m = h data"
    and t: "fs_node s1 (?p @ ''.tmp'') = Some (File data y)" by blast
  have "fs_node s1 ?p = fs_node s ?p" using c by simp
  with assms(3) have nd: "fs_node s1 ?p \<noteq> Some Dir" by simp
  then obtain s2 where r: "fs_Rename (?p @ ''.tmp'') ?p s1 = (None, s2)"
    using t nf by (simp add: fs_Rename_def no_faultsD)
  from fs_Rename_None [OF r] have R: "faults s2 = faults s1" "fs_node s2 ?p = Some (File data y)"
    "\<forall>x. x \<noteq> ?p @ ''.tmp'' \<longrightarrow> x \<noteq> ?p \<longrightarrow> fs_node s2 x = fs_node s1 x"
    using t by simp_all
  have "FS_Read ?f k s2 = Inr (data, int (length data))"
    using R nf by (simp add: FS_Read_eq fs_Open_def no_faultsD)
  moreover have "FS_Read ?f k' s2 = FS_Read ?f k' s" if k': "CHR ''.'' \<notin> set k'" "k' \<noteq> k" for k'
  proof -
    have "chunk_path d k' \<noteq> ?p @ ''.tmp''" "chunk_path d k' \<noteq> ?p"
      using chunk_path_neq_tmp [OF k'(1)] k'(2) by auto
    with R c have "fs_node s2 (chunk_path d k') = fs_node s (chunk_path d k')" "faults s2 = faults s" by auto
    then show ?thesis by (rule FS_Read_cong)
  qed
  ultimately show ?thesis using w m r by (auto simp: RenameFile_tmp)
qed

lemma storage_roundtrip_witness:
  "\<exists>m s1 s2. FS_Write (NewFileStorage DefaultPathTransform (int 5) HashContent) ''0123456789'' [1, 2, 3] empty_fs = (Inr m, s1) \<and>
    ContentHash m = HashContent [1, 2, 3] \<and> RenameFile (GetFilePath (FullPath m)) s1 = (None, s2) \<and>
    FS_Read (NewFileStorage DefaultPathTransform (int 5) HashContent) ''0123456789'' s2 = Inr ([1, 2, 3], int (length [1, 2, 3 :: byte])) \<and>
    FS_Read (NewFileStorage DefaultPathTransform (int 5) HashContent) ''ab'' s2 =
      FS_Read (NewFileStorage DefaultPathTransform (int 5) HashContent) ''ab'' empty_fs"
proof -
  have e: "no_faults empty_fs" "fs_node empty_fs x \<noteq> Some Dir" for x
    by (simp_all add: empty_fs_def no_faults_def fs_node_def)
  from storage_roundtrip [OF e(1) e(2) e(2), where d = 5 and k = "''0123456789''" and h = HashContent and data = "[1, 2, 3]"]
  have "CHR ''.'' \<notin> set ''ab'' \<and> ''ab'' \<noteq> ''0123456789'' \<Longrightarrow> ?thesis" by blast
  then show ?thesis by simp
qed

text \<open>A write that has not been renamed is invisible to every reader, even when it fails half-way.\<close>

lemma storage_write_invisible:
  assumes "FS_Write (NewFileStorage DefaultPathTransform (int d) h) k data s = (r, s')" "CHR ''.'' \<notin> set k'"
  shows "FS_Read (NewFileStorage DefaultPathTransform (int d) h) k' s' =
         FS_Read (NewFileStorage DefaultPathTransform (int d) h) k' s"
proof -
  from FS_Write_cases [OF assms(1)] chunk_path_neq_tmp [OF assms(2), of d "chunk_path d k"]
  have "fs_node s' (chunk_path d k') = fs_node s (chunk_path d k')" "faults s' = faults s" by blast+
  then show ?thesis by (rule FS_Read_cong)
qed

lemma storage_write_invisible_witness:
  "FS_Read (NewFileStorage DefaultPathTransform (int 2) HashContent) ''ab''
     (snd (FS_Write (NewFileStorage DefaultPathTransform (int 2) HashContent) ''cd'' [1] empty_fs)) =
   FS_Read (NewFileStorage DefaultPathTransform (int 2) HashContent) ''ab'' empty_fs"
  by (rule storage_write_invisible [OF surjective_pairing]) simp

end
