(* ===== verification/Protocol.thy ===== *)
theory Protocol
  imports Go_IO Framing
begin

text \<open>
  The message transfer protocol of \<open>internal/protocol/protocol.go\<close>: the wire header (two magic
  bytes, a version, a message type, a big-endian 32-bit payload length), \<open>Encode\<close> and
  \<open>Decode\<close>. Messages on a connection are an instance of the locale \<open>framing\<close>.
\<close>

section \<open>Constants, message types and messages\<close>

definition MagicByte1 :: byte where "MagicByte1 = 0xAC"
definition MagicByte2 :: byte where "MagicByte2 = 0xFA"
definition Headersize :: nat where "Headersize = 8"
definition Version :: byte where "Version = 1"
definition MaxPayloadLen :: u32 where "MaxPayloadLen = 65 * 2 ^ 20"

lemmas protocol_consts = MagicByte1_def MagicByte2_def Headersize_def Version_def MaxPayloadLen_def

definition TypeWrite :: byte where "TypeWrite = 0"
definition TypeRead :: byte where "TypeRead = 1"
definition TypePing :: byte where "TypePing = 2"
definition TypeAddFile :: byte where "TypeAddFile = 3"
definition TypeReadFile :: byte where "TypeReadFile = 4"
definition TypeDeleteFile :: byte where "TypeDeleteFile = 5"
definition TypeReadResponse :: byte where "TypeReadResponse = 6"
definition TypeReadFileResponse :: byte where "TypeReadFileResponse = 7"
definition TypeWriteResponse :: byte where "TypeWriteResponse = 8"
definition TypePingResponse :: byte where "TypePingResponse = 9"

lemmas message_types = TypeWrite_def TypeRead_def TypePing_def TypeAddFile_def TypeReadFile_def
  TypeDeleteFile_def TypeReadResponse_def TypeReadFileResponse_def TypeWriteResponse_def
  TypePingResponse_def

text \<open>
  A message: \<open>Payload\<close> is the reader's remaining contents, \<open>None\<close> for a nil reader. The payload
  of a decoded message is the \<open>io.LimitReader\<close> over the connection.
\<close>

record message =
  Type :: byte
  Length :: u32
  Payload :: "bytes option"

definition NewMessage :: "byte \<Rightarrow> bytes option \<Rightarrow> u32 \<Rightarrow> message" where
  "NewMessage t p n = \<lparr>Type = t, Length = n, Payload = p\<rparr>"

section \<open>Encode and Decode\<close>

definition header :: "message \<Rightarrow> bytes" where
  "header m = [MagicByte1, MagicByte2, Version, Type m] @ put_uint32 (Length m)"

text \<open>
  \<open>Encode\<close> writes to any \<open>io.Writer\<close>; besides the error and the new state of the writer the
  model returns what is left in the payload reader.
\<close>

definition Encode :: "'s write_fn \<Rightarrow> message \<Rightarrow> 's \<Rightarrow> go_error option \<times> bytes option \<times> 's" where
  "Encode wr m s =
     (if Length m > MaxPayloadLen then (Some ErrPayloadTooLarge, Payload m, s)
      else case wr (header m) s of
        (n, Some e, s') \<Rightarrow> (Some (wrap ''failed to encode data and write header'' e), Payload m, s')
      | (n, None, s') \<Rightarrow>
          if Length m > 0 then
            (case Payload m of
               None \<Rightarrow> (Some (errmsg ''payload is nil''), None, s')
             | Some src \<Rightarrow>
                 (case CopyN wr (unat (Length m)) src s' of
                    (Some e, left, s'') \<Rightarrow>
                      (Some (wrap ''failed to encode data and write payload'' e), Some left, s'')
                  | (None, left, s'') \<Rightarrow> (None, Some left, s'')))
          else (None, Payload m, s'))"

text \<open>
  \<open>Decode\<close> returns the message and the bytes after the header, which still hold the payload:
  reading from the payload advances the same connection.
\<close>

definition Decode :: "bytes \<Rightarrow> go_error + (message \<times> bytes)" where
  "Decode inp =
     (case ReadFull Headersize inp of
        Inl e \<Rightarrow> if e = EOF then Inl EOF else Inl (wrap ''failed to decode header'' e)
      | Inr (h, r) \<Rightarrow>
          if h ! 0 \<noteq> MagicByte1 \<or> h ! 1 \<noteq> MagicByte2 then Inl ErrInvalidMagic
          else if h ! 2 \<noteq> Version then Inl ErrUnsupportedVersion
          else let payloadLen = get_uint32 (drop 4 h)
               in if payloadLen > MaxPayloadLen then Inl ErrPayloadTooLarge
                  else Inr (NewMessage (h ! 3) (Some (take (unat payloadLen) r)) payloadLen, r))"

section \<open>Lemmas\<close>

lemma length_header [simp]: "length (header m) = 8"
  by (simp add: header_def)

lemma NewMessage_simps [simp]:
  "Type (NewMessage t p n) = t" "Length (NewMessage t p n) = n" "Payload (NewMessage t p n) = p"
  by (simp_all add: NewMessage_def)

lemma Decode_header:
  "Length m \<le> MaxPayloadLen \<Longrightarrow>
   Decode (header m @ r) = Inr (NewMessage (Type m) (Some (take (unat (Length m)) r)) (Length m), r)"
proof -
  assume "Length m \<le> MaxPayloadLen"
  moreover have "ReadFull 8 (header m @ r) = Inr (header m, r)" by simp
  moreover have "drop 4 (header m) = put_uint32 (Length m)" by (simp add: header_def)
  ultimately show ?thesis by (simp add: Decode_def Headersize_def header_def not_less Let_def)
qed

lemma Decode_Nil [simp]: "Decode [] = Inl EOF"
  by (simp add: Decode_def Headersize_def)

lemma Decode_shrinks: "Decode inp = Inr (m, r) \<Longrightarrow> length inp = 8 + length r"
  by (auto simp: Decode_def Headersize_def Let_def dest: ReadFull_InrD split: sum.splits if_splits)

lemma Decode_Length: "Decode inp = Inr (m, r) \<Longrightarrow> Length m \<le> MaxPayloadLen \<and>
    Payload m = Some (take (unat (Length m)) r)"
  by (auto simp: Decode_def Let_def split: sum.splits if_splits)

lemma be_bytes_be_val: "be_bytes (length b) (be_val b) = b"
proof (induction b rule: rev_induct)
  case (snoc x b)
  have "(be_val b * 256 + unat x) div 256 = be_val b"
    using unat_byte_lt [of x] by (simp only: div_mult_self3 div_less)
  moreover have "unat (word_of_nat (be_val b * 256 + unat x) :: byte) = unat x"
    by (simp only: unat_byte_of_nat mod_mult_self3 mod_less [OF unat_byte_lt])
  then have "word_of_nat (be_val b * 256 + unat x) = x" by (simp only: word_unat_eq_iff)
  ultimately show ?case using snoc by (simp only: be_val_snoc length_append_singleton be_bytes.simps)
qed simp

lemma put_get_uint32: "length b = 4 \<Longrightarrow> put_uint32 (get_uint32 b) = b"
proof -
  assume l: "length b = 4"
  have "be_val c < 256 ^ length c" for c
  proof (induction c rule: rev_induct)
    case (snoc x c)
    from snoc unat_byte_lt [of x] have "be_val c * 256 + unat x < 256 ^ length c * 256" by linarith
    then show ?case by simp
  qed simp
  from this [of b] l have "unat (word_of_nat (be_val b) :: u32) = be_val b"
    by (simp add: unat_of_nat)
  with l be_bytes_be_val [of b] show ?thesis by (simp add: put_uint32_def get_uint32_def)
qed

text \<open>What the peer receives for a message whose payload reader holds at least \<open>Length\<close> bytes.\<close>

definition wire :: "message \<Rightarrow> bytes" where
  "wire m = header m @ (case Payload m of None \<Rightarrow> [] | Some p \<Rightarrow> take (unat (Length m)) p)"

definition sendable :: "message \<Rightarrow> bool" where
  "sendable m \<longleftrightarrow> Length m \<le> MaxPayloadLen \<and>
     (case Payload m of None \<Rightarrow> Length m = 0 | Some p \<Rightarrow> unat (Length m) \<le> length p)"

lemma unat_gt_0_word: "(0 :: u32) < n \<longleftrightarrow> 0 < unat n"
  by (simp add: word_less_nat_alt)

context io_writer
begin

lemma Encode_healthy:
  assumes "ok s" "healthy s" "sendable m"
  shows "\<exists>s'. Encode wr m s = (None, map_option (drop (unat (Length m))) (Payload m), s')
           \<and> ok s' \<and> healthy s' \<and> view s' = view s @ wire m"
proof -
  from assms(3) have L: "\<not> Length m > MaxPayloadLen" by (simp add: sendable_def not_less)
  from wr_healthy [OF assms(1,2)] obtain s1 where
    h: "wr (header m) s = (length (header m), None, s1)" "ok s1" "healthy s1"
       "view s1 = view s @ header m" by blast
  show ?thesis
  proof (cases "Length m > 0")
    case True
    with assms(3) obtain p where p: "Payload m = Some p" "unat (Length m) \<le> length p"
      by (auto simp: sendable_def split: option.splits)
    from CopyN_healthy [OF h(2,3) p(2)] obtain s2 where
      "CopyN wr (unat (Length m)) p s1 = (None, drop (unat (Length m)) p, s2)" "ok s2" "healthy s2"
      "view s2 = view s1 @ take (unat (Length m)) p" by blast
    with L h True p show ?thesis by (simp add: Encode_def wire_def)
  next
    case False
    then have "Length m = 0" by (simp add: word_gt_0)
    with L h show ?thesis by (auto simp: Encode_def wire_def split: option.splits)
  qed
qed

lemma Encode_None:
  assumes "ok s" "Encode wr m s = (None, left, s')"
  shows "sendable m \<and> ok s' \<and> view s' = view s @ wire m"
proof -
  from assms(2) have L: "Length m \<le> MaxPayloadLen" by (auto simp: Encode_def not_less split: if_splits)
  with assms(2) obtain n s1 where h: "wr (header m) s = (n, None, s1)"
    by (auto simp: Encode_def not_less split: prod.splits option.splits if_splits)
  from wr_None [OF assms(1) h] have v: "ok s1" "view s1 = view s @ header m" by simp_all
  show ?thesis
  proof (cases "Length m > 0")
    case True
    with L h assms(2) obtain p left' where p: "Payload m = Some p"
      and c: "CopyN wr (unat (Length m)) p s1 = (None, left', s')"
      by (auto simp: Encode_def not_less split: option.splits prod.splits if_splits)
    from CopyN_None [OF v(1) c] CopyN_ok [OF v(1) c] v p L show ?thesis
      by (simp add: sendable_def wire_def)
  next
    case False
    then have "Length m = 0" by (simp add: word_gt_0)
    with L h v assms(2) show ?thesis
      by (auto simp: Encode_def wire_def sendable_def split: option.splits)
  qed
qed

text \<open>A payload reader that has already given up some of its bytes cannot be sent again.\<close>

lemma Encode_short_payload:
  assumes "ok s" "Payload m = Some p" "length p < unat (Length m)"
  shows "fst (Encode wr m s) \<noteq> None"
proof
  assume "fst (Encode wr m s) = None"
  then obtain left s' where "Encode wr m s = (None, left, s')" by (cases "Encode wr m s") auto
  from Encode_None [OF assms(1) this] assms(2,3) show False by (simp add: sendable_def)
qed

end

lemma Decode_wire:
  assumes "sendable m"
  shows "Decode (wire m @ r) =
    Inr (NewMessage (Type m) (Some (take (unat (Length m)) (drop 8 (wire m) @ r))) (Length m),
         drop 8 (wire m) @ r)"
  using assms Decode_header [of m "drop 8 (wire m) @ r"]
  by (simp add: sendable_def wire_def)

text \<open>
  Messages on a connection are a framing: a received message is taken off together with its
  payload.
\<close>

definition well_formed :: "unit \<Rightarrow> message \<Rightarrow> bool" where
  "well_formed _ m \<longleftrightarrow> Length m \<le> MaxPayloadLen \<and>
     (\<exists>p. Payload m = Some p \<and> length p = unat (Length m))"

definition receive :: "unit \<Rightarrow> bytes \<Rightarrow> go_error + (message \<times> bytes)" where
  "receive _ inp = (case Decode inp of Inl e \<Rightarrow> Inl e | Inr (m, r) \<Rightarrow> Inr (m, drop (unat (Length m)) r))"

interpretation msg: framing "\<lambda>_. True" well_formed "\<lambda>_. wire" receive
proof unfold_locales
  fix c m r
  assume w: "well_formed c m"
  then obtain p where p: "Payload m = Some p" "length p = unat (Length m)" "Length m \<le> MaxPayloadLen"
    by (auto simp: well_formed_def)
  then have "Decode (wire m @ r) = Inr (NewMessage (Type m) (Some p) (Length m), p @ r)"
    by (subst Decode_wire) (simp_all add: sendable_def wire_def)
  with p show "receive c (wire m @ r) = Inr (m, r)"
    by (simp add: receive_def NewMessage_def)
next
  show "wire x \<noteq> []" for x
    by (simp add: wire_def header_def)
next
  show "\<exists>e. receive c [] = Inl e \<and> errors_Is e EOF" for c
    by (simp add: receive_def)
qed

lemma Decode_InrD:
  assumes "Decode inp = Inr (m, r)"
  shows "inp = header m @ r \<and> Length m \<le> MaxPayloadLen"
proof -
  from assms obtain h where h: "ReadFull 8 inp = Inr (h, r)" "h ! 0 = MagicByte1" "h ! 1 = MagicByte2"
      "h ! 2 = Version" "h ! 3 = Type m" "get_uint32 (drop 4 h) = Length m" "Length m \<le> MaxPayloadLen"
    by (auto simp: Decode_def Headersize_def Let_def not_less split: sum.splits if_splits)
  from ReadFull_InrD [OF h(1)] have i: "inp = h @ r" "length h = 8" by simp_all
  then have "h = [h ! 0, h ! 1, h ! 2, h ! 3] @ drop 4 h"
    by (intro nth_equalityI) (auto simp: nth_append nth_Cons' numeral_eq_Suc less_Suc_eq)
  moreover have "drop 4 h = put_uint32 (get_uint32 (drop 4 h))" using i by (simp add: put_get_uint32)
  ultimately have "h = header m" using h unfolding header_def by metis
  with i h(7) show ?thesis by simp
qed

section \<open>Properties\<close>

text \<open>C12: Encode followed by Decode.\<close>

theorem Encode_Decode_roundtrip:
  assumes "Length m \<le> MaxPayloadLen" "Payload m = Some p" "length p = unat (Length m)" "croom c = None"
  shows "\<exists>out left c'. Encode conn_Write m c = (None, left, c') \<and> cout c' = cout c @ out \<and>
    length out = Headersize + length p \<and> Decode (out @ rest) = Inr (m, p @ rest)"
proof -
  from assms have "sendable m" by (simp add: sendable_def)
  from cw.Encode_healthy [OF TrueI assms(4) this] obtain c' where
    "Encode conn_Write m c = (None, map_option (drop (unat (Length m))) (Payload m), c')"
    "cout c' = cout c @ wire m" by blast
  moreover from assms have "Decode (wire m @ rest) = Inr (m, p @ rest)"
    by (subst Decode_wire [OF \<open>sendable m\<close>]) (simp add: wire_def NewMessage_def)
  moreover have "length (wire m) = Headersize + length p"
    using assms by (simp add: wire_def Headersize_def)
  ultimately show ?thesis by blast
qed

lemma Encode_Decode_roundtrip_witness:
  "\<exists>out left c'. Encode conn_Write (NewMessage TypePing (Some [80, 73]) 2) new_conn = (None, left, c') \<and>
    cout c' = cout new_conn @ out \<and> length out = Headersize + length ([80, 73] :: bytes) \<and>
    Decode (out @ [7]) = Inr (NewMessage TypePing (Some [80, 73]) 2, [80, 73] @ [7])"
  by (rule Encode_Decode_roundtrip) (simp_all add: MaxPayloadLen_def)

text \<open>C13: Decode accepts exactly the wire format.\<close>

theorem Decode_accepts_iff:
  "(\<exists>m r. Decode inp = Inr (m, r)) \<longleftrightarrow>
     (\<exists>t n r. inp = [MagicByte1, MagicByte2, Version, t] @ put_uint32 n @ r \<and> n \<le> MaxPayloadLen)"
  (is "?L \<longleftrightarrow> ?R")
proof
  assume ?L
  then obtain m r where "Decode inp = Inr (m, r)" by blast
  from Decode_InrD [OF this] show ?R by (auto simp: header_def)
next
  assume ?R
  then obtain t n r where "inp = header (NewMessage t None n) @ r" "n \<le> MaxPayloadLen"
    by (auto simp: header_def)
  then show ?L using Decode_header [of "NewMessage t None n" r] by auto
qed

section \<open>Messages of bounded size\<close>

text \<open>The payload as the handlers read it, and the length the protocol accepts.\<close>

definition payload :: "message \<Rightarrow> bytes" where
  "payload m = (case Payload m of None \<Rightarrow> [] | Some p \<Rightarrow> p)"

definition max_payload :: nat where
  "max_payload = 65 * 2 ^ 20"

lemma unat_payload_length [simp]: "n \<le> max_payload \<Longrightarrow> unat (word_of_nat n :: u32) = n"
  by (simp add: unat_of_nat max_payload_def)

lemma payload_length_le [simp]: "n \<le> max_payload \<Longrightarrow> (word_of_nat n :: u32) \<le> MaxPayloadLen"
  by (simp add: word_le_nat_alt unat_of_nat max_payload_def MaxPayloadLen_def)

lemma payload_length_0 [simp]: "n \<le> max_payload \<Longrightarrow> (word_of_nat n :: u32) = 0 \<longleftrightarrow> n = 0"
  using unat_payload_length [of n] by (metis unat_eq_zero)

lemma Decode_bytes:
  "length p \<le> max_payload \<Longrightarrow>
   Decode (wire (NewMessage t (Some p) (word_of_nat (length p))) @ rest) =
     Inr (NewMessage t (Some p) (word_of_nat (length p)), p @ rest)"
  by (subst Decode_wire) (simp_all add: sendable_def wire_def)

lemma Encode_bytes:
  assumes "croom c = None" "length p \<le> max_payload"
  shows "\<exists>left c'. Encode conn_Write (NewMessage t (Some p) (word_of_nat (length p))) c = (None, left, c') \<and>
    croom c' = None \<and> cout c' = cout c @ wire (NewMessage t (Some p) (word_of_nat (length p)))"
proof -
  have "sendable (NewMessage t (Some p) (word_of_nat (length p)))" using assms by (simp add: sendable_def)
  from cw.Encode_healthy [OF TrueI assms(1) this] show ?thesis by auto
qed

end
