(* ===== verification/Chunk_Server.thy ===== *)
theory Chunk_Server
  imports Storage Protocol File_Types Sample_Codecs
begin

text \<open>
  The chunk server, \<open>internal/chunkserver\<close>: the handler of one connection over the storage and
  the message protocol. The incoming half of the connection is the list of bytes the peer
  sends before it closes; the outgoing half is a \<^typ>\<open>conn\<close>. Below the model stands the abstract
  chunk store (a map from ids to contents) that the handler implements.
\<close>

section \<open>The handler\<close>

record ChunkHandler =
  ch_storage :: FileStorage
  ch_encoder :: gob

definition NewChunkHandler :: "FileStorage \<Rightarrow> gob \<Rightarrow> ChunkHandler" where
  "NewChunkHandler s g = \<lparr>ch_storage = s, ch_encoder = g\<rparr>"

definition NewChunkServer :: "int \<Rightarrow> gob \<Rightarrow> ChunkHandler" where
  "NewChunkServer fileDepth g =
     NewChunkHandler (NewFileStorage DefaultPathTransform fileDepth HashContent) g"

text \<open>
  \<open>getChunkMetadataReader\<close> yields the limited reader of the metadata and what follows it in the
  payload; \<open>readChunkMetadata\<close> decodes from the former and leaves its unread part.
\<close>

definition getChunkMetadataReader :: "bytes \<Rightarrow> go_error + (bytes \<times> bytes)" where
  "getChunkMetadataReader r =
     (case ReadFull 4 r of
        Inl e \<Rightarrow> Inl (wrap ''failed to read metadata length'' e)
      | Inr (b, r') \<Rightarrow> let metaLen = unat (get_uint32 b) in Inr (take metaLen r', drop metaLen r'))"

definition readChunkMetadata :: "ChunkHandler \<Rightarrow> bytes \<Rightarrow> go_error + (ChunkMetaData \<times> bytes)" where
  "readChunkMetadata H r =
     (case encoder_Decode (ch_encoder H) r of
        Inl e \<Rightarrow> Inl (wrap ''failed to decode chunk metadata'' e)
      | Inr md \<Rightarrow> Inr md)"

definition writeChunk :: "ChunkHandler \<Rightarrow> string \<Rightarrow> bytes \<Rightarrow> fs \<Rightarrow> (go_error + FileMetaData) \<times> fs" where
  "writeChunk H key r s = FS_Write (ch_storage H) key r s"

definition verifyCheckSum :: "string \<Rightarrow> string \<Rightarrow> bool" where
  "verifyCheckSum chunkCheckSum writtenCheckSum = (chunkCheckSum = writtenCheckSum)"

definition renameFile :: "string \<Rightarrow> fs \<Rightarrow> go_error option \<times> fs" where
  "renameFile oldPath s = RenameFile oldPath s"

definition chunk_handleWrite :: "ChunkHandler \<Rightarrow> bytes \<Rightarrow> fs \<Rightarrow> go_error option \<times> fs" where
  "chunk_handleWrite H r s =
     (case getChunkMetadataReader r of
        Inl e \<Rightarrow> (Some e, s)
      | Inr (mr, r1) \<Rightarrow>
          (case readChunkMetadata H mr of
             Inl e \<Rightarrow> (Some e, s)
           | Inr (md, left) \<Rightarrow>
               (case writeChunk H (cm_Id md) (left @ r1) s of
                  (Inl e, s1) \<Rightarrow> (Some e, s1)
                | (Inr fm, s1) \<Rightarrow>
                    if \<not> verifyCheckSum (cm_Id md) (ContentHash fm) then (Some ErrCheckSumNotMatching, s1)
                    else (case renameFile (GetFilePath (FullPath fm)) s1 of
                            (Some e, s2) \<Rightarrow> (Some (wrap ''failed to rename file'' e), s2)
                          | (None, s2) \<Rightarrow> (None, s2)))))"

definition readChunk :: "ChunkHandler \<Rightarrow> bytes \<Rightarrow> fs \<Rightarrow> go_error + (bytes \<times> int)" where
  "readChunk H r s = FS_Read (ch_storage H) (string_of_bytes r) s"

definition chunk_handleRead :: "ChunkHandler \<Rightarrow> bytes \<Rightarrow> conn \<Rightarrow> fs \<Rightarrow> go_error option \<times> conn" where
  "chunk_handleRead H r c s =
     (case readChunk H r s of
        Inl e \<Rightarrow> (Some e, c)
      | Inr (fileReader, fileLen) \<Rightarrow>
          (case Encode conn_Write (NewMessage TypeReadResponse (Some fileReader) (word_of_int fileLen)) c of
             (e, left, c') \<Rightarrow> (e, c')))"

definition handlePing :: "bytes \<Rightarrow> conn \<Rightarrow> go_error option \<times> conn" where
  "handlePing r c =
     (case Encode conn_Write (NewMessage TypePingResponse (Some r) (word_of_nat (length r))) c of
        (e, left, c') \<Rightarrow> (e, c'))"

text \<open>
  The message loop. A handled message's payload has been read to its end; that of an unknown
  type has not been read at all, so the next header is decoded from it.
\<close>

function chunk_Handle :: "ChunkHandler \<Rightarrow> bytes \<Rightarrow> conn \<Rightarrow> fs \<Rightarrow> go_error option \<times> conn \<times> fs" where
  "chunk_Handle H inp c s =
     (case Decode inp of
        Inl e \<Rightarrow> (if e = EOF then None else Some e, c, s)
      | Inr (m, r) \<Rightarrow>
          if Length m = 0 then (None, c, s)
          else if Type m = TypePing then
            (case handlePing (payload m) c of
               (Some e, c') \<Rightarrow> (Some e, c', s)
             | (None, c') \<Rightarrow> chunk_Handle H (drop (unat (Length m)) r) c' s)
          else if Type m = TypeRead then
            (case chunk_handleRead H (payload m) c s of
               (Some e, c') \<Rightarrow> (Some e, c', s)
             | (None, c') \<Rightarrow> chunk_Handle H (drop (unat (Length m)) r) c' s)
          else if Type m = TypeWrite then
            (case chunk_handleWrite H (payload m) s of
               (Some e, s') \<Rightarrow> (Some e, c, s')
             | (None, s') \<Rightarrow> chunk_Handle H (drop (unat (Length m)) r) c s')
          else chunk_Handle H r c s)"
  by pat_completeness auto
termination
  by (relation "measure (\<lambda>(H, inp, c, s). length inp)") (auto dest: Decode_shrinks)

declare chunk_Handle.simps [simp del]

section \<open>The abstract chunk store\<close>

text \<open>
  What the server promises: a put whose content does not hash to its id is refused, and a refused
  request (or a get of an absent chunk) ends the session.
\<close>

datatype request = Put ChunkMetaData bytes | Get string | Ping bytes

fun chunk_spec ::
  "(bytes \<Rightarrow> string) \<Rightarrow> request list \<Rightarrow> (string \<rightharpoonup> bytes) \<Rightarrow>
     go_error option \<times> message list \<times> (string \<rightharpoonup> bytes)" where
  "chunk_spec h [] \<sigma> = (None, [], \<sigma>)"
| "chunk_spec h (Put md d # rs) \<sigma> =
     (if h d = cm_Id md then chunk_spec h rs (\<sigma>(cm_Id md \<mapsto> d))
      else (Some ErrCheckSumNotMatching, [], \<sigma>))"
| "chunk_spec h (Get k # rs) \<sigma> =
     (case \<sigma> k of
        None \<Rightarrow> (Some (wrap ''failed opening file'' ErrNotExist), [], \<sigma>)
      | Some d \<Rightarrow>
          (case chunk_spec h rs \<sigma> of
             (e, out, \<sigma>') \<Rightarrow>
               (e, NewMessage TypeReadResponse (Some d) (word_of_nat (length d)) # out, \<sigma>')))"
| "chunk_spec h (Ping p # rs) \<sigma> =
     (case chunk_spec h rs \<sigma> of
        (e, out, \<sigma>') \<Rightarrow> (e, NewMessage TypePingResponse (Some p) (word_of_nat (length p)) # out, \<sigma>'))"

text \<open>The message of a request, and the requests that fit into one.\<close>

fun req_payload :: "gob \<Rightarrow> request \<Rightarrow> bytes" where
  "req_payload G (Put md d) =
     (case gob_Encode G md of Inl e \<Rightarrow> [] | Inr b \<Rightarrow> put_uint32 (word_of_nat (length b)) @ b @ d)"
| "req_payload G (Get k) = bytes_of_string k"
| "req_payload G (Ping p) = p"

fun req_type :: "request \<Rightarrow> byte" where
  "req_type (Put md d) = TypeWrite"
| "req_type (Get k) = TypeRead"
| "req_type (Ping p) = TypePing"

definition req_msg :: "gob \<Rightarrow> request \<Rightarrow> message" where
  "req_msg G r = NewMessage (req_type r) (Some (req_payload G r)) (word_of_nat (length (req_payload G r)))"

definition req_ok :: "gob \<Rightarrow> request \<Rightarrow> bool" where
  "req_ok G r \<longleftrightarrow> req_payload G r \<noteq> [] \<and> length (req_payload G r) \<le> max_payload \<and>
     (case r of Put md d \<Rightarrow> CHR ''.'' \<notin> set (cm_Id md) | Get k \<Rightarrow> CHR ''.'' \<notin> set k | Ping p \<Rightarrow> True)"

text \<open>The file system represents a chunk store on the keys without a dot.\<close>

definition store_rep :: "nat \<Rightarrow> (bytes \<Rightarrow> string) \<Rightarrow> fs \<Rightarrow> (string \<rightharpoonup> bytes) \<Rightarrow> bool" where
  "store_rep d h s \<sigma> \<longleftrightarrow> no_faults s \<and> (\<forall>x. fs_node s x \<noteq> Some Dir) \<and>
     (\<forall>k. CHR ''.'' \<notin> set k \<longrightarrow> FS_contents d h k s = \<sigma> k) \<and>
     (\<forall>k b. \<sigma> k = Some b \<longrightarrow> length b \<le> max_payload)"

section \<open>Content addressing\<close>

text \<open>The outcomes of a write: nothing, a temporary file, or a verified chunk renamed into place.\<close>

lemma chunk_handleWrite_cases:
  assumes H: "ch_storage H = NewFileStorage DefaultPathTransform (int d) h" and w: "chunk_handleWrite H r s = (e, s')"
  obtains (rejected) "s' = s"
    | (hidden) k data fr where "FS_Write (NewFileStorage DefaultPathTransform (int d) h) k data s = (fr, s')"
    | (committed) k data m s1 where "FS_Write (NewFileStorage DefaultPathTransform (int d) h) k data s = (Inr m, s1)"
        "k = ContentHash m" "RenameFile (GetFilePath (FullPath m)) s1 = (None, s')"
proof (cases "\<exists>mr r1 md left. getChunkMetadataReader r = Inr (mr, r1) \<and> readChunkMetadata H mr = Inr (md, left)")
  case False
  with w show ?thesis by (intro rejected) (auto simp: chunk_handleWrite_def split: sum.splits)
next
  case True
  then obtain mr r1 md left where g: "getChunkMetadataReader r = Inr (mr, r1)"
    "readChunkMetadata H mr = Inr (md, left)" by blast
  obtain fr s1 where fw: "FS_Write (NewFileStorage DefaultPathTransform (int d) h) (cm_Id md) (left @ r1) s = (fr, s1)"
    by (cases "FS_Write (NewFileStorage DefaultPathTransform (int d) h) (cm_Id md) (left @ r1) s")
  show ?thesis
  proof (cases "\<exists>m. fr = Inr m \<and> cm_Id md = ContentHash m \<and> fst (RenameFile (GetFilePath (FullPath m)) s1) = None")
    case False
    with w g fw H have "s' = s1"
      by (cases fr) (auto simp: chunk_handleWrite_def writeChunk_def verifyCheckSum_def renameFile_def
          split: option.splits prod.splits if_splits dest: st.rename_fails)
    with fw show ?thesis by (intro hidden) simp
  next
    case True
    then obtain m where m: "fr = Inr m" "cm_Id md = ContentHash m"
      "fst (RenameFile (GetFilePath (FullPath m)) s1) = None" by blast
    with w g fw H have "RenameFile (GetFilePath (FullPath m)) s1 = (None, s')"
      by (auto simp: chunk_handleWrite_def writeChunk_def verifyCheckSum_def renameFile_def split: option.splits prod.splits)
    with fw m show ?thesis by (intro committed) simp_all
  qed
qed

lemma chunk_handleWrite_addressed:
  assumes "ch_storage H = NewFileStorage DefaultPathTransform (int d) h"
    and "st.addressed d h s" and "chunk_handleWrite H r s = (e, s')"
  shows "st.addressed d h s'"
  using assms(1,3)
  by (cases rule: chunk_handleWrite_cases)
    (blast intro: assms(2) st.addressed_write [OF assms(2)] st.addressed_commit [OF assms(2)])+

lemma chunk_Handle_addressed:
  assumes "ch_storage H = NewFileStorage DefaultPathTransform (int d) h"
  shows "st.addressed d h s \<Longrightarrow> chunk_Handle H inp c s = (e, c', s') \<Longrightarrow> st.addressed d h s'"
  using assms
proof (induction H inp c s rule: chunk_Handle.induct)
  case (1 H inp c s)
  show ?case
  proof (cases "\<exists>m r. Decode inp = Inr (m, r) \<and> Length m \<noteq> 0")
    case False
    with "1.prems" show ?thesis
      by (auto simp: chunk_Handle.simps [of H inp] split: sum.splits)
  next
    case True
    then obtain m r where mr: "Decode inp = Inr (m, r)" "Length m \<noteq> 0" by blast
    note IH = "1.IH" [OF mr(1) refl mr(2)]
    consider "Type m = TypePing" | "Type m \<noteq> TypePing" "Type m = TypeRead"
      | "Type m \<noteq> TypePing" "Type m \<noteq> TypeRead" "Type m = TypeWrite"
      | "Type m \<noteq> TypePing" "Type m \<noteq> TypeRead" "Type m \<noteq> TypeWrite" by blast
    then show ?thesis
    proof cases
      case 1
      with "1.prems" mr IH(1) show ?thesis
        by (auto simp: chunk_Handle.simps [of H inp] split: prod.splits option.splits)
    next
      case 2
      with "1.prems" mr IH(2) show ?thesis
        by (auto simp: chunk_Handle.simps [of H inp] split: prod.splits option.splits)
    next
      case 3
      obtain x s1 where w: "chunk_handleWrite H (payload m) s = (x, s1)"
        by (cases "chunk_handleWrite H (payload m) s")
      from chunk_handleWrite_addressed [OF "1.prems"(3,1) w] have "st.addressed d h s1" .
      with 3 "1.prems" mr w IH(3) [OF _ _ _ w [symmetric]] show ?thesis
        by (auto simp: chunk_Handle.simps [of H inp] split: option.splits)
    next
      case 4
      with "1.prems" mr IH(4) show ?thesis by (auto simp: chunk_Handle.simps [of H inp])
    qed
  qed
qed

section \<open>One request\<close>

lemma chunk_Handle_Nil [simp]: "chunk_Handle H [] c s = (None, c, s)"
  by (simp add: chunk_Handle.simps)

lemma chunk_Handle_req:
  assumes "req_ok G r"
  shows "chunk_Handle H (wire (req_msg G r) @ rest) c s =
    (case r of
       Put md d \<Rightarrow> (case chunk_handleWrite H (req_payload G r) s of
                     (Some e, s') \<Rightarrow> (Some e, c, s') | (None, s') \<Rightarrow> chunk_Handle H rest c s')
     | Get k \<Rightarrow> (case chunk_handleRead H (req_payload G r) c s of
                     (Some e, c') \<Rightarrow> (Some e, c', s) | (None, c') \<Rightarrow> chunk_Handle H rest c' s)
     | Ping p \<Rightarrow> (case handlePing (req_payload G r) c of
                     (Some e, c') \<Rightarrow> (Some e, c', s) | (None, c') \<Rightarrow> chunk_Handle H rest c' s))"
proof -
  let ?p = "req_payload G r" and ?m = "req_msg G r"
  from assms have l: "length ?p \<le> max_payload" "?p \<noteq> []" by (simp_all add: req_ok_def)
  have D: "Decode (wire ?m @ rest) = Inr (?m, ?p @ rest)"
    using Decode_bytes [OF l(1)] by (simp add: req_msg_def)
  have m: "Length ?m \<noteq> 0" "Type ?m = req_type r" "payload ?m = ?p" "unat (Length ?m) = length ?p"
    using l by (simp_all add: req_msg_def payload_def)
  show ?thesis
    unfolding chunk_Handle.simps [of H "wire ?m @ rest"] using D m
    by (cases r) (simp_all add: message_types del: req_payload.simps split: prod.splits option.splits)
qed

lemma store_rep_read:
  assumes "store_rep d h s \<sigma>" "CHR ''.'' \<notin> set k"
  shows "FS_Read (NewFileStorage DefaultPathTransform (int d) h) k s =
    (case \<sigma> k of None \<Rightarrow> Inl (wrap ''failed opening file'' ErrNotExist) | Some b \<Rightarrow> Inr (b, int (length b)))"
proof -
  from assms have nf: "no_faults s" and nd: "fs_node s (chunk_path d k) \<noteq> Some Dir"
    and c: "\<sigma> k = FS_contents d h k s" by (auto simp: store_rep_def)
  show ?thesis
  proof (cases "fs_node s (chunk_path d k)")
    case None
    with nf c show ?thesis by (auto simp: FS_contents_def FS_Read_eq fs_Open_def no_faultsD)
  next
    case (Some x)
    with nd nf c show ?thesis by (cases x) (auto simp: FS_contents_def FS_Read_eq fs_Open_def no_faultsD)
  qed
qed

lemma chunk_handleRead_refines:
  assumes "ch_storage H = NewFileStorage DefaultPathTransform (int d) h" "store_rep d h s \<sigma>"
    "CHR ''.'' \<notin> set k" "croom c = None"
  shows "case \<sigma> k of
      None \<Rightarrow> chunk_handleRead H (bytes_of_string k) c s = (Some (wrap ''failed opening file'' ErrNotExist), c)
    | Some b \<Rightarrow> \<exists>c'. chunk_handleRead H (bytes_of_string k) c s = (None, c') \<and> croom c' = None \<and>
        cout c' = cout c @ wire (NewMessage TypeReadResponse (Some b) (word_of_nat (length b)))"
proof (cases "\<sigma> k")
  case None
  with store_rep_read [OF assms(2,3)] assms(1) show ?thesis by (simp add: chunk_handleRead_def readChunk_def)
next
  case (Some b)
  with assms(2) have "length b \<le> max_payload" by (auto simp: store_rep_def)
  from Encode_bytes [OF assms(4) this, of TypeReadResponse] store_rep_read [OF assms(2,3)] Some assms(1)
  show ?thesis by (auto simp: chunk_handleRead_def readChunk_def)
qed

lemma handlePing_refines:
  assumes "croom c = None" "length p \<le> max_payload"
  shows "\<exists>c'. handlePing p c = (None, c') \<and> croom c' = None \<and>
    cout c' = cout c @ wire (NewMessage TypePingResponse (Some p) (word_of_nat (length p)))"
  using Encode_bytes [OF assms, of TypePingResponse] by (auto simp: handlePing_def)

lemma chunk_handleWrite_parts:
  assumes "gob_ok G" "gob_Encode G md = Inr b" "length b < 2 ^ 32" "ch_encoder H = G"
  shows "chunk_handleWrite H (put_uint32 (word_of_nat (length b)) @ b @ data) s =
    (case writeChunk H (cm_Id md) data s of
       (Inl e, s1) \<Rightarrow> (Some e, s1)
     | (Inr fm, s1) \<Rightarrow>
         if \<not> verifyCheckSum (cm_Id md) (ContentHash fm) then (Some ErrCheckSumNotMatching, s1)
         else (case renameFile (GetFilePath (FullPath fm)) s1 of
                 (Some e, s2) \<Rightarrow> (Some (wrap ''failed to rename file'' e), s2)
               | (None, s2) \<Rightarrow> (None, s2)))"
proof -
  from assms(3) have "unat (word_of_nat (length b) :: u32) = length b" by (simp add: unat_of_nat)
  with assms(4) gob_okD [OF assms(1,2)] show ?thesis
    by (simp add: chunk_handleWrite_def getChunkMetadataReader_def readChunkMetadata_def encoder_Decode_def)
qed

lemma store_rep_put:
  assumes "store_rep d h s \<sigma>" "CHR ''.'' \<notin> set k" "length data \<le> max_payload"
    "FS_Write (NewFileStorage DefaultPathTransform (int d) h) k data s = (Inr m, s1)" "no_faults s1"
  shows "\<exists>s2. RenameFile (GetFilePath (FullPath m)) s1 = (None, s2) \<and> store_rep d h s2 (\<sigma>(k \<mapsto> data))"
proof -
  let ?p = "chunk_path d k"
  note w = FS_Write_cases [OF assms(4)]
  then obtain y where m: "GetFilePath (FullPath m) = ?p @ ''.tmp''"
    and t: "fs_node s1 (?p @ ''.tmp'') = Some (File data y)" by blast
  have nd: "fs_node s1 x \<noteq> Some Dir" for x
    using w t assms(1) by (cases "x = ?p @ ''.tmp''") (auto simp: store_rep_def)
  then obtain s2 where r: "fs_Rename (?p @ ''.tmp'') ?p s1 = (None, s2)"
    using t assms(5) by (simp add: fs_Rename_def no_faultsD)
  note R = fs_Rename_None [OF r]
  have nf: "no_faults s2" using r assms(5) by (auto simp: fs_Rename_def split: option.splits if_splits)
  have "fs_node s2 x \<noteq> Some Dir" for x using R nd t by (metis node.distinct(1) not_None_eq option.inject append_self_conv list.distinct(1))
  moreover have "FS_contents d h k' s2 = (\<sigma>(k \<mapsto> data)) k'" if k': "CHR ''.'' \<notin> set k'" for k'
  proof (cases "k' = k")
    case True
    with R t nf assms(5) show ?thesis by (simp add: FS_contents_def FS_Read_eq fs_Open_def no_faultsD)
  next
    case False
    with chunk_path_neq_tmp [OF k', of d ?p] R w have
      "fs_node s2 (chunk_path d k') = fs_node s (chunk_path d k')" "faults s2 = faults s" by auto
    from FS_contents_cong [OF this] False k' assms(1) show ?thesis by (simp add: store_rep_def)
  qed
  ultimately show ?thesis using m r nf assms(1,3) by (auto simp: store_rep_def RenameFile_tmp)
qed

lemma store_rep_hidden:
  assumes "store_rep d h s \<sigma>"
    "FS_Write (NewFileStorage DefaultPathTransform (int d) h) k data s = (Inr m, s1)" "no_faults s1"
  shows "store_rep d h s1 \<sigma>"
proof -
  note w = FS_Write_cases [OF assms(2)]
  then obtain y where t: "fs_node s1 (chunk_path d k @ ''.tmp'') = Some (File data y)" by blast
  have "fs_node s1 x \<noteq> Some Dir" for x
    using w t assms(1) by (cases "x = chunk_path d k @ ''.tmp''") (auto simp: store_rep_def)
  with assms st.write_hidden [OF _ assms(2)] show ?thesis by (simp add: store_rep_def)
qed

lemma chunk_handleWrite_refines:
  assumes H: "H = NewChunkHandler (NewFileStorage DefaultPathTransform (int d) h) G" and G: "gob_ok G"
    and rep: "store_rep d h s \<sigma>" and ok: "req_ok G (Put md data)"
  shows "\<exists>s'. chunk_handleWrite H (req_payload G (Put md data)) s =
      (if h data = cm_Id md then None else Some ErrCheckSumNotMatching, s') \<and>
    store_rep d h s' (if h data = cm_Id md then \<sigma>(cm_Id md \<mapsto> data) else \<sigma>)"
proof -
  from ok obtain b where b: "gob_Encode G md = Inr b" and
    l: "4 + length b + length data \<le> max_payload" and k: "CHR ''.'' \<notin> set (cm_Id md)"
    by (auto simp: req_ok_def split: sum.splits)
  from l have l': "length b < 2 ^ 32" "length data \<le> max_payload" by (simp_all add: max_payload_def)
  have "fs_node s (chunk_path d (cm_Id md) @ ''.tmp'') \<noteq> Some Dir" "no_faults s"
    using rep by (simp_all add: store_rep_def)
  from FS_Write_ok [OF this(2,1)] obtain m s1 where
    w: "FS_Write (NewFileStorage DefaultPathTransform (int d) h) (cm_Id md) data s = (Inr m, s1)"
    and nf: "no_faults s1" by blast
  note hash = st.write_hash [OF w]
  from H G b l'(1) w have e: "chunk_handleWrite H (req_payload G (Put md data)) s =
      (if \<not> verifyCheckSum (cm_Id md) (h data) then (Some ErrCheckSumNotMatching, s1)
       else (case renameFile (GetFilePath (FullPath m)) s1 of
               (Some e, s2) \<Rightarrow> (Some (wrap ''failed to rename file'' e), s2) | (None, s2) \<Rightarrow> (None, s2)))"
    using chunk_handleWrite_parts [of G md b H data s]
    by (simp add: NewChunkHandler_def writeChunk_def hash)
  from store_rep_put [OF rep k l'(2) w nf] store_rep_hidden [OF rep w nf] e show ?thesis
    by (auto simp: verifyCheckSum_def renameFile_def)
qed

section \<open>A sequence of requests\<close>

text \<open>
  \<open>implements\<close>: from this connection and this disk the handler answers what follows as the
  abstract store does. Each kind of request at the front keeps it.
\<close>

definition implements ::
  "ChunkHandler \<Rightarrow> gob \<Rightarrow> nat \<Rightarrow> (bytes \<Rightarrow> string) \<Rightarrow> request list \<Rightarrow> conn \<Rightarrow> fs \<Rightarrow> (string \<rightharpoonup> bytes) \<Rightarrow> bool" where
  "implements H G d h rs c s \<sigma> \<longleftrightarrow>
     (\<exists>e out \<sigma>' c' s'. chunk_spec h rs \<sigma> = (e, out, \<sigma>') \<and>
        chunk_Handle H (concat (map (\<lambda>r. wire (req_msg G r)) rs)) c s = (e, c', s') \<and>
        cout c' = cout c @ concat (map wire out) \<and> store_rep d h s' \<sigma>')"

lemma implements_Nil: "store_rep d h s \<sigma> \<Longrightarrow> implements H G d h [] c s \<sigma>"
  by (simp add: implements_def)

lemma implements_Put:
  assumes H: "H = NewChunkHandler (NewFileStorage DefaultPathTransform (int d) h) G" and G: "gob_ok G"
    and rep: "store_rep d h s \<sigma>" and ok: "req_ok G (Put md data)"
    and rest: "\<And>s'. store_rep d h s' (\<sigma>(cm_Id md \<mapsto> data)) \<Longrightarrow> implements H G d h rs c s' (\<sigma>(cm_Id md \<mapsto> data))"
  shows "implements H G d h (Put md data # rs) c s \<sigma>"
proof -
  from chunk_handleWrite_refines [OF H G rep ok] obtain s' where
    w: "chunk_handleWrite H (req_payload G (Put md data)) s =
        (if h data = cm_Id md then None else Some ErrCheckSumNotMatching, s')"
    and rep': "store_rep d h s' (if h data = cm_Id md then \<sigma>(cm_Id md \<mapsto> data) else \<sigma>)" by blast
  show ?thesis
  proof (cases "h data = cm_Id md")
    case True
    with rep' rest have "implements H G d h rs c s' (\<sigma>(cm_Id md \<mapsto> data))" by simp
    with True w chunk_Handle_req [OF ok] show ?thesis
      by (auto simp: implements_def simp del: req_payload.simps fun_upd_apply)
  next
    case False
    with rep' w chunk_Handle_req [OF ok] show ?thesis
      by (auto simp: implements_def simp del: req_payload.simps)
  qed
qed

lemma implements_Get:
  assumes H: "ch_storage H = NewFileStorage DefaultPathTransform (int d) h"
    and rep: "store_rep d h s \<sigma>" "croom c = None" and ok: "req_ok G (Get k)"
    and rest: "\<And>c'. croom c' = None \<Longrightarrow> implements H G d h rs c' s \<sigma>"
  shows "implements H G d h (Get k # rs) c s \<sigma>"
proof -
  from ok have k: "CHR ''.'' \<notin> set k" by (simp add: req_ok_def)
  note step = chunk_Handle_req [OF ok]
  show ?thesis
  proof (cases "\<sigma> k")
    case None
    with chunk_handleRead_refines [OF H rep(1) k rep(2)] step rep(1) show ?thesis by (auto simp: implements_def)
  next
    case (Some b)
    with chunk_handleRead_refines [OF H rep(1) k rep(2)] obtain c1 where
      "chunk_handleRead H (bytes_of_string k) c s = (None, c1)" "croom c1 = None"
      "cout c1 = cout c @ wire (NewMessage TypeReadResponse (Some b) (word_of_nat (length b)))" by auto
    with rest [of c1] step Some show ?thesis by (auto simp: implements_def)
  qed
qed

lemma implements_Ping:
  assumes "croom c = None" and ok: "req_ok G (Ping p)"
    and rest: "\<And>c'. croom c' = None \<Longrightarrow> implements H G d h rs c' s \<sigma>"
  shows "implements H G d h (Ping p # rs) c s \<sigma>"
proof -
  from ok have "length p \<le> max_payload" by (simp add: req_ok_def)
  from handlePing_refines [OF assms(1) this] obtain c1 where
    "handlePing p c = (None, c1)" "croom c1 = None"
    "cout c1 = cout c @ wire (NewMessage TypePingResponse (Some p) (word_of_nat (length p)))" by auto
  with rest [of c1] chunk_Handle_req [OF ok] show ?thesis by (auto simp: implements_def)
qed

lemma chunk_Handle_implements:
  assumes "H = NewChunkHandler (NewFileStorage DefaultPathTransform (int d) h) G" "gob_ok G"
  shows "list_all (req_ok G) rs \<Longrightarrow> store_rep d h s \<sigma> \<Longrightarrow> croom c = None \<Longrightarrow> implements H G d h rs c s \<sigma>"
proof (induction rs arbitrary: s \<sigma> c)
  case Nil
  then show ?case by (simp add: implements_Nil)
next
  case (Cons r rs)
  have "ch_storage H = NewFileStorage DefaultPathTransform (int d) h" using assms(1) by (simp add: NewChunkHandler_def)
  with Cons show ?case
    by (cases r) (auto intro: implements_Put [OF assms] implements_Get implements_Ping)
qed

section \<open>Properties\<close>

text \<open>C9: on any input, in any environment, every chunk that can be read under an id without a dot hashes
  to its id; paths are compared as strings.\<close>

theorem chunk_server_integrity:
  assumes "ch_storage H = NewFileStorage DefaultPathTransform (int d) h"
    and "\<forall>k b. CHR ''.'' \<notin> set k \<longrightarrow> FS_contents d h k s = Some b \<longrightarrow> h b = k"
    and "chunk_Handle H inp c s = (e, c', s')"
  shows "\<forall>k b. CHR ''.'' \<notin> set k \<longrightarrow> FS_contents d h k s' = Some b \<longrightarrow> h b = k"
  using chunk_Handle_addressed [OF assms(1) _ assms(3)] assms(2) by (simp add: st.addressed_def)

text \<open>C8: on a disk without faults, for any sequence of well-formed requests (\<open>req_ok\<close>: ids without a dot
  among them), the handler implements the abstract chunk store; paths are compared as strings.\<close>

theorem chunk_server_refines:
  assumes "H = NewChunkHandler (NewFileStorage DefaultPathTransform (int d) h) G" "gob_ok G"
    and "list_all (req_ok G) rs" "store_rep d h s \<sigma>" "croom c = None"
  shows "\<exists>e out \<sigma>' c' s'. chunk_spec h rs \<sigma> = (e, out, \<sigma>') \<and>
    chunk_Handle H (concat (map (\<lambda>r. wire (req_msg G r)) rs)) c s = (e, c', s') \<and>
    cout c' = cout c @ concat (map wire out) \<and> store_rep d h s' \<sigma>'"
  using chunk_Handle_implements [OF assms] by (simp add: implements_def)

definition demo_md :: ChunkMetaData where
  "demo_md = \<lparr>cm_Id = HashContent [1, 2, 3],
     cm_ChunkInfo = \<lparr>ci_Size = 3, ci_Offset = 0, ci_Addr = '':5001''\<rparr>\<rparr>"

definition demo_chunk_server :: ChunkHandler where
  "demo_chunk_server = NewChunkServer (int 5) sample_gob"

lemma demo_store_rep: "store_rep d h empty_fs Map.empty"
  by (simp add: store_rep_def no_faults_def empty_fs_def fs_node_def FS_contents_def FS_Read_eq fs_Open_def)

lemma demo_requests: "list_all (req_ok sample_gob) [Put demo_md [1, 2, 3], Get (HashContent [1, 2, 3])]"
proof -
  have "CHR ''.'' \<notin> set (HashContent [1, 2, 3])" using HashContent_chars [of "CHR ''.''"] by auto
  moreover have "HashContent [1, 2, 3] \<noteq> []" by (metis HashContent_length list.size(3) zero_neq_numeral)
  ultimately show ?thesis
    by (simp add: req_ok_def demo_md_def sample_gob_def max_payload_def bytes_of_string_def)
qed

lemma chunk_server_refines_witness:
  "\<exists>e out \<sigma>' c' s'.
     chunk_spec HashContent [Put demo_md [1, 2, 3], Get (HashContent [1, 2, 3])] Map.empty = (e, out, \<sigma>') \<and>
     chunk_Handle demo_chunk_server
       (concat (map (\<lambda>r. wire (req_msg sample_gob r)) [Put demo_md [1, 2, 3], Get (HashContent [1, 2, 3])]))
       new_conn empty_fs = (e, c', s') \<and>
     cout c' = cout new_conn @ concat (map wire out) \<and> store_rep 5 HashContent s' \<sigma>'"
  by (rule chunk_server_refines [OF _ sample_gob_ok demo_requests demo_store_rep])
    (simp_all add: demo_chunk_server_def NewChunkServer_def)

lemma chunk_server_integrity_witness:
  "\<forall>k. CHR ''.'' \<in> set k \<or>
     map_option HashContent (FS_contents 5 HashContent k
       (snd (snd (chunk_Handle demo_chunk_server (wire (req_msg sample_gob (Put demo_md [1, 2, 3]))) new_conn empty_fs))))
       \<in> {None, Some k}"
proof -
  let ?r = "chunk_Handle demo_chunk_server (wire (req_msg sample_gob (Put demo_md [1, 2, 3]))) new_conn empty_fs"
  have "\<forall>k b. CHR ''.'' \<notin> set k \<longrightarrow> FS_contents 5 HashContent k (snd (snd ?r)) = Some b \<longrightarrow> HashContent b = k"
  proof (rule chunk_server_integrity)
    show "ch_storage demo_chunk_server = NewFileStorage DefaultPathTransform (int 5) HashContent"
      by (simp add: demo_chunk_server_def NewChunkServer_def NewChunkHandler_def)
    show "\<forall>k b. CHR ''.'' \<notin> set k \<longrightarrow> FS_contents 5 HashContent k empty_fs = Some b \<longrightarrow> HashContent b = k"
      using demo_store_rep [of 5 HashContent] by (simp add: store_rep_def)
    show "?r = (fst ?r, fst (snd ?r), snd (snd ?r))" by simp
  qed
  then show ?thesis by (auto split: option.splits)
qed

text \<open>A message of unknown type is not skipped: the server goes on decoding inside its payload.\<close>

lemma chunk_unknown_type_payload_is_decoded:
  assumes "t \<noteq> TypePing" "t \<noteq> TypeRead" "t \<noteq> TypeWrite" "p \<noteq> []" "length p \<le> max_payload"
  shows "chunk_Handle H (wire (NewMessage t (Some p) (word_of_nat (length p))) @ rest) c s = chunk_Handle H (p @ rest) c s"
  using assms Decode_bytes [of p t rest]
  by (simp add: chunk_Handle.simps [of H "wire (NewMessage t (Some p) (word_of_nat (length p))) @ rest"])

lemma chunk_unknown_type_payload_is_decoded_witness:
  "chunk_Handle demo_chunk_server
     (wire (NewMessage TypeAddFile (Some (wire (NewMessage TypePing (Some [7]) 1)))
        (word_of_nat (length (wire (NewMessage TypePing (Some [7]) 1))))) @ []) new_conn empty_fs =
   chunk_Handle demo_chunk_server (wire (NewMessage TypePing (Some [7]) 1) @ []) new_conn empty_fs"
  by (rule chunk_unknown_type_payload_is_decoded)
    (simp_all add: message_types wire_def header_def max_payload_def)

text \<open>Whatever becomes of a write, nothing is sent back for it.\<close>

lemma chunk_write_not_acknowledged:
  assumes "req_ok G (Put md data)"
  shows "fst (snd (chunk_Handle H (wire (req_msg G (Put md data))) c s)) = c"
  using chunk_Handle_req [OF assms, of H "[]" c s]
  by (auto simp del: req_payload.simps split: prod.splits option.splits)

lemma chunk_write_not_acknowledged_witness:
  "fst (snd (chunk_Handle demo_chunk_server (wire (req_msg sample_gob (Put demo_md [1, 2, 3]))) new_conn empty_fs)) = new_conn"
  by (rule chunk_write_not_acknowledged) (use demo_requests in simp)

end
