(* ===== verification/Chunk_Concurrency.thy ===== *)
theory Chunk_Concurrency
  imports Chunk_Server
begin

text \<open>
  The chunk server with several connections. \<open>handleConnections\<close> of the transport runs every
  connection in a goroutine of its own, and the storage they share takes no lock: a write opens
  \<open><path>.tmp\<close> with \<open>O_TRUNC\<close>, copies block after block at the offset of its own handle, compares
  the hash of what it has copied and renames whatever file bears the temporary name by then. A
  \<open>disk\<close> has names that point to inodes, because a handle stays on its inode when the name is
  renamed or reopened; the steps below are the system calls of \<open>storage.go\<close>, and any two of
  different connections may be interleaved.
\<close>

section \<open>The shared disk\<close>

record disk_writer =
  dw_key :: string
  dw_inode :: nat
  dw_data :: bytes
  dw_checked :: bool

record disk_reader =
  dr_key :: string
  dr_inode :: nat
  dr_len :: nat
  dr_sent :: bytes

record disk =
  names :: "string \<rightharpoonup> nat"
  blocks :: "nat \<Rightarrow> bytes"
  fresh :: nat
  writers :: "nat \<rightharpoonup> disk_writer"
  readers :: "nat \<rightharpoonup> disk_reader"

definition empty_disk :: disk where
  "empty_disk = \<lparr>names = Map.empty, blocks = (\<lambda>i. []), fresh = 0, writers = Map.empty, readers = Map.empty\<rparr>"

definition tmp_path :: "FileStorage \<Rightarrow> string \<Rightarrow> go_error + string" where
  "tmp_path f key =
     (case getFilePath f key of
        Inl e \<Rightarrow> Inl (wrap ''failed getting file path'' e)
      | Inr p \<Rightarrow> Inr (GetFilePath (p\<lparr>basePath := storage_root @ basePath p, fileName := fileName p @ ''.tmp''\<rparr>)))"

definition read_path :: "FileStorage \<Rightarrow> string \<Rightarrow> go_error + string" where
  "read_path f key =
     (case getFilePath f key of
        Inl e \<Rightarrow> Inl (wrap ''failed getting file path for key'' e)
      | Inr p \<Rightarrow> Inr ((storage_root @ basePath p) @ ''/'' @ fileName p))"

text \<open>
  A write's steps. The result \<^const>\<open>None\<close> means that the step is not enabled; a write that ends
  in an error leaves the table of writers, and its temporary file stays.
\<close>

definition disk_create :: "FileStorage \<Rightarrow> nat \<Rightarrow> string \<Rightarrow> disk \<Rightarrow> disk option" where
  "disk_create f w key s =
     (case tmp_path f key of
        Inl e \<Rightarrow> None
      | Inr p \<Rightarrow>
          if writers s w \<noteq> None then None
          else case names s p of
                 Some i \<Rightarrow> Some (s\<lparr>blocks := (blocks s)(i := []),
                                 writers := (writers s)(w \<mapsto> \<lparr>dw_key = key, dw_inode = i, dw_data = [], dw_checked = False\<rparr>)\<rparr>)
               | None \<Rightarrow> let i = fresh s in
                         Some (s\<lparr>names := (names s)(p \<mapsto> i), blocks := (blocks s)(i := []), fresh := Suc i,
                                 writers := (writers s)(w \<mapsto> \<lparr>dw_key = key, dw_inode = i, dw_data = [], dw_checked = False\<rparr>)\<rparr>))"

definition handle_write :: "disk_writer \<Rightarrow> bytes \<Rightarrow> bytes \<Rightarrow> bytes" where
  "handle_write x b d = (if b = [] then d else write_at (length (dw_data x)) b d)"

definition disk_copy :: "nat \<Rightarrow> bytes \<Rightarrow> disk \<Rightarrow> disk option" where
  "disk_copy w b s =
     (case writers s w of
        None \<Rightarrow> None
      | Some x \<Rightarrow>
          if dw_checked x then None
          else Some (s\<lparr>blocks := (blocks s)(dw_inode x := handle_write x b (blocks s (dw_inode x))),
                       writers := (writers s)(w \<mapsto> x\<lparr>dw_data := dw_data x @ b\<rparr>)\<rparr>))"

text \<open>
  The connection is lost, or the disk takes only the part \<open>b\<close> of a block, or the rename fails.
\<close>

definition disk_abort :: "nat \<Rightarrow> bytes \<Rightarrow> disk \<Rightarrow> disk option" where
  "disk_abort w b s =
     (case writers s w of
        None \<Rightarrow> None
      | Some x \<Rightarrow>
          if dw_checked x \<and> b \<noteq> [] then None
          else Some (s\<lparr>blocks := (blocks s)(dw_inode x := handle_write x b (blocks s (dw_inode x))),
                       writers := (writers s)(w := None)\<rparr>))"

definition disk_verify :: "FileStorage \<Rightarrow> nat \<Rightarrow> disk \<Rightarrow> disk option" where
  "disk_verify f w s =
     (case writers s w of
        None \<Rightarrow> None
      | Some x \<Rightarrow>
          if dw_checked x then None
          else if verifyCheckSum (dw_key x) (storage_hasher f (dw_data x))
               then Some (s\<lparr>writers := (writers s)(w \<mapsto> x\<lparr>dw_checked := True\<rparr>)\<rparr>)
               else Some (s\<lparr>writers := (writers s)(w := None)\<rparr>))"

definition disk_rename :: "FileStorage \<Rightarrow> nat \<Rightarrow> disk \<Rightarrow> disk option" where
  "disk_rename f w s =
     (case writers s w of
        None \<Rightarrow> None
      | Some x \<Rightarrow>
          (case tmp_path f (dw_key x) of
             Inl e \<Rightarrow> None
           | Inr p \<Rightarrow>
               let s1 = s\<lparr>writers := (writers s)(w := None)\<rparr>;
                   new = take (nat (LastIndex p CHR ''.'')) p
               in if \<not> dw_checked x then None
                  else case names s p of
                         None \<Rightarrow> Some s1
                       | Some i \<Rightarrow> Some (s1\<lparr>names := (names s)(p := None, new \<mapsto> i)\<rparr>)))"

text \<open>A read's steps: the file is opened and measured, then sent in blocks from the handle.\<close>

definition disk_open :: "FileStorage \<Rightarrow> nat \<Rightarrow> string \<Rightarrow> disk \<Rightarrow> disk option" where
  "disk_open f r key s =
     (case read_path f key of
        Inl e \<Rightarrow> None
      | Inr p \<Rightarrow>
          (case names s p of
             None \<Rightarrow> None
           | Some i \<Rightarrow>
               if readers s r \<noteq> None then None
               else Some (s\<lparr>readers := (readers s)(r \<mapsto> \<lparr>dr_key = key, dr_inode = i,
                              dr_len = length (blocks s i), dr_sent = []\<rparr>)\<rparr>)))"

definition disk_send :: "nat \<Rightarrow> nat \<Rightarrow> disk \<Rightarrow> disk option" where
  "disk_send r n s =
     (case readers s r of
        None \<Rightarrow> None
      | Some x \<Rightarrow>
          let k = length (dr_sent x); b = take (min n (dr_len x - k)) (drop k (blocks s (dr_inode x)))
          in Some (s\<lparr>readers := (readers s)(r \<mapsto> x\<lparr>dr_sent := dr_sent x @ b\<rparr>)\<rparr>))"

definition disk_close :: "nat \<Rightarrow> disk \<Rightarrow> disk option" where
  "disk_close r s = (case readers s r of None \<Rightarrow> None | Some x \<Rightarrow> Some (s\<lparr>readers := (readers s)(r := None)\<rparr>))"

inductive disk_step :: "FileStorage \<Rightarrow> disk \<Rightarrow> disk \<Rightarrow> bool" for f where
  Create: "disk_create f w key s = Some s' \<Longrightarrow> disk_step f s s'"
| Copy: "disk_copy w b s = Some s' \<Longrightarrow> disk_step f s s'"
| Abort: "disk_abort w b s = Some s' \<Longrightarrow> disk_step f s s'"
| Verify: "disk_verify f w s = Some s' \<Longrightarrow> disk_step f s s'"
| Rename: "disk_rename f w s = Some s' \<Longrightarrow> disk_step f s s'"
| Open: "disk_open f r key s = Some s' \<Longrightarrow> disk_step f s s'"
| Send: "disk_send r n s = Some s' \<Longrightarrow> disk_step f s s'"
| Close: "disk_close r s = Some s' \<Longrightarrow> disk_step f s s'"

text \<open>
  The runs in which the ids being written at a time are distinct (and, as hashes, have no dot);
  nothing in the server enforces it.
\<close>

definition writers_apart :: "disk \<Rightarrow> bool" where
  "writers_apart s \<longleftrightarrow>
     (\<forall>w x. writers s w = Some x \<longrightarrow> CHR ''.'' \<notin> set (dw_key x)) \<and>
     (\<forall>w w' x y. writers s w = Some x \<longrightarrow> writers s w' = Some y \<longrightarrow> dw_key x = dw_key y \<longrightarrow> w = w')"

inductive apart_runs :: "FileStorage \<Rightarrow> disk \<Rightarrow> disk \<Rightarrow> bool" for f where
  refl: "apart_runs f s s"
| step: "apart_runs f s s' \<Longrightarrow> disk_step f s' s'' \<Longrightarrow> writers_apart s'' \<Longrightarrow> apart_runs f s s''"

section \<open>The invariant\<close>

text \<open>
  Names point to distinct inodes; a write in progress owns the inode of its temporary name,
  which holds what it has hashed; no reader is on such an inode; a published file hashes to its
  id.
\<close>

definition disk_wf :: "disk \<Rightarrow> bool" where
  "disk_wf s \<longleftrightarrow>
     (\<forall>p i. names s p = Some i \<longrightarrow> i < fresh s) \<and>
     (\<forall>p p' i. names s p = Some i \<longrightarrow> names s p' = Some i \<longrightarrow> p = p')"

definition disk_writers_ok :: "nat \<Rightarrow> (bytes \<Rightarrow> string) \<Rightarrow> disk \<Rightarrow> bool" where
  "disk_writers_ok d h s \<longleftrightarrow>
     (\<forall>w x. writers s w = Some x \<longrightarrow>
        names s (chunk_path d (dw_key x) @ ''.tmp'') = Some (dw_inode x) \<and>
        blocks s (dw_inode x) = dw_data x \<and> (dw_checked x \<longrightarrow> h (dw_data x) = dw_key x))"

definition disk_readers_ok :: "nat \<Rightarrow> (bytes \<Rightarrow> string) \<Rightarrow> disk \<Rightarrow> bool" where
  "disk_readers_ok d h s \<longleftrightarrow>
     (\<forall>r x. readers s r = Some x \<longrightarrow> CHR ''.'' \<notin> set (dr_key x) \<longrightarrow>
        dr_inode x < fresh s \<and> (\<forall>p. names s (p @ ''.tmp'') \<noteq> Some (dr_inode x)) \<and>
        h (blocks s (dr_inode x)) = dr_key x \<and> dr_len x = length (blocks s (dr_inode x)) \<and>
        dr_sent x = take (length (dr_sent x)) (blocks s (dr_inode x)))"

definition disk_addressed :: "nat \<Rightarrow> (bytes \<Rightarrow> string) \<Rightarrow> disk \<Rightarrow> bool" where
  "disk_addressed d h s \<longleftrightarrow>
     (\<forall>k i. CHR ''.'' \<notin> set k \<longrightarrow> names s (chunk_path d k) = Some i \<longrightarrow> h (blocks s i) = k)"

definition disk_inv :: "nat \<Rightarrow> (bytes \<Rightarrow> string) \<Rightarrow> disk \<Rightarrow> bool" where
  "disk_inv d h s \<longleftrightarrow> disk_wf s \<and> writers_apart s \<and> disk_writers_ok d h s \<and> disk_readers_ok d h s \<and> disk_addressed d h s"

lemmas disk_parts = disk_wf_def writers_apart_def disk_writers_ok_def disk_readers_ok_def disk_addressed_def

lemma handle_write_end [simp]: "handle_write x b (dw_data x) = dw_data x @ b"
  by (simp add: handle_write_def)

lemma tmp_path_eq [simp]:
  "tmp_path (NewFileStorage DefaultPathTransform (int d) h) k = Inr (chunk_path d k @ ''.tmp'')"
  by (simp add: tmp_path_def getFilePath_def NewFileStorage_def DefaultPathTransform_eq GetFilePath_def chunk_path_def)

lemma read_path_eq [simp]:
  "read_path (NewFileStorage DefaultPathTransform (int d) h) k = Inr (chunk_path d k)"
  by (simp add: read_path_def getFilePath_def NewFileStorage_def DefaultPathTransform_eq chunk_path_def)

lemma tmp_suffix_cut [simp]: "take (nat (LastIndex (p @ ''.tmp'') CHR ''.'')) (p @ ''.tmp'') = p"
  using LastIndex_append [of "CHR ''.''" "''tmp''" p] by simp

section \<open>Every step keeps the invariant\<close>

text \<open>A step on the inode of a temporary name leaves every published file and every reader alone.\<close>

lemma disk_tmp_write:
  assumes "disk_wf s" "disk_readers_ok d h s" "disk_addressed d h s" "names s (p @ ''.tmp'') = Some i"
  shows "disk_readers_ok d h (s\<lparr>blocks := (blocks s)(i := b), writers := ws\<rparr>)"
    "disk_addressed d h (s\<lparr>blocks := (blocks s)(i := b), writers := ws\<rparr>)"
proof -
  show "disk_readers_ok d h (s\<lparr>blocks := (blocks s)(i := b), writers := ws\<rparr>)"
    using assms(2,4) unfolding disk_readers_ok_def by fastforce
  show "disk_addressed d h (s\<lparr>blocks := (blocks s)(i := b), writers := ws\<rparr>)"
    using assms(1,3,4) chunk_path_neq_tmp unfolding disk_addressed_def disk_wf_def by fastforce
qed

lemma disk_inv_parts:
  assumes "disk_inv d h s"
  shows "disk_wf s" "writers_apart s" "disk_writers_ok d h s" "disk_readers_ok d h s" "disk_addressed d h s"
  using assms by (simp_all add: disk_inv_def)

lemma writer_tmp:
  assumes "disk_inv d h s" "writers s w = Some x"
  shows "names s (chunk_path d (dw_key x) @ ''.tmp'') = Some (dw_inode x)" "blocks s (dw_inode x) = dw_data x"
    "dw_checked x \<Longrightarrow> h (dw_data x) = dw_key x" "CHR ''.'' \<notin> set (dw_key x)"
  using assms by (auto simp: disk_inv_def disk_writers_ok_def writers_apart_def)

text \<open>Two writes in progress are on different inodes.\<close>

lemma writer_inode_inj:
  assumes "disk_inv d h s" "writers s w = Some x" "writers s w' = Some y" "dw_inode y = dw_inode x"
  shows "w' = w"
proof -
  from assms(4) writer_tmp [OF assms(1,2)] writer_tmp [OF assms(1,3)] assms(1)
  have "chunk_path d (dw_key x) @ ''.tmp'' = chunk_path d (dw_key y) @ ''.tmp''"
    unfolding disk_inv_def disk_wf_def by metis
  then have "dw_key y = dw_key x" by simp
  with assms show ?thesis unfolding disk_inv_def writers_apart_def by blast
qed

lemma disk_copy_inv:
  assumes "disk_inv d h s" "disk_copy w b s = Some s'" "writers_apart s'"
  shows "disk_inv d h s'"
proof -
  from assms(2) obtain x where x: "writers s w = Some x" "\<not> dw_checked x"
    and s': "s' = s\<lparr>blocks := (blocks s)(dw_inode x := dw_data x @ b), writers := (writers s)(w \<mapsto> x\<lparr>dw_data := dw_data x @ b\<rparr>)\<rparr>"
    using writer_tmp(2) [OF assms(1)] by (auto simp: disk_copy_def split: option.splits if_splits)
  note p = disk_inv_parts [OF assms(1)] and t = writer_tmp [OF assms(1) x(1)]
  have "disk_writers_ok d h s'"
    using p(3) x t unfolding s' disk_writers_ok_def
    by (auto dest: writer_inode_inj [OF assms(1) x(1)])
  moreover have "disk_wf s'" using p(1) by (simp add: s' disk_wf_def)
  ultimately show ?thesis
    using disk_tmp_write [OF p(1,4,5) t(1)] assms(3) by (simp add: disk_inv_def s')
qed

lemma disk_abort_inv:
  assumes "disk_inv d h s" "disk_abort w b s = Some s'" "writers_apart s'"
  shows "disk_inv d h s'"
proof -
  from assms(2) obtain x where x: "writers s w = Some x"
    and s': "s' = s\<lparr>blocks := (blocks s)(dw_inode x := dw_data x @ b), writers := (writers s)(w := None)\<rparr>"
    using writer_tmp(2) [OF assms(1)] by (auto simp: disk_abort_def split: option.splits if_splits)
  note p = disk_inv_parts [OF assms(1)] and t = writer_tmp [OF assms(1) x(1)]
  have "disk_writers_ok d h s'"
    using p(3) x t unfolding s' disk_writers_ok_def
    by (auto dest: writer_inode_inj [OF assms(1) x])
  moreover have "disk_wf s'" using p(1) by (simp add: s' disk_wf_def)
  ultimately show ?thesis
    using disk_tmp_write [OF p(1,4,5) t(1)] assms(3) by (simp add: disk_inv_def s')
qed

lemma disk_verify_inv:
  assumes "disk_inv d h s" "disk_verify (NewFileStorage DefaultPathTransform (int d) h) w s = Some s'"
    "writers_apart s'"
  shows "disk_inv d h s'"
proof -
  from assms(2) obtain ws where s': "s' = s\<lparr>writers := ws\<rparr>"
    and ws: "\<And>v y. ws v = Some y \<Longrightarrow> \<exists>x. writers s v = Some x \<and> dw_key y = dw_key x \<and>
      dw_inode y = dw_inode x \<and> dw_data y = dw_data x \<and>
      (dw_checked y \<longrightarrow> dw_checked x \<or> h (dw_data x) = dw_key x)"
    by (fastforce simp: disk_verify_def verifyCheckSum_def NewFileStorage_def split: option.splits if_splits)
  note p = disk_inv_parts [OF assms(1)]
  have "disk_writers_ok d h s'"
    unfolding s' disk_writers_ok_def using writer_tmp [OF assms(1)] ws by fastforce
  with p assms(3) show ?thesis
    by (simp add: s' disk_inv_def disk_wf_def disk_readers_ok_def disk_addressed_def)
qed

lemma disk_create_cases:
  assumes "disk_create (NewFileStorage DefaultPathTransform (int d) h) w k s = Some s'"
  obtains (reuse) i where "names s (chunk_path d k @ ''.tmp'') = Some i" "writers s w = None"
      "s' = s\<lparr>blocks := (blocks s)(i := []),
              writers := (writers s)(w \<mapsto> \<lparr>dw_key = k, dw_inode = i, dw_data = [], dw_checked = False\<rparr>)\<rparr>"
    | (new) "names s (chunk_path d k @ ''.tmp'') = None" "writers s w = None"
      "s' = s\<lparr>names := (names s)(chunk_path d k @ ''.tmp'' \<mapsto> fresh s), blocks := (blocks s)(fresh s := []),
              fresh := Suc (fresh s),
              writers := (writers s)(w \<mapsto> \<lparr>dw_key = k, dw_inode = fresh s, dw_data = [], dw_checked = False\<rparr>)\<rparr>"
  using assms by (auto simp: disk_create_def Let_def split: option.splits if_splits)

lemma new_writer_apart:
  assumes "writers_apart s'" "writers s' = (writers s)(w \<mapsto> y)" "writers s w = None" "writers s v = Some x"
  shows "dw_key x \<noteq> dw_key y"
proof
  assume "dw_key x = dw_key y"
  moreover from assms(3,4) have "v \<noteq> w" by auto
  with assms(2,4) have "writers s' v = Some x" "writers s' w = Some y" by simp_all
  ultimately show False using assms(1) \<open>v \<noteq> w\<close> unfolding writers_apart_def by blast
qed

lemma disk_create_inv:
  assumes inv: "disk_inv d h s" and c: "disk_create (NewFileStorage DefaultPathTransform (int d) h) w k s = Some s'"
    and ap: "writers_apart s'"
  shows "disk_inv d h s'"
  using c
proof (cases rule: disk_create_cases)
  case (reuse i)
  note p = disk_inv_parts [OF inv]
  have "dw_key x \<noteq> k" "dw_inode x \<noteq> i" if x: "writers s v = Some x" for v x
  proof -
    from reuse(3) have "writers s' = (writers s)(w \<mapsto> \<lparr>dw_key = k, dw_inode = i, dw_data = [], dw_checked = False\<rparr>)"
      by simp
    from new_writer_apart [OF ap this reuse(2) x] show k: "dw_key x \<noteq> k" by simp
    show "dw_inode x \<noteq> i"
    proof
      assume "dw_inode x = i"
      with writer_tmp(1) [OF inv x] reuse(1) p(1)
      have "chunk_path d (dw_key x) @ ''.tmp'' = chunk_path d k @ ''.tmp''" unfolding disk_wf_def by blast
      with k show False by simp
    qed
  qed
  with p(3) reuse have "disk_writers_ok d h s'" unfolding disk_writers_ok_def by auto
  moreover have "disk_wf s'" using p(1) reuse by (simp add: disk_wf_def)
  ultimately show ?thesis
    using disk_tmp_write [OF p(1,4,5) reuse(1)] ap by (simp add: disk_inv_def reuse(3))
next
  case new
  note p = disk_inv_parts [OF inv]
  have lt: "dw_inode x < fresh s" "dw_key x \<noteq> k" if "writers s v = Some x" for v x
  proof -
    from writer_tmp(1) [OF inv that] p(1) show "dw_inode x < fresh s" unfolding disk_wf_def by blast
    show "dw_key x \<noteq> k" using writer_tmp(1) [OF inv that] new(1) by auto
  qed
  have "disk_wf s'"
    using p(1) unfolding disk_wf_def new(3) by (auto simp: less_Suc_eq split: if_splits)
  moreover have "disk_writers_ok d h s'"
    using p(3) unfolding disk_writers_ok_def new(3) by (auto split: if_splits dest: lt)
  moreover have "dr_inode x < fresh s" if "readers s r = Some x" "CHR ''.'' \<notin> set (dr_key x)" for r x
    using p(4) that unfolding disk_readers_ok_def by blast
  then have "disk_readers_ok d h s'"
    using p(4) unfolding disk_readers_ok_def new(3) by (fastforce split: if_splits)
  moreover have "disk_addressed d h s'"
    unfolding disk_addressed_def
  proof (intro allI impI)
    fix k' i assume k': "CHR ''.'' \<notin> set k'" "names s' (chunk_path d k') = Some i"
    then have "names s (chunk_path d k') = Some i" using chunk_path_neq_tmp by (simp add: new(3))
    with k'(1) p(1,5) show "h (blocks s' i) = k'" unfolding disk_wf_def disk_addressed_def new(3) by auto
  qed
  ultimately show ?thesis using ap by (simp add: disk_inv_def)
qed

text \<open>
  The rename publishes the writer's own inode, because the temporary name still points to it.
\<close>

lemma disk_rename_cases:
  assumes "disk_inv d h s" "disk_rename (NewFileStorage DefaultPathTransform (int d) h) w s = Some s'"
  obtains x where "writers s w = Some x" "h (dw_data x) = dw_key x"
    "s' = s\<lparr>names := (names s)(chunk_path d (dw_key x) @ ''.tmp'' := None, chunk_path d (dw_key x) \<mapsto> dw_inode x),
            writers := (writers s)(w := None)\<rparr>"
  using assms writer_tmp [OF assms(1)]
  by (auto simp: disk_rename_def Let_def simp del: take_append split: option.splits if_splits)

lemma disk_rename_inv:
  assumes inv: "disk_inv d h s" and r: "disk_rename (NewFileStorage DefaultPathTransform (int d) h) w s = Some s'"
    and ap: "writers_apart s'"
  shows "disk_inv d h s'"
proof -
  from disk_rename_cases [OF inv r] obtain x where x: "writers s w = Some x" "h (dw_data x) = dw_key x"
    and s': "s' = s\<lparr>names := (names s)(chunk_path d (dw_key x) @ ''.tmp'' := None, chunk_path d (dw_key x) \<mapsto> dw_inode x),
                    writers := (writers s)(w := None)\<rparr>" .
  let ?p = "chunk_path d (dw_key x)"
  note p = disk_inv_parts [OF inv] and t = writer_tmp [OF inv x(1)]
  have final: "?p \<noteq> q @ ''.tmp''" "q @ ''.tmp'' \<noteq> ?p" for q using chunk_path_neq_tmp [OF t(4), of d q] by auto
  have keys: "dw_key y \<noteq> dw_key x" if "writers s v = Some y" "v \<noteq> w" for v y
    using p(2) that x(1) unfolding writers_apart_def by blast
  have "disk_wf s'"
    using p(1) t(1) unfolding disk_wf_def s' by (auto split: if_splits)
  moreover have "disk_writers_ok d h s'"
    using p(3) final unfolding disk_writers_ok_def s' by (auto split: if_splits dest: keys)
  moreover have "disk_readers_ok d h s'"
    using p(4) final unfolding disk_readers_ok_def s' by auto
  moreover have "disk_addressed d h s'"
    unfolding disk_addressed_def
  proof (intro allI impI)
    fix k' i assume k': "CHR ''.'' \<notin> set k'" "names s' (chunk_path d k') = Some i"
    show "h (blocks s' i) = k'"
    proof (cases "k' = dw_key x")
      case True
      with k'(2) t(2) x(2) show ?thesis by (simp add: s')
    next
      case False
      with k' chunk_path_neq_tmp [OF k'(1)] have "names s (chunk_path d k') = Some i" by (simp add: s')
      with k'(1) p(5) show ?thesis unfolding disk_addressed_def s' by simp
    qed
  qed
  ultimately show ?thesis using ap by (simp add: disk_inv_def)
qed

lemma disk_open_inv:
  assumes "disk_inv d h s" "disk_open (NewFileStorage DefaultPathTransform (int d) h) r k s = Some s'"
  shows "disk_inv d h s'"
proof -
  note p = disk_inv_parts [OF assms(1)]
  from assms(2) obtain i where i: "names s (chunk_path d k) = Some i"
    and s': "s' = s\<lparr>readers := (readers s)(r \<mapsto> \<lparr>dr_key = k, dr_inode = i, dr_len = length (blocks s i), dr_sent = []\<rparr>)\<rparr>"
    by (auto simp: disk_open_def split: option.splits if_splits)
  have "i < fresh s" "CHR ''.'' \<notin> set k \<Longrightarrow> h (blocks s i) = k"
    using i p(1,5) unfolding disk_wf_def disk_addressed_def by blast+
  moreover have "names s (q @ ''.tmp'') \<noteq> Some i" if "CHR ''.'' \<notin> set k" for q
    using chunk_path_neq_tmp [OF that, of d q] i p(1) unfolding disk_wf_def by metis
  ultimately have "disk_readers_ok d h s'"
    using p(4) unfolding disk_readers_ok_def s' by auto
  with p show ?thesis
    by (simp add: disk_inv_def s' disk_wf_def writers_apart_def disk_writers_ok_def disk_addressed_def)
qed

lemma disk_send_inv:
  assumes "disk_inv d h s" "disk_send r n s = Some s'"
  shows "disk_inv d h s'"
proof -
  note p = disk_inv_parts [OF assms(1)]
  from assms(2) obtain x where x: "readers s r = Some x"
    and s': "s' = s\<lparr>readers := (readers s)(r \<mapsto> x\<lparr>dr_sent := dr_sent x @
        take (min n (dr_len x - length (dr_sent x))) (drop (length (dr_sent x)) (blocks s (dr_inode x)))\<rparr>)\<rparr>"
    by (auto simp: disk_send_def Let_def split: option.splits)
  have more: "take l b @ take m (drop l b) = take (length (take l b @ take m (drop l b))) b" for l m and b :: bytes
    by (metis length_take take_add take_take min.idem take_all_iff append_take_drop_id length_append linorder_linear)
  have "disk_readers_ok d h s'"
    unfolding disk_readers_ok_def
  proof (intro allI impI)
    fix v y assume y: "readers s' v = Some y" "CHR ''.'' \<notin> set (dr_key y)"
    show "dr_inode y < fresh s' \<and> (\<forall>p. names s' (p @ ''.tmp'') \<noteq> Some (dr_inode y)) \<and>
        h (blocks s' (dr_inode y)) = dr_key y \<and> dr_len y = length (blocks s' (dr_inode y)) \<and>
        dr_sent y = take (length (dr_sent y)) (blocks s' (dr_inode y))"
    proof (cases "v = r")
      case False
      with y p(4) show ?thesis unfolding disk_readers_ok_def s' by simp
    next
      case True
      with y x have yx: "y = x\<lparr>dr_sent := dr_sent x @
          take (min n (dr_len x - length (dr_sent x))) (drop (length (dr_sent x)) (blocks s (dr_inode x)))\<rparr>"
        by (simp add: s')
      with y(2) x p(4) have ok: "dr_inode x < fresh s \<and> (\<forall>p. names s (p @ ''.tmp'') \<noteq> Some (dr_inode x)) \<and>
        h (blocks s (dr_inode x)) = dr_key x \<and> dr_len x = length (blocks s (dr_inode x)) \<and>
        dr_sent x = take (length (dr_sent x)) (blocks s (dr_inode x))"
        unfolding disk_readers_ok_def by simp
      then have "dr_sent y = take (length (dr_sent y)) (blocks s (dr_inode x))"
        using more [of "length (dr_sent x)" "blocks s (dr_inode x)"] yx by simp
      with ok show ?thesis unfolding yx by (simp add: s')
    qed
  qed
  with p show ?thesis
    by (simp add: disk_inv_def s' disk_wf_def writers_apart_def disk_writers_ok_def disk_addressed_def)
qed

lemma disk_close_inv: "disk_inv d h s \<Longrightarrow> disk_close r s = Some s' \<Longrightarrow> disk_inv d h s'"
  by (auto simp: disk_close_def disk_inv_def disk_parts split: option.splits if_splits)

lemma disk_step_inv:
  assumes "disk_step (NewFileStorage DefaultPathTransform (int d) h) s s'" "disk_inv d h s" "writers_apart s'"
  shows "disk_inv d h s'"
  using assms
  by cases (blast intro: disk_create_inv disk_copy_inv disk_abort_inv disk_verify_inv disk_rename_inv
      disk_open_inv disk_send_inv disk_close_inv)+

lemma apart_runs_inv:
  "apart_runs (NewFileStorage DefaultPathTransform (int d) h) s s' \<Longrightarrow> disk_inv d h s \<Longrightarrow> disk_inv d h s'"
  by (induction rule: apart_runs.induct) (auto intro: disk_step_inv)

section \<open>A write without interleaving\<close>

text \<open>
  The contents that the names of a disk show, against the file system of the sequential model,
  and the steps of one write back to back.
\<close>

definition disk_data :: "disk \<Rightarrow> string \<Rightarrow> bytes option" where
  "disk_data s x = map_option (blocks s) (names s x)"

definition fs_file :: "fs \<Rightarrow> string \<Rightarrow> bytes option" where
  "fs_file f x = (case fs_node f x of Some (File b y) \<Rightarrow> Some b | _ \<Rightarrow> None)"

abbreviation disk_steps :: "FileStorage \<Rightarrow> disk \<Rightarrow> disk \<Rightarrow> bool" where
  "disk_steps f \<equiv> (disk_step f)\<^sup>*\<^sup>*"

lemma disk_create_data:
  assumes "disk_wf s" "writers s w = None"
  obtains s1 i where "disk_create (NewFileStorage DefaultPathTransform (int d) h) w k s = Some s1"
    "disk_data s1 = (disk_data s)(chunk_path d k @ ''.tmp'' \<mapsto> [])" "disk_wf s1" "blocks s1 i = []"
    "names s1 (chunk_path d k @ ''.tmp'') = Some i"
    "writers s1 = (writers s)(w \<mapsto> \<lparr>dw_key = k, dw_inode = i, dw_data = [], dw_checked = False\<rparr>)"
proof -
  obtain s1 where c: "disk_create (NewFileStorage DefaultPathTransform (int d) h) w k s = Some s1"
    using assms(2) by (cases "names s (chunk_path d k @ ''.tmp'')") (simp_all add: disk_create_def Let_def)
  from c show ?thesis
  proof (cases rule: disk_create_cases)
    case (reuse i)
    with assms have "disk_data s1 = (disk_data s)(chunk_path d k @ ''.tmp'' \<mapsto> [])"
      by (auto simp: disk_data_def disk_wf_def fun_eq_iff map_option_case split: option.splits)
    with c reuse assms show ?thesis by (intro that [of s1 i]) (simp_all add: disk_wf_def)
  next
    case new
    with assms have "disk_data s1 = (disk_data s)(chunk_path d k @ ''.tmp'' \<mapsto> [])"
      by (auto simp: disk_data_def disk_wf_def fun_eq_iff map_option_case split: option.splits)
    moreover have "disk_wf s1"
      using new assms(1) unfolding disk_wf_def new(3) by (auto simp: less_Suc_eq split: if_splits)
    ultimately show ?thesis using c new by (intro that [of s1 "fresh s"]) simp_all
  qed
qed

lemma disk_write_data:
  assumes "disk_wf s" "names s p = Some i" "blocks s i = dw_data x" "dw_inode x = i"
  shows "disk_data (s\<lparr>blocks := (blocks s)(dw_inode x := handle_write x b (blocks s (dw_inode x))), writers := ws\<rparr>) =
    (disk_data s)(p \<mapsto> dw_data x @ b)"
  using assms by (auto simp: disk_data_def disk_wf_def fun_eq_iff map_option_case split: option.splits)

text \<open>Cutting a write short after \<open>b\<close> leaves \<open>b\<close> in the temporary file and nothing else.\<close>

lemma disk_write_cut:
  assumes "disk_wf s" "writers s w = None"
  shows "\<exists>s'. disk_steps (NewFileStorage DefaultPathTransform (int d) h) s s' \<and> writers s' = writers s \<and>
    disk_data s' = (disk_data s)(chunk_path d k @ ''.tmp'' \<mapsto> b)"
proof -
  let ?F = "NewFileStorage DefaultPathTransform (int d) h" and ?t = "chunk_path d k @ ''.tmp''"
  from disk_create_data [OF assms] obtain s1 i where s1: "disk_create ?F w k s = Some s1"
    "disk_data s1 = (disk_data s)(?t \<mapsto> [])" "disk_wf s1" "blocks s1 i = []" "names s1 ?t = Some i"
    "writers s1 = (writers s)(w \<mapsto> \<lparr>dw_key = k, dw_inode = i, dw_data = [], dw_checked = False\<rparr>)" .
  let ?x = "\<lparr>dw_key = k, dw_inode = i, dw_data = [], dw_checked = False\<rparr>"
  let ?s2 = "s1\<lparr>blocks := (blocks s1)(dw_inode ?x := handle_write ?x b (blocks s1 (dw_inode ?x))),
                writers := (writers s1)(w := None)\<rparr>"
  have "disk_abort w b s1 = Some ?s2" using s1(6) by (simp add: disk_abort_def)
  then have "disk_steps ?F s ?s2"
    using disk_step.Create [OF s1(1)] disk_step.Abort by (meson converse_rtranclp_into_rtranclp rtranclp.rtrancl_refl)
  moreover have "disk_data ?s2 = (disk_data s)(?t \<mapsto> b)"
    using disk_write_data [OF s1(3,5), of ?x] s1(2,4) by simp
  moreover have "writers ?s2 = writers s" using s1(6) assms(2) by auto
  ultimately show ?thesis by blast
qed

text \<open>A write that passes the check and is renamed.\<close>

lemma disk_write_whole:
  assumes "disk_wf s" "writers s w = None" "h b = k"
  shows "\<exists>s1. disk_steps (NewFileStorage DefaultPathTransform (int d) h) s s1 \<and>
    disk_data s1 = (disk_data s)(chunk_path d k @ ''.tmp'' \<mapsto> b) \<and> disk_wf s1 \<and>
    (\<exists>i. names s1 (chunk_path d k @ ''.tmp'') = Some i \<and>
      writers s1 = (writers s)(w \<mapsto> \<lparr>dw_key = k, dw_inode = i, dw_data = b, dw_checked = True\<rparr>))"
proof -
  let ?F = "NewFileStorage DefaultPathTransform (int d) h" and ?t = "chunk_path d k @ ''.tmp''"
  from disk_create_data [OF assms(1,2)] obtain s1 i where s1: "disk_create ?F w k s = Some s1"
    "disk_data s1 = (disk_data s)(?t \<mapsto> [])" "disk_wf s1" "blocks s1 i = []" "names s1 ?t = Some i"
    "writers s1 = (writers s)(w \<mapsto> \<lparr>dw_key = k, dw_inode = i, dw_data = [], dw_checked = False\<rparr>)" .
  let ?x = "\<lparr>dw_key = k, dw_inode = i, dw_data = [], dw_checked = False\<rparr>"
  let ?s2 = "s1\<lparr>blocks := (blocks s1)(dw_inode ?x := handle_write ?x b (blocks s1 (dw_inode ?x))),
                writers := (writers s1)(w \<mapsto> ?x\<lparr>dw_data := b\<rparr>)\<rparr>"
  let ?s3 = "?s2\<lparr>writers := (writers s)(w \<mapsto> ?x\<lparr>dw_data := b, dw_checked := True\<rparr>)\<rparr>"
  have "disk_copy w b s1 = Some ?s2" "disk_verify ?F w ?s2 = Some ?s3"
    using s1(6) assms(3) by (simp_all add: disk_copy_def disk_verify_def verifyCheckSum_def NewFileStorage_def)
  with s1(1) have "disk_steps ?F s ?s3"
    by (meson disk_step.Create disk_step.Copy disk_step.Verify converse_rtranclp_into_rtranclp rtranclp.rtrancl_refl)
  moreover have "disk_data ?s3 = (disk_data s)(?t \<mapsto> b)"
    using disk_write_data [OF s1(3,5), of ?x] s1(2,4) by (simp add: disk_data_def)
  moreover have "disk_wf ?s3" using s1(3) by (simp add: disk_wf_def)
  moreover have "names ?s3 ?t = Some i" using s1(5) by simp
  moreover have "writers ?s3 = (writers s)(w \<mapsto> \<lparr>dw_key = k, dw_inode = i, dw_data = b, dw_checked = True\<rparr>)" by simp
  ultimately show ?thesis by blast
qed

text \<open>What the sequential write leaves in the temporary file, whatever its outcome.\<close>

lemma FS_Write_file:
  assumes "FS_Write (NewFileStorage DefaultPathTransform (int d) h) k data f = (r, f')"
  shows "(fs_file f' = fs_file f \<and> (\<forall>m. r \<noteq> Inr m)) \<or>
    (\<exists>b. fs_file f' = (fs_file f)(chunk_path d k @ ''.tmp'' \<mapsto> b) \<and> (\<forall>m. r = Inr m \<longrightarrow> b = data))"
proof -
  let ?t = "chunk_path d k @ ''.tmp''" and ?F = "NewFileStorage DefaultPathTransform (int d) h"
  note c = FS_Write_cases [OF assms]
  have g: "getFilePath ?F k = Inr \<lparr>fileName = k, basePath = path_base d k\<rparr>"
    by (simp add: getFilePath_def NewFileStorage_def DefaultPathTransform_eq)
  have p: "GetFilePath \<lparr>fileName = k @ ''.tmp'', basePath = storage_root @ path_base d k\<rparr> = ?t"
    by (simp add: GetFilePath_def chunk_path_def)
  have rest: "fs_file f' x = fs_file f x" if "x \<noteq> ?t" for x using c that by (simp add: fs_file_def)
  have tmp: "(f' = f \<and> (\<forall>m. r \<noteq> Inr m)) \<or> is_file f' ?t"
  proof (cases "faults f OpMkdirAll (storage_root @ path_base d k) \<or> fst (fs_Create ?t f) \<noteq> None")
    case True
    with assms g p show ?thesis
      by (auto simp: FS_Write_def Let_def fs_Create_def split: if_splits)
  next
    case False
    then have cr: "fs_Create ?t f = (None, fs_put ?t (File [] []) f)" by (auto simp: fs_Create_def split: if_splits)
    let ?f1 = "fs_put ?t (File [] []) f"
    obtain e f2 where cp: "Copy (fs_Append ?t) data ?f1 = (e, f2)" by (cases "Copy (fs_Append ?t) data ?f1")
    have "is_file f2 ?t"
    proof (cases "data = []")
      case True
      with cp show ?thesis by (auto simp: Copy_def)
    next
      case ne: False
      with cp obtain n where "fs_Append ?t data ?f1 = (n, e, f2)"
        by (auto simp: Copy_def Let_def split: prod.splits)
      from fw.ok_wr [OF _ this] show ?thesis by simp
    qed
    moreover have "f' = f2" using assms g p cr cp False by (auto simp: FS_Write_def Let_def split: option.splits)
    ultimately show ?thesis by simp
  qed
  show ?thesis
  proof (cases "f' = f \<and> (\<forall>m. r \<noteq> Inr m)")
    case True
    then show ?thesis by simp
  next
    case False
    with tmp obtain b y where b: "fs_node f' ?t = Some (File b y)" by (auto simp: is_file_iff)
    with rest have "fs_file f' = (fs_file f)(?t \<mapsto> b)" by (auto simp: fs_file_def)
    moreover have "b = data" if "r = Inr m" for m using c b that by auto
    ultimately show ?thesis by blast
  qed
qed

lemma fs_Rename_file:
  "fs_Rename old new f = (None, f') \<Longrightarrow> old \<noteq> new \<Longrightarrow> fs_file f' = (fs_file f)(old := None, new := fs_file f old)"
  using fs_Rename_None [of old new f f'] by (auto simp: fs_file_def fun_eq_iff)

lemma disk_rename_data:
  assumes "writers s = W(w \<mapsto> \<lparr>dw_key = k, dw_inode = i, dw_data = b, dw_checked = True\<rparr>)" "W w = None"
    and "names s (chunk_path d k @ ''.tmp'') = Some j"
  shows "\<exists>s'. disk_step (NewFileStorage DefaultPathTransform (int d) h) s s' \<and> writers s' = W \<and>
    disk_data s' = (disk_data s)(chunk_path d k @ ''.tmp'' := None, chunk_path d k := disk_data s (chunk_path d k @ ''.tmp''))"
proof -
  let ?s' = "s\<lparr>writers := (writers s)(w := None), names := (names s)(chunk_path d k @ ''.tmp'' := None, chunk_path d k \<mapsto> j)\<rparr>"
  have "disk_rename (NewFileStorage DefaultPathTransform (int d) h) w s = Some ?s'"
    using assms(1,3) by (simp add: disk_rename_def Let_def del: take_append)
  note step = disk_step.Rename [OF this]
  have "writers ?s' = W" "disk_data ?s' =
      (disk_data s)(chunk_path d k @ ''.tmp'' := None, chunk_path d k := disk_data s (chunk_path d k @ ''.tmp''))"
    using assms by (auto simp: disk_data_def fun_eq_iff)
  with step show ?thesis by blast
qed

section \<open>Properties\<close>

text \<open>C10: the sequential handler is the uninterrupted run: whatever the request, the environment and the
  outcome, the disk can take steps that leave the same files and no writer of its own behind.\<close>

theorem chunk_write_is_a_run:
  assumes "ch_storage H = NewFileStorage DefaultPathTransform (int d) h"
    and "disk_wf s" "writers s w = None" "disk_data s = fs_file f"
    and "chunk_handleWrite H r f = (e, f')"
  shows "\<exists>s'. disk_steps (ch_storage H) s s' \<and> disk_data s' = fs_file f' \<and> writers s' = writers s"
  using assms(1,5)
proof (cases rule: chunk_handleWrite_cases)
  case rejected
  with assms(4) show ?thesis by blast
next
  case (hidden k data fr)
  from FS_Write_file [OF hidden] assms(1,4) disk_write_cut [OF assms(2,3), of d h k] show ?thesis
    by (metis rtranclp.rtrancl_refl)
next
  case (committed k data m f1)
  let ?F = "NewFileStorage DefaultPathTransform (int d) h"
  from FS_Write_cases [OF committed(1)] FS_Write_file [OF committed(1)] committed have hd: "h data = k"
    and rn: "fs_Rename (chunk_path d k @ ''.tmp'') (chunk_path d k) f1 = (None, f')"
    and f1: "fs_file f1 = (fs_file f)(chunk_path d k @ ''.tmp'' \<mapsto> data)"
    by (auto simp: RenameFile_tmp)
  from disk_write_whole [where h = h and d = d, OF assms(2,3) hd] obtain s1 i where s1: "disk_steps ?F s s1"
    "disk_data s1 = fs_file f1" "names s1 (chunk_path d k @ ''.tmp'') = Some i"
    "writers s1 = (writers s)(w \<mapsto> \<lparr>dw_key = k, dw_inode = i, dw_data = data, dw_checked = True\<rparr>)"
    using assms(4) f1 by auto
  from disk_rename_data [OF s1(4) assms(3) s1(3), of h] obtain s2 where s2: "disk_step ?F s1 s2"
    "writers s2 = writers s" "disk_data s2 = fs_file f'"
    using fs_Rename_file [OF rn] s1(2) by auto
  with rtranclp.rtrancl_into_rtrancl [OF s1(1) s2(1)] assms(1) show ?thesis by auto
qed

text \<open>C5: with any number of connections that write, fail, rename and read at the same time, as long
  as the ids being written are distinct, every published chunk whose id has no dot hashes to its id,
  and what a reader is sent is a prefix of such a chunk, the whole of it when the announced length
  is reached; paths are compared as strings.\<close>

theorem chunk_integrity_concurrent:
  assumes "disk_inv d h s" "apart_runs (NewFileStorage DefaultPathTransform (int d) h) s s'"
    and "CHR ''.'' \<notin> set k"
  shows "(\<forall>b. disk_data s' (chunk_path d k) = Some b \<longrightarrow> h b = k) \<and>
    (\<forall>r x. readers s' r = Some x \<longrightarrow> dr_key x = k \<longrightarrow>
       (\<exists>b. h b = k \<and> dr_len x = length b \<and> dr_sent x = take (length (dr_sent x)) b \<and>
          (length (dr_sent x) = dr_len x \<longrightarrow> dr_sent x = b)))"
proof -
  note p = disk_inv_parts [OF apart_runs_inv [OF assms(2,1)]]
  have "h b = k" if "disk_data s' (chunk_path d k) = Some b" for b
    using p(5) that assms(3) by (auto simp: disk_data_def disk_addressed_def)
  moreover have "\<exists>b. h b = k \<and> dr_len x = length b \<and> dr_sent x = take (length (dr_sent x)) b \<and>
          (length (dr_sent x) = dr_len x \<longrightarrow> dr_sent x = b)" if x: "readers s' r = Some x" "dr_key x = k" for r x
  proof -
    from p(4) x assms(3) have "h (blocks s' (dr_inode x)) = k" "dr_len x = length (blocks s' (dr_inode x))"
      "dr_sent x = take (length (dr_sent x)) (blocks s' (dr_inode x))"
      unfolding disk_readers_ok_def by auto
    then show ?thesis by (metis take_all order_refl)
  qed
  ultimately show ?thesis by blast
qed

text \<open>C23: two connections that write the same chunk. The second truncates the temporary file that the
  first has checked and is about to publish; when the second connection breaks, the chunk stays
  empty, even where the server had it before.\<close>

theorem same_chunk_overwritten:
  assumes "disk_wf s" "writers s 0 = None" "writers s 1 = None" "h data = k"
  shows "\<exists>s'. disk_steps (NewFileStorage DefaultPathTransform (int d) h) s s' \<and> writers s' = writers s \<and>
    disk_data s' (chunk_path d k) = Some []"
proof -
  let ?F = "NewFileStorage DefaultPathTransform (int d) h" and ?t = "chunk_path d k @ ''.tmp''"
  from disk_write_whole [where h = h and d = d, OF assms(1,2,4)] obtain s1 i where s1: "disk_steps ?F s s1" "disk_wf s1"
    "names s1 ?t = Some i"
    "writers s1 = (writers s)(0 \<mapsto> \<lparr>dw_key = k, dw_inode = i, dw_data = data, dw_checked = True\<rparr>)" by auto
  from s1(4) assms(3) have "writers s1 1 = None" by simp
  from disk_create_data [OF s1(2) this] obtain s2 j where s2: "disk_create ?F 1 k s1 = Some s2"
    "disk_data s2 = (disk_data s1)(?t \<mapsto> [])" "names s2 ?t = Some j"
    "writers s2 = (writers s1)(1 \<mapsto> \<lparr>dw_key = k, dw_inode = j, dw_data = [], dw_checked = False\<rparr>)" .
  let ?W = "(writers s)(1 \<mapsto> \<lparr>dw_key = k, dw_inode = j, dw_data = [], dw_checked = False\<rparr>)"
  have "writers s2 = ?W(0 \<mapsto> \<lparr>dw_key = k, dw_inode = i, dw_data = data, dw_checked = True\<rparr>)" "?W 0 = None"
    using s2(4) s1(4) assms(2) by (simp_all add: fun_eq_iff)
  from disk_rename_data [OF this s2(3), of h] obtain s3 where s3: "disk_step ?F s2 s3" "writers s3 = ?W"
    "disk_data s3 = (disk_data s2)(?t := None, chunk_path d k := disk_data s2 ?t)" by blast
  let ?s4 = "s3\<lparr>writers := (writers s3)(1 := None)\<rparr>"
  have "disk_abort 1 [] s3 = Some ?s4" using s3(2) by (simp add: disk_abort_def handle_write_def)
  then have "disk_steps ?F s ?s4"
    using s1(1) disk_step.Create [OF s2(1)] s3(1) disk_step.Abort by (meson rtranclp.rtrancl_into_rtrancl)
  moreover have "writers ?s4 = writers s" using s3(2) assms(3) by (simp add: fun_eq_iff)
  moreover have "disk_data ?s4 = disk_data s3" by (simp add: disk_data_def fun_eq_iff)
  then have "disk_data ?s4 (chunk_path d k) = Some []" using s3(3) s2(2) by simp
  ultimately show ?thesis by blast
qed

section \<open>Witnesses\<close>

lemma empty_disk_ok [simp]: "disk_inv d h empty_disk" "disk_wf empty_disk" "writers empty_disk = Map.empty"
  "disk_data empty_disk = Map.empty"
  by (simp_all add: empty_disk_def disk_inv_def disk_parts disk_data_def fun_eq_iff)

lemma chunk_write_is_a_run_witness:
  "\<exists>f' s'. chunk_handleWrite demo_chunk_server (req_payload sample_gob (Put demo_md [1, 2, 3])) empty_fs = (None, f') \<and>
     disk_steps (ch_storage demo_chunk_server) empty_disk s' \<and> disk_data s' = fs_file f' \<and>
     writers s' = writers empty_disk"
proof -
  have H: "ch_storage demo_chunk_server = NewFileStorage DefaultPathTransform (int 5) HashContent"
    by (simp add: demo_chunk_server_def NewChunkServer_def NewChunkHandler_def)
  from demo_requests have "req_ok sample_gob (Put demo_md [1, 2, 3])" by simp
  from chunk_handleWrite_refines [OF _ sample_gob_ok demo_store_rep this, of demo_chunk_server 5 HashContent]
  obtain f' where w: "chunk_handleWrite demo_chunk_server (req_payload sample_gob (Put demo_md [1, 2, 3])) empty_fs = (None, f')"
    by (auto simp: demo_chunk_server_def NewChunkServer_def demo_md_def simp del: req_payload.simps)
  have "disk_data empty_disk = fs_file empty_fs" by (simp add: fs_file_def fs_node_def empty_fs_def fun_eq_iff)
  from chunk_write_is_a_run [OF H _ _ this w, of 0] w show ?thesis by auto
qed

text \<open>Two connections write the chunks \<open>a\<close> and \<open>b\<close> in turns, and a third reads \<open>a\<close>.\<close>

definition demo_digest :: "bytes \<Rightarrow> string" where
  "demo_digest b = (if b = [1, 2] then ''a'' else ''b'')"

abbreviation demo_FS :: FileStorage where
  "demo_FS \<equiv> NewFileStorage DefaultPathTransform (int 5) demo_digest"

lemma demo_paths [simp]:
  "tmp_path (NewFileStorage DefaultPathTransform 5 demo_digest) k = Inr (chunk_path 5 k @ ''.tmp'')"
  "read_path (NewFileStorage DefaultPathTransform 5 demo_digest) k = Inr (chunk_path 5 k)"
  using tmp_path_eq [of 5 demo_digest k] read_path_eq [of 5 demo_digest k] by simp_all

definition demo_disk :: disk where
  "demo_disk = \<lparr>names = [chunk_path 5 ''a'' \<mapsto> 0, chunk_path 5 ''b'' @ ''.tmp'' \<mapsto> 1],
     blocks = (\<lambda>i. [])(0 := [1, 2], 1 := [7]), fresh = 2,
     writers = [1 \<mapsto> \<lparr>dw_key = ''b'', dw_inode = 1, dw_data = [7], dw_checked = False\<rparr>],
     readers = [0 \<mapsto> \<lparr>dr_key = ''a'', dr_inode = 0, dr_len = 2, dr_sent = [1]\<rparr>]\<rparr>"

lemma demo_disk_reached: "apart_runs demo_FS empty_disk demo_disk"
proof -
  let ?a = "chunk_path 5 ''a''" and ?b = "chunk_path 5 ''b''"
  let ?A = "\<lambda>b c. \<lparr>dw_key = ''a'', dw_inode = 0, dw_data = b, dw_checked = c\<rparr>"
  let ?B = "\<lambda>b. \<lparr>dw_key = ''b'', dw_inode = 1, dw_data = b, dw_checked = False\<rparr>"
  let ?D = "\<lambda>n b0 b1 f w. \<lparr>names = n, blocks = (\<lambda>i. [])(0 := b0, 1 := b1), fresh = f, writers = w, readers = Map.empty\<rparr>"
  let ?n1 = "[?a @ ''.tmp'' \<mapsto> 0]" and ?n2 = "[?a @ ''.tmp'' \<mapsto> 0, ?b @ ''.tmp'' \<mapsto> 1]"
  let ?n3 = "[?a \<mapsto> 0, ?b @ ''.tmp'' \<mapsto> 1]"
  have tmp: "?a \<noteq> p @ ''.tmp''" "p @ ''.tmp'' \<noteq> ?a" for p using chunk_path_neq_tmp [of "''a''" 5 p] by auto
  have ap: "writers_apart (?D n x y f [0 \<mapsto> ?A b c])" "writers_apart (?D n x y f [1 \<mapsto> ?B b])"
    "writers_apart (?D n x y f [0 \<mapsto> ?A b c, 1 \<mapsto> ?B b'])" for n x y f b b' c
    by (auto simp: writers_apart_def split: if_splits)
  have "disk_create demo_FS 0 ''a'' empty_disk = Some (?D ?n1 [] [] 1 [0 \<mapsto> ?A [] False])"
    by (simp add: disk_create_def empty_disk_def fun_eq_iff)
  from apart_runs.step [OF apart_runs.refl disk_step.Create [OF this] ap(1)]
  have r: "apart_runs demo_FS empty_disk (?D ?n1 [] [] 1 [0 \<mapsto> ?A [] False])" .
  have "disk_create demo_FS 1 ''b'' (?D ?n1 [] [] 1 [0 \<mapsto> ?A [] False]) =
      Some (?D ?n2 [] [] 2 [0 \<mapsto> ?A [] False, 1 \<mapsto> ?B []])"
    by (simp add: disk_create_def fun_eq_iff)
  note r = apart_runs.step [OF r disk_step.Create [OF this] ap(3)]
  have "disk_copy 0 [1, 2] (?D ?n2 [] [] 2 [0 \<mapsto> ?A [] False, 1 \<mapsto> ?B []]) =
      Some (?D ?n2 [1, 2] [] 2 [0 \<mapsto> ?A [1, 2] False, 1 \<mapsto> ?B []])"
    by (simp add: disk_copy_def handle_write_def fun_eq_iff)
  note r = apart_runs.step [OF r disk_step.Copy [OF this] ap(3)]
  have "disk_copy 1 [7] (?D ?n2 [1, 2] [] 2 [0 \<mapsto> ?A [1, 2] False, 1 \<mapsto> ?B []]) =
      Some (?D ?n2 [1, 2] [7] 2 [0 \<mapsto> ?A [1, 2] False, 1 \<mapsto> ?B [7]])"
    by (simp add: disk_copy_def handle_write_def fun_eq_iff)
  note r = apart_runs.step [OF r disk_step.Copy [OF this] ap(3)]
  have "disk_verify demo_FS 0 (?D ?n2 [1, 2] [7] 2 [0 \<mapsto> ?A [1, 2] False, 1 \<mapsto> ?B [7]]) =
      Some (?D ?n2 [1, 2] [7] 2 [0 \<mapsto> ?A [1, 2] True, 1 \<mapsto> ?B [7]])"
    by (simp add: disk_verify_def verifyCheckSum_def NewFileStorage_def demo_digest_def fun_eq_iff)
  note r = apart_runs.step [OF r disk_step.Verify [OF this] ap(3)]
  have "disk_rename demo_FS 0 (?D ?n2 [1, 2] [7] 2 [0 \<mapsto> ?A [1, 2] True, 1 \<mapsto> ?B [7]]) =
      Some (?D ?n3 [1, 2] [7] 2 [1 \<mapsto> ?B [7]])"
    by (auto simp: disk_rename_def Let_def fun_eq_iff tmp simp del: take_append)
  note r = apart_runs.step [OF r disk_step.Rename [OF this] ap(2)]
  let ?R = "\<lambda>b. \<lparr>dr_key = ''a'', dr_inode = 0, dr_len = 2, dr_sent = b\<rparr>"
  have "disk_open demo_FS 0 ''a'' (?D ?n3 [1, 2] [7] 2 [1 \<mapsto> ?B [7]]) =
      Some (?D ?n3 [1, 2] [7] 2 [1 \<mapsto> ?B [7]]\<lparr>readers := [0 \<mapsto> ?R []]\<rparr>)"
    by (simp add: disk_open_def tmp numeral_2_eq_2)
  note r = apart_runs.step [OF r disk_step.Open [OF this]]
  have "disk_send 0 1 (?D ?n3 [1, 2] [7] 2 [1 \<mapsto> ?B [7]]\<lparr>readers := [0 \<mapsto> ?R []]\<rparr>) = Some demo_disk"
    by (simp add: disk_send_def demo_disk_def)
  moreover have "writers_apart demo_disk" "writers_apart (?D ?n3 [1, 2] [7] 2 [1 \<mapsto> ?B [7]]\<lparr>readers := [0 \<mapsto> ?R []]\<rparr>)"
    by (simp_all add: writers_apart_def demo_disk_def)
  ultimately show ?thesis using apart_runs.step [OF r] disk_step.Send by blast
qed

lemma chunk_integrity_concurrent_witness:
  "\<exists>b. disk_data demo_disk (chunk_path 5 ''a'') = Some b \<and> demo_digest b = ''a''"
  using chunk_integrity_concurrent [OF empty_disk_ok(1) demo_disk_reached, of "''a''"] chunk_path_neq_tmp [of "''a''" 5]
  by (simp add: demo_disk_def disk_data_def)

lemma same_chunk_overwritten_witness:
  "\<exists>s'. disk_steps demo_FS empty_disk s' \<and> writers s' = Map.empty \<and>
     disk_data s' (chunk_path 5 ''a'') = Some [] \<and> demo_digest [] = ''b''"
  using same_chunk_overwritten [of empty_disk demo_digest "[1, 2]" "''a''" 5] by (simp add: demo_digest_def)

end
