(* ===== verification/Store_Calls.thy ===== *)
theory Store_Calls
  imports Store_Properties Wal_Frame
begin

text \<open>
  The file store with several connections. \<open>AddFileMetadata\<close> and \<open>DeleteFileMetadata\<close> take no lock
  of the store: they append under the lock of the log, wait for the flush, and only then change
  the map, so that other calls, the flushing goroutine and the snapshot goroutine run between
  these two points. A snapshot has two points of its own: it reads the sequence number and the
  segment number under the lock of the log, and later writes the map, whatever it has become, and
  removes the segments before that one. \<open>DeleteFileMetadata\<close> reads the record it deletes under the
  read lock of the map before it appends, so that it has one more point. A \<open>store_sys\<close> has the map,
  the log, the calls that wait between their append and their update of the map, the two numbers of
  a snapshot between its two points, and the deletions between their lookup and their append.
\<close>

section \<open>The system\<close>

text \<open>\<open>po_seq\<close>, the number that the append gave to the entry, is for the proofs; no operation reads it.\<close>

record pending_op =
  po_done :: nat
  po_seq :: u64
  po_key :: string
  po_value :: "FileMetadata option"

record store_sys =
  ss_files :: files
  ss_wal :: WAL
  ss_pending :: "pending_op list"
  ss_snap :: "(u64 \<times> u64) option"
  ss_looked :: "(string \<times> FileMetadata) list"

definition store_start :: "FileStore \<Rightarrow> store_sys" where
  "store_start st = \<lparr>ss_files = fst st, ss_wal = snd st, ss_pending = [], ss_snap = None, ss_looked = []\<rparr>"

text \<open>
  A call up to its wait. Where the source returns at once the call leaves nothing behind but the
  state of the log. A deletion has the record that it has found, which may not be that of the map any
  more when it appends.
\<close>

definition add_begin :: "WAL_Entry proto \<Rightarrow> FileMetadata proto \<Rightarrow> FileMetadata \<Rightarrow> store_sys \<Rightarrow> store_sys" where
  "add_begin Pe Pm fMeta s =
     (case Marshal Pm fMeta of
        Inl e \<Rightarrow> s
      | Inr meta \<Rightarrow>
          (case AppendEntry Pe meta False (ss_wal s) of
             (Inl e, w') \<Rightarrow> s\<lparr>ss_wal := w'\<rparr>
           | (Inr g, w') \<Rightarrow> s\<lparr>ss_wal := w', ss_pending := ss_pending s @
               [\<lparr>po_done = g, po_seq = w_lastSequenceNo w', po_key = GetName (Some fMeta), po_value = Some fMeta\<rparr>]\<rparr>))"

definition delete_lookup :: "string \<Rightarrow> store_sys \<Rightarrow> store_sys" where
  "delete_lookup key s =
     (case ss_files s key of
        None \<Rightarrow> s
      | Some fMeta \<Rightarrow> s\<lparr>ss_looked := ss_looked s @ [(key, fMeta)]\<rparr>)"

definition delete_append ::
  "WAL_Entry proto \<Rightarrow> FileMetadata proto \<Rightarrow> string \<Rightarrow> FileMetadata \<Rightarrow> store_sys \<Rightarrow> store_sys" where
  "delete_append Pe Pm key fMeta s0 =
     (let s = s0\<lparr>ss_looked := remove1 (key, fMeta) (ss_looked s0)\<rparr>
      in case Marshal Pm fMeta of
           Inl e \<Rightarrow> s
         | Inr meta \<Rightarrow>
             (case AppendEntry Pe meta True (ss_wal s) of
                (Inl e, w') \<Rightarrow> s\<lparr>ss_wal := w'\<rparr>
              | (Inr g, w') \<Rightarrow> s\<lparr>ss_wal := w', ss_pending := ss_pending s @
                  [\<lparr>po_done = g, po_seq = w_lastSequenceNo w', po_key = key, po_value = None\<rparr>]\<rparr>))"

text \<open>A waiting call whose channel has been closed changes the map.\<close>

definition op_end :: "pending_op \<Rightarrow> store_sys \<Rightarrow> store_sys" where
  "op_end p s = s\<lparr>ss_files := (ss_files s)(po_key p := po_value p), ss_pending := remove1 p (ss_pending s)\<rparr>"

text \<open>The snapshot goroutine, which takes one snapshot at a time: the locked part, and the rest.\<close>

definition snap_begin :: "store_sys \<Rightarrow> store_sys" where
  "snap_begin s =
     (if w_cancelled (ss_wal s) \<or> ss_snap s \<noteq> None then s
      else s\<lparr>ss_snap := Some (w_lastSequenceNo (ss_wal s), w_lastSegmentNo (ss_wal s))\<rparr>)"

definition snap_end :: "WAL_Entry proto \<Rightarrow> FileMetadata proto \<Rightarrow> (files \<Rightarrow> string list) \<Rightarrow> store_sys \<Rightarrow> store_sys" where
  "snap_end Pe Pm order s =
     (case ss_snap s of
        None \<Rightarrow> s
      | Some (seqNo, segNo) \<Rightarrow>
          s\<lparr>ss_wal := snd (snd (finish_snapshot Pe (file_snapshotable Pe Pm order) seqNo segNo (ss_files s, ss_wal s))),
            ss_snap := None\<rparr>)"

lemma finish_snapshot_fst: "fst (snd (finish_snapshot P S n k (f, w))) = f"
  by (simp add: finish_snapshot_def split: prod.splits option.splits)

text \<open>One after the other they are \<open>snapshotRunner\<close>.\<close>

lemma snap_begin_end:
  "ss_snap s = None \<Longrightarrow> snap_end Pe Pm order (snap_begin s) =
     s\<lparr>ss_wal := snd (snapshotRunner Pe (file_snapshotable Pe Pm order) (ss_files s, ss_wal s))\<rparr>"
  by (simp add: snap_begin_def snap_end_def snapshotRunner_def takeSnapshot_def)

inductive store_step ::
  "WAL_Entry proto \<Rightarrow> FileMetadata proto \<Rightarrow> (files \<Rightarrow> string list) \<Rightarrow> store_sys \<Rightarrow> store_sys \<Rightarrow> bool"
  for Pe Pm order where
  AddBegin: "store_step Pe Pm order s (add_begin Pe Pm m s)"
| DeleteLookup: "store_step Pe Pm order s (delete_lookup k s)"
| DeleteAppend: "(k, m) \<in> set (ss_looked s) \<Longrightarrow> store_step Pe Pm order s (delete_append Pe Pm k m s)"
| FlushBuffer: "store_step Pe Pm order s (s\<lparr>ss_wal := flushBuffer (ss_wal s)\<rparr>)"
| OpEnd: "p \<in> set (ss_pending s) \<Longrightarrow> AppendEntry_returns (po_done p) (ss_wal s) \<Longrightarrow>
     store_step Pe Pm order s (op_end p s)"
| SnapBegin: "store_step Pe Pm order s (snap_begin s)"
| SnapEnd: "store_step Pe Pm order s (snap_end Pe Pm order s)"

abbreviation store_steps ::
  "WAL_Entry proto \<Rightarrow> FileMetadata proto \<Rightarrow> (files \<Rightarrow> string list) \<Rightarrow> store_sys \<Rightarrow> store_sys \<Rightarrow> bool" where
  "store_steps Pe Pm order \<equiv> (store_step Pe Pm order)\<^sup>*\<^sup>*"

text \<open>
  The runs for which the store keeps its promise. Nothing in the source enforces them: they say how
  the clients and the snapshot goroutine have to be timed. No call appends while one of the same name
  waits (\<open>CalmAdd\<close>, \<open>CalmDeleteAppend\<close>), and a snapshot writes the map only when every call that
  waits then has appended after the snapshot read the sequence number (\<open>CalmSnapEnd\<close>). As before,
  the records marshal and fit a segment of the log, and the log has room. \<open>Store_Concurrency\<close> has runs
  of \<open>store_step\<close> that break the one and the other.
\<close>

inductive calm_step ::
  "WAL_Entry proto \<Rightarrow> FileMetadata proto \<Rightarrow> (files \<Rightarrow> string list) \<Rightarrow> store_sys \<Rightarrow> store_sys \<Rightarrow> bool"
  for Pe Pm order where
  CalmAdd: "meta_wf Pm m \<Longrightarrow> meta_fits Pe Pm (w_maxSegmentSize (ss_wal s)) m \<Longrightarrow> log_room (ss_wal s) 1 \<Longrightarrow>
     fm_Name m \<notin> po_key ` set (ss_pending s) \<Longrightarrow> calm_step Pe Pm order s (add_begin Pe Pm m s)"
| CalmDeleteLookup: "calm_step Pe Pm order s (delete_lookup k s)"
| CalmDeleteAppend: "(k, m) \<in> set (ss_looked s) \<Longrightarrow> meta_fits Pe Pm (w_maxSegmentSize (ss_wal s)) m \<Longrightarrow>
     log_room (ss_wal s) 1 \<Longrightarrow> k \<notin> po_key ` set (ss_pending s) \<Longrightarrow>
     calm_step Pe Pm order s (delete_append Pe Pm k m s)"
| CalmFlush: "calm_step Pe Pm order s (s\<lparr>ss_wal := flushBuffer (ss_wal s)\<rparr>)"
| CalmEnd: "p \<in> set (ss_pending s) \<Longrightarrow> AppendEntry_returns (po_done p) (ss_wal s) \<Longrightarrow>
     calm_step Pe Pm order s (op_end p s)"
| CalmSnapBegin: "calm_step Pe Pm order s (snap_begin s)"
| CalmSnapEnd: "(\<And>n k p. ss_snap s = Some (n, k) \<Longrightarrow> p \<in> set (ss_pending s) \<Longrightarrow> n < po_seq p) \<Longrightarrow>
     calm_step Pe Pm order s (snap_end Pe Pm order s)"

lemma store_steps_2: "store_step Pe Pm order s s' \<Longrightarrow> store_step Pe Pm order s' s'' \<Longrightarrow> store_steps Pe Pm order s s''"
  by (meson rtranclp.rtrancl_into_rtrancl rtranclp.rtrancl_refl)

lemma calm_step_store_step: "calm_step Pe Pm order s s' \<Longrightarrow> store_step Pe Pm order s s'"
  by (induction rule: calm_step.induct) (auto intro: store_step.intros)

section \<open>The invariant\<close>

text \<open>The map with the waiting updates applied, which is what the log says.\<close>

definition settled :: "store_sys \<Rightarrow> files" where
  "settled s = fold (\<lambda>p f. f(po_key p := po_value p)) (ss_pending s) (ss_files s)"

definition snapshot_kept :: "FileMetadata proto \<Rightarrow> files \<Rightarrow> WAL \<Rightarrow> bool" where
  "snapshot_kept Pm snap w \<longleftrightarrow>
     store_ok Pm snap \<and> snapshot_on_disk Pm snap (w_disk w) \<and> fs_node (w_disk w) snapshotTmp = None"

text \<open>
  A waiting call has its entry in the log, later than the last snapshot, and it is the last one about
  its name.
\<close>

definition call_logged :: "FileMetadata proto \<Rightarrow> u64 \<Rightarrow> WAL_Entry list \<Rightarrow> pending_op \<Rightarrow> bool" where
  "call_logged Pm n log p \<longleftrightarrow> n < po_seq p \<and>
     (\<exists>e \<in> set log. LogSequenceNo e = po_seq p \<and> entry_op Pm e = Some (po_key p, po_value p)) \<and>
     (\<forall>e \<in> set log. \<forall>v. entry_op Pm e = Some (po_key p, v) \<longrightarrow> LogSequenceNo e \<le> po_seq p)"

text \<open>An entry later than \<open>m\<close> that is not on the disk is that of a call that waits for the next flush.\<close>

definition flushes_due where
  "flushes_due Pe m s lo closed cur \<longleftrightarrow>
     (\<forall>e \<in> set (concat closed @ cur). m < LogSequenceNo e \<longrightarrow> durable Pe (ss_wal s) lo closed cur e \<or>
        (\<exists>p \<in> set (ss_pending s). po_seq p = LogSequenceNo e \<and> po_done p = w_flushDone (ss_wal s)))"

definition snap_ok :: "store_sys \<Rightarrow> nat \<Rightarrow> WAL_Entry list list \<Rightarrow> WAL_Entry list \<Rightarrow> bool" where
  "snap_ok s lo closed cur \<longleftrightarrow> (\<forall>n seg. ss_snap s = Some (n, seg) \<longrightarrow> n \<le> w_lastSequenceNo (ss_wal s) \<and>
     (\<exists>k. seg = word_of_nat k \<and> snap_point n k lo closed cur))"

text \<open>The map itself is what the entries of the other calls say.\<close>

definition others :: "store_sys \<Rightarrow> WAL_Entry list \<Rightarrow> WAL_Entry list" where
  "others s = filter (\<lambda>e. LogSequenceNo e \<notin> po_seq ` set (ss_pending s))"

definition logged_state where
  "logged_state Pe Pm m s snap lo closed cur \<longleftrightarrow>
     snapshot_kept Pm snap (ss_wal s) \<and> store_inv Pe Pm snap (settled s, ss_wal s) lo closed cur \<and>
     replays Pm snap (w_lastSnapshot (ss_wal s)) (others s (concat closed @ cur)) (ss_files s) \<and>
     (\<forall>p \<in> set (ss_pending s). call_logged Pm (w_lastSnapshot (ss_wal s)) (concat closed @ cur) p) \<and>
     flushes_due Pe m s lo closed cur \<and> snap_ok s lo closed cur"

text \<open>A record that a deletion has found is one that was in the map.\<close>

definition looked_ok :: "FileMetadata proto \<Rightarrow> (string \<times> FileMetadata) list \<Rightarrow> bool" where
  "looked_ok Pm xs \<longleftrightarrow> (\<forall>(k, m) \<in> set xs. meta_wf Pm m \<and> fm_Name m = k)"

definition conc_inv :: "WAL_Entry proto \<Rightarrow> FileMetadata proto \<Rightarrow> u64 \<Rightarrow> store_sys \<Rightarrow> bool" where
  "conc_inv Pe Pm m s \<longleftrightarrow> distinct (map po_key (ss_pending s)) \<and> looked_ok Pm (ss_looked s) \<and>
     (\<exists>snap lo closed cur. logged_state Pe Pm m s snap lo closed cur)"

lemma logged_stateD:
  assumes "logged_state Pe Pm m s snap lo closed cur"
  shows "snapshot_kept Pm snap (ss_wal s)" "store_inv Pe Pm snap (settled s, ss_wal s) lo closed cur"
    "replays Pm snap (w_lastSnapshot (ss_wal s)) (others s (concat closed @ cur)) (ss_files s)"
    "\<And>p. p \<in> set (ss_pending s) \<Longrightarrow> call_logged Pm (w_lastSnapshot (ss_wal s)) (concat closed @ cur) p"
    "flushes_due Pe m s lo closed cur" "snap_ok s lo closed cur" "wal_rep Pe (ss_wal s) lo closed cur"
    "ordered (concat closed @ cur)"
  using assms by (auto simp: logged_state_def store_inv_def dest: wal_rep_ordered)

text \<open>The log's own operations leave the snapshot on the disk.\<close>

lemma snapshot_kept_frame:
  assumes "snapshot_kept Pm snap w" "log_frame w w'" "wal_rep Pe w lo closed cur" "wal_rep Pe w' lo' closed' cur'"
  shows "snapshot_kept Pm snap w'"
proof -
  have "\<not> faults (w_disk w') OpOpen SnapshotFile"
    using assms(4) by (auto simp: wal_rep_def wal_store_def dest: log_diskD(2) no_faultsD)
  with assms(1) log_frame_snapshot [OF assms(2,3)] show ?thesis
    by (auto simp: snapshot_kept_def snapshot_on_disk_def fs_Open_def split: if_splits)
qed

lemma snapshot_kept_dir: "snapshot_kept Pm snap w \<Longrightarrow> fs_node (w_disk w) SnapshotFile \<noteq> Some Dir"
  by (auto simp: snapshot_kept_def snapshot_on_disk_def fs_Open_def split: option.splits node.splits if_splits)

lemma settled_snoc [simp]:
  "settled (s\<lparr>ss_wal := w, ss_pending := ss_pending s @ [p]\<rparr>) = (settled s)(po_key p := po_value p)"
  by (simp add: settled_def)

lemma settled_wal [simp]: "settled (s\<lparr>ss_wal := w\<rparr>) = settled s" "settled (s\<lparr>ss_snap := x\<rparr>) = settled s"
  by (simp_all add: settled_def)

lemma others_wal [simp]: "others (s\<lparr>ss_wal := w\<rparr>) = others s" "others (s\<lparr>ss_snap := x\<rparr>) = others s"
  by (simp_all add: others_def)

lemma settled_other: "k \<notin> po_key ` set (ss_pending s) \<Longrightarrow> settled s k = ss_files s k"
proof -
  have "fold (\<lambda>p f. f(po_key p := po_value p)) ps f k = f k" if "k \<notin> po_key ` set ps" for ps and f :: files
    using that by (induction ps arbitrary: f) auto
  then show "k \<notin> po_key ` set (ss_pending s) \<Longrightarrow> settled s k = ss_files s k" by (simp add: settled_def)
qed

text \<open>Ending one of several waiting updates of distinct names does not change the outcome.\<close>

lemma settled_end:
  assumes "distinct (map po_key (ss_pending s))" "p \<in> set (ss_pending s)"
  shows "settled (op_end p s) = settled s"
proof -
  have "fold (\<lambda>p f. f(po_key p := po_value p)) (remove1 p ps) (f(po_key p := po_value p)) =
      fold (\<lambda>p f. f(po_key p := po_value p)) ps f"
    if "distinct (map po_key ps)" "p \<in> set ps" for ps and f :: files
    using that
  proof (induction ps arbitrary: f)
    case (Cons q ps)
    show ?case
    proof (cases "q = p")
      case False
      with Cons.prems have q: "po_key q \<noteq> po_key p" "p \<in> set ps" by auto
      with Cons.IH [of "f(po_key q := po_value q)"] Cons.prems False fun_upd_twist [OF q(1), of f]
      show ?thesis by (simp del: fun_upd_apply)
    qed simp
  qed simp
  with assms show ?thesis by (simp add: settled_def op_end_def)
qed

text \<open>The map never has a record that does not marshal.\<close>

lemma logged_state_files: "logged_state Pe Pm m s snap lo closed cur \<Longrightarrow> store_ok Pm (ss_files s)"
proof -
  assume l: "logged_state Pe Pm m s snap lo closed cur"
  have fold: "store_ok Pm (fold (effect Pm) es f)" if "store_ok Pm f" "list_all (entry_meta_ok Pm) es" for es f
    using that by (induction es arbitrary: f) (auto intro: store_ok_effect)
  from logged_stateD(3) [OF l] have "ss_files s =
      fold (effect Pm) (after (w_lastSnapshot (ss_wal s)) (others s (concat closed @ cur))) snap" by (simp add: replays_def)
  moreover have "store_ok Pm snap" "list_all (entry_meta_ok Pm) (concat closed @ cur)"
    using logged_stateD(1,2) [OF l] by (simp_all add: snapshot_kept_def store_inv_def)
  ultimately show ?thesis by (auto simp: others_def list_all_iff intro!: fold)
qed

section \<open>Every step keeps it\<close>

text \<open>The first half of a call.\<close>

lemma call_logged_snoc:
  assumes "call_logged Pm n log p" "log @ [e] = dropped @ log'" "\<forall>x \<in> set dropped. LogSequenceNo x \<le> n"
    and "entry_op Pm e = Some (k, v)" "k \<noteq> po_key p"
  shows "call_logged Pm n log' p"
proof -
  from assms(1) obtain x where x: "x \<in> set log" "LogSequenceNo x = po_seq p" "entry_op Pm x = Some (po_key p, po_value p)"
    "n < po_seq p" by (auto simp: call_logged_def)
  then have "x \<notin> set dropped" using assms(3) by auto
  moreover have log: "set log \<union> {e} = set dropped \<union> set log'" using arg_cong [OF assms(2), of set] by simp
  ultimately have "x \<in> set log'" using x(1) by blast
  moreover have "LogSequenceNo y \<le> po_seq p" if y: "y \<in> set log'" "entry_op Pm y = Some (po_key p, v')" for y v'
  proof -
    have "y \<noteq> e" using y(2) assms(4,5) by auto
    with log y(1) have "y \<in> set log" by blast
    with assms(1) y(2) show ?thesis by (auto simp: call_logged_def)
  qed
  ultimately show ?thesis using x unfolding call_logged_def by blast
qed

lemma flushes_due_begin:
  assumes due: "flushes_due Pe m s lo closed cur" and mono: "w_flushDone (ss_wal s) \<le> w_flushDone w'"
    and still: "still_durable Pe (ss_wal s) lo closed cur w' lo' closed' cur' e"
    and p: "po_done p = w_flushDone w'" "po_seq p = LogSequenceNo e"
  shows "flushes_due Pe m (s\<lparr>ss_wal := w', ss_pending := ss_pending s @ [p]\<rparr>) lo' closed' cur'"
proof -
  have "durable Pe w' lo' closed' cur' x \<or> (\<exists>q \<in> set (ss_pending s @ [p]). po_seq q = LogSequenceNo x \<and> po_done q = w_flushDone w')"
    if x: "x \<in> set (concat closed' @ cur')" "m < LogSequenceNo x" for x
  proof (cases "x = e")
    case False
    with still x(1) have x1: "x \<in> set (concat closed @ cur)"
      "durable Pe (ss_wal s) lo closed cur x \<or> w_flushDone (ss_wal s) < w_flushDone w' \<longrightarrow> durable Pe w' lo' closed' cur' x"
      unfolding still_durable_def by blast+
    with due x(2) mono show ?thesis unfolding flushes_due_def by fastforce
  qed (use p in simp)
  then show ?thesis by (simp add: flushes_due_def)
qed

lemma others_begin:
  assumes "log @ [e] = dropped @ log'" "\<forall>x \<in> set log. LogSequenceNo x < LogSequenceNo e" "po_seq p = LogSequenceNo e"
  shows "others s log = filter (\<lambda>x. LogSequenceNo x \<notin> po_seq ` set (ss_pending s @ [p])) dropped @
    others (s\<lparr>ss_wal := w', ss_pending := ss_pending s @ [p]\<rparr>) log'"
proof -
  let ?q = "\<lambda>x. LogSequenceNo x \<notin> po_seq ` set (ss_pending s @ [p])"
  have "others s log = filter ?q (log @ [e])"
    using assms(2,3) by (auto simp: others_def intro!: filter_cong)
  then show ?thesis by (simp add: assms(1) others_def)
qed

lemma conc_inv_begin:
  assumes P: "proto_ok Pe" "proto_ok Pm" and inv: "conc_inv Pe Pm n0 s"
    and m: "meta_wf Pm m" "Marshal Pm m = Inr b" "meta_fits Pe Pm (w_maxSegmentSize (ss_wal s)) m"
    and room: "log_room (ss_wal s) 1" and new: "fm_Name m \<notin> po_key ` set (ss_pending s)"
  shows "\<exists>g w'. AppendEntry Pe b del (ss_wal s) = (Inr g, w') \<and>
    conc_inv Pe Pm n0 (s\<lparr>ss_wal := w', ss_pending := ss_pending s @
      [\<lparr>po_done = g, po_seq = w_lastSequenceNo w', po_key = fm_Name m, po_value = (if del then None else Some m)\<rparr>]\<rparr>)"
proof -
  let ?w = "ss_wal s" and ?v = "if del then None else Some m"
  from inv obtain snap lo closed cur where d: "distinct (map po_key (ss_pending s))"
    and lk: "looked_ok Pm (ss_looked s)" and l: "logged_state Pe Pm n0 s snap lo closed cur" unfolding conc_inv_def by blast
  note i = logged_stateD [OF l]
  from store_started [OF P i(2) m room, of del] obtain w' lo' closed' cur' dropped e where
    w': "AppendEntry Pe b del ?w = (Inr (w_flushDone w'), w')"
    "store_inv Pe Pm snap (if del then (settled s)(fm_Name m := None) else (settled s)(fm_Name m \<mapsto> m), w') lo' closed' cur'"
    "e = new_entry (w_lastSequenceNo ?w + 1) b del" "e \<in> set cur'" "(concat closed @ cur) @ [e] = dropped @ (concat closed' @ cur')"
    "entry_op Pm e = Some (fm_Name m, ?v)" "w_lastSequenceNo w' = w_lastSequenceNo ?w + 1" "w_flushDone ?w \<le> w_flushDone w'"
    "log_grows Pe ?w lo closed cur w' lo' closed' cur' dropped e" by blast
  from w'(9) have g: "\<forall>x \<in> set dropped. LogSequenceNo x \<le> w_lastSnapshot ?w" "w_lastSnapshot w' = w_lastSnapshot ?w"
    "w_lastSequenceNo ?w < LogSequenceNo e" "w_lastSequenceNo ?w < w_lastSequenceNo w'"
    "\<And>n k. n \<le> w_lastSequenceNo ?w \<Longrightarrow> snap_point n k lo closed cur \<Longrightarrow> snap_point n k lo' closed' cur'"
    "still_durable Pe ?w lo closed cur w' lo' closed' cur' e" unfolding log_grows_def by blast+
  let ?log = "concat closed @ cur" and ?log' = "concat closed' @ cur'"
  let ?p = "\<lparr>po_done = w_flushDone w', po_seq = w_lastSequenceNo w', po_key = fm_Name m, po_value = ?v\<rparr>"
  let ?s = "s\<lparr>ss_wal := w', ss_pending := ss_pending s @ [?p]\<rparr>"
  have seq: "LogSequenceNo e = w_lastSequenceNo w'" by (simp add: w'(3,7) new_entry_def)
  from w'(2) have rep': "wal_rep Pe w' lo' closed' cur'" by (simp add: store_inv_def)
  have lt: "\<forall>x \<in> set ?log. LogSequenceNo x < LogSequenceNo e"
    using numbered_le [OF wal_rep_numbered [OF i(7)]] g(3) by (auto intro: order_le_less_trans)
  have "replays Pm snap (w_lastSnapshot w') (others ?s ?log') (ss_files ?s)"
    using i(3) others_begin [OF w'(5) lt, of ?p s w'] seq g(1,2)
    by (auto intro: replays_drop [where dropped = "filter (\<lambda>x. LogSequenceNo x \<notin> po_seq ` set (ss_pending s @ [?p])) dropped"])
  moreover have "call_logged Pm (w_lastSnapshot w') ?log' p" if "p \<in> set (ss_pending s @ [?p])" for p
  proof (cases "p = ?p")
    case True
    have "\<forall>x \<in> set ?log'. LogSequenceNo x \<le> w_lastSequenceNo w'" using numbered_le [OF wal_rep_numbered [OF rep']] by blast
    moreover have "w_lastSnapshot w' \<le> w_lastSequenceNo ?w" using i(7) g(2) by (simp add: wal_rep_def)
    ultimately show ?thesis using True g(4) seq w'(4,6) by (auto simp: call_logged_def intro: order_le_less_trans)
  next
    case False
    with that new i(4) [of p] show ?thesis
      by (auto simp: g(2) intro: call_logged_snoc [OF _ w'(5) g(1) w'(6)])
  qed
  moreover have "snap_ok ?s lo' closed' cur'"
    using i(6) g(4,5) by (fastforce simp: snap_ok_def)
  moreover have "flushes_due Pe n0 ?s lo' closed' cur'"
    by (rule flushes_due_begin [OF i(5) w'(8) g(6)]) (simp_all add: seq)
  moreover have "snapshot_kept Pm snap w'"
    using snapshot_kept_frame [OF i(1) AppendEntry_frame [OF w'(1)] i(7) rep'] .
  moreover have "store_inv Pe Pm snap (settled ?s, w') lo' closed' cur'"
    using w'(2) by (simp del: fun_upd_apply split: if_splits)
  ultimately have "logged_state Pe Pm n0 ?s snap lo' closed' cur'" by (simp add: logged_state_def)
  moreover have "distinct (map po_key (ss_pending ?s))" "looked_ok Pm (ss_looked ?s)" using d lk new by auto
  ultimately have "conc_inv Pe Pm n0 ?s" unfolding conc_inv_def by blast
  with w'(1) show ?thesis by blast
qed

lemma conc_inv_add:
  assumes "proto_ok Pe" "proto_ok Pm" "conc_inv Pe Pm n0 s" "meta_wf Pm m"
    "meta_fits Pe Pm (w_maxSegmentSize (ss_wal s)) m" "log_room (ss_wal s) 1" "fm_Name m \<notin> po_key ` set (ss_pending s)"
  shows "conc_inv Pe Pm n0 (add_begin Pe Pm m s)"
proof -
  from assms(4) obtain b where b: "Marshal Pm m = Inr b" by (auto elim: meta_wfE)
  from conc_inv_begin [OF assms(1-4) b assms(5-7), of False] b show ?thesis
    by (auto simp: add_begin_def GetName_def)
qed

lemma logged_state_looked [simp]:
  "logged_state Pe Pm m (s\<lparr>ss_looked := x\<rparr>) snap lo closed cur = logged_state Pe Pm m s snap lo closed cur"
  by (simp add: logged_state_def settled_def others_def flushes_due_def snap_ok_def)

lemma conc_inv_lookup:
  assumes "conc_inv Pe Pm n0 s"
  shows "conc_inv Pe Pm n0 (delete_lookup k s)"
proof (cases "ss_files s k")
  case None
  with assms show ?thesis by (simp add: delete_lookup_def)
next
  case (Some m)
  moreover from assms have "store_ok Pm (ss_files s)" by (auto simp: conc_inv_def intro: logged_state_files)
  ultimately have "meta_wf Pm m \<and> fm_Name m = k" by (auto simp: store_ok_def)
  with assms Some show ?thesis by (simp add: conc_inv_def looked_ok_def delete_lookup_def ball_Un)
qed

lemma conc_inv_delete:
  assumes "proto_ok Pe" "proto_ok Pm" and inv: "conc_inv Pe Pm n0 s" and km: "(k, m) \<in> set (ss_looked s)"
    and "meta_fits Pe Pm (w_maxSegmentSize (ss_wal s)) m" "log_room (ss_wal s) 1" "k \<notin> po_key ` set (ss_pending s)"
  shows "conc_inv Pe Pm n0 (delete_append Pe Pm k m s)"
proof -
  let ?s = "s\<lparr>ss_looked := remove1 (k, m) (ss_looked s)\<rparr>"
  from inv km have m: "meta_wf Pm m" "fm_Name m = k" by (auto simp: conc_inv_def looked_ok_def)
  then obtain b where b: "Marshal Pm m = Inr b" by (auto elim: meta_wfE)
  have "conc_inv Pe Pm n0 ?s" using inv by (auto simp: conc_inv_def looked_ok_def dest: notin_set_remove1)
  from conc_inv_begin [OF assms(1,2) this m(1) b, of True] assms(5-7) m(2) b
  show ?thesis by (auto simp: delete_append_def Let_def)
qed

text \<open>A flush.\<close>

lemma conc_inv_flush:
  assumes "conc_inv Pe Pm n0 s"
  shows "conc_inv Pe Pm n0 (s\<lparr>ss_wal := flushBuffer (ss_wal s)\<rparr>)"
proof (cases "w_cancelled (ss_wal s)")
  case True
  with assms show ?thesis by (simp add: flushBuffer_def)
next
  case False
  from assms obtain snap lo closed cur where d: "distinct (map po_key (ss_pending s))"
    and lk: "looked_ok Pm (ss_looked s)" and l: "logged_state Pe Pm n0 s snap lo closed cur" unfolding conc_inv_def by blast
  note i = logged_stateD [OF l]
  from store_inv_flush [OF i(2)] False obtain w' where
    w': "flushBuffer (ss_wal s) = w'" "store_inv Pe Pm snap (settled s, w') lo closed cur"
    "w_lastSequenceNo w' = w_lastSequenceNo (ss_wal s)" "w_lastSnapshot w' = w_lastSnapshot (ss_wal s)"
    "\<forall>x \<in> set (concat closed @ cur). durable Pe w' lo closed cur x" by (auto simp: flushBuffer_def)
  have "snapshot_kept Pm snap w'"
    using snapshot_kept_frame [OF i(1) flushBuffer_frame i(7), of lo closed cur] w'(1,2) by (simp add: store_inv_def)
  then have "logged_state Pe Pm n0 (s\<lparr>ss_wal := w'\<rparr>) snap lo closed cur"
    using l w'(2-5) by (simp add: logged_state_def flushes_due_def snap_ok_def)
  with d lk w'(1) show ?thesis unfolding conc_inv_def by auto
qed

text \<open>The second half of a call.\<close>

lemma others_end:
  assumes log: "ordered log" "e \<in> set log" "LogSequenceNo e = po_seq p" "entry_op Pm e = Some (po_key p, po_value p)"
    and last: "\<forall>x \<in> set log. \<forall>v. entry_op Pm x = Some (po_key p, v) \<longrightarrow> LogSequenceNo x \<le> po_seq p"
    and p: "p \<in> set (ss_pending s)" "po_seq p \<notin> po_seq ` set (remove1 p (ss_pending s))"
    and r: "replays Pm snap n (others s log) (ss_files s)" "n < po_seq p"
  shows "replays Pm snap n (others (op_end p s) log) (ss_files (op_end p s))"
proof -
  let ?q = "\<lambda>x. LogSequenceNo x \<notin> po_seq ` set (ss_pending s)"
  let ?q' = "\<lambda>x. LogSequenceNo x \<notin> po_seq ` set (remove1 p (ss_pending s))"
  from log(2) obtain xs ys where l: "log = xs @ e # ys" by (auto simp: in_set_conv_decomp)
  have lt: "\<forall>x \<in> set xs. LogSequenceNo x < po_seq p" "\<forall>y \<in> set ys. po_seq p < LogSequenceNo y"
    using log(1,3) by (auto simp: l sorted_wrt_append)
  have "set (ss_pending s) = insert p (set (remove1 p (ss_pending s)))"
    using p(1) notin_set_remove1 [of _ "ss_pending s" p] in_set_remove1 [of _ p "ss_pending s"] by blast
  then have q: "?q x \<longleftrightarrow> ?q' x \<and> LogSequenceNo x \<noteq> po_seq p" for x by auto
  have "others s log = filter ?q' xs @ filter ?q' ys"
    using lt log(3) by (auto simp: others_def l q intro!: filter_cong arg_cong2 [where f = append])
  moreover have "others (op_end p s) log = filter ?q' xs @ e # filter ?q' ys"
    using p(2) log(3) by (simp add: others_def l op_end_def)
  moreover have "ordered (filter ?q' xs @ e # filter ?q' ys)"
    using sorted_wrt_filter [OF log(1), of ?q'] p(2) log(3) by (simp add: l)
  moreover have "\<forall>y \<in> set (filter ?q' ys). \<forall>v. entry_op Pm y \<noteq> Some (po_key p, v)"
    using last lt(2) by (fastforce simp: l)
  ultimately have "replays Pm snap n (others (op_end p s) log) (effect Pm e (ss_files s))"
    using replays_insert [of Pm snap n "filter ?q' xs" "filter ?q' ys" "ss_files s" e] r log(3,4) by simp
  then show ?thesis using log(4) by (simp add: effect_def op_end_def)
qed

lemma waiting_seq_distinct:
  assumes "distinct (map po_key ps)" "p \<in> set ps" "ordered log" "\<And>q. q \<in> set ps \<Longrightarrow> call_logged Pm n log q"
  shows "p \<notin> set (remove1 p ps) \<and> po_seq p \<notin> po_seq ` set (remove1 p ps)"
proof -
  have ps: "distinct ps" using assms(1) by (simp add: distinct_map)
  then have "p \<notin> set (remove1 p ps)" by simp
  moreover have "po_seq q \<noteq> po_seq p" if q: "q \<in> set (remove1 p ps)" for q
  proof
    assume eq: "po_seq q = po_seq p"
    have "q \<in> set ps" "q \<noteq> p" using q ps by auto
    then have "po_key q \<noteq> po_key p" using assms(1,2) by (auto simp: distinct_map inj_on_def)
    with assms(4) [OF assms(2)] assms(4) [OF \<open>q \<in> set ps\<close>] eq ordered_unique [OF assms(3)] show False
      by (fastforce simp: call_logged_def)
  qed
  ultimately show ?thesis by (auto dest: sym)
qed

lemma conc_inv_end:
  assumes inv: "conc_inv Pe Pm n0 s" and p: "p \<in> set (ss_pending s)" "AppendEntry_returns (po_done p) (ss_wal s)"
  shows "conc_inv Pe Pm n0 (op_end p s)"
proof -
  from inv obtain snap lo closed cur where d: "distinct (map po_key (ss_pending s))"
    and lk: "looked_ok Pm (ss_looked s)" and l: "logged_state Pe Pm n0 s snap lo closed cur" unfolding conc_inv_def by blast
  note i = logged_stateD [OF l]
  let ?log = "concat closed @ cur"
  from i(4) [OF p(1)] obtain e where e: "e \<in> set ?log" "LogSequenceNo e = po_seq p"
    "entry_op Pm e = Some (po_key p, po_value p)" "w_lastSnapshot (ss_wal s) < po_seq p"
    "\<forall>x \<in> set ?log. \<forall>v. entry_op Pm x = Some (po_key p, v) \<longrightarrow> LogSequenceNo x \<le> po_seq p"
    unfolding call_logged_def by blast
  have seq: "po_seq p \<notin> po_seq ` set (remove1 p (ss_pending s))"
    using waiting_seq_distinct [OF d p(1) i(8,4)] by blast
  have "replays Pm snap (w_lastSnapshot (ss_wal s)) (others (op_end p s) ?log) (ss_files (op_end p s))"
    by (rule others_end [OF i(8) e(1-3,5) p(1) seq i(3) e(4)])
  moreover have "po_done p \<noteq> w_flushDone (ss_wal s)" using p(2) by (simp add: AppendEntry_returns_def)
  then have "q \<in> set (remove1 p (ss_pending s))" if "q \<in> set (ss_pending s)" "po_done q = w_flushDone (ss_wal s)" for q
    using that in_set_remove1 [of q p "ss_pending s"] \<open>po_done p \<noteq> w_flushDone (ss_wal s)\<close> by blast
  with i(5) have "flushes_due Pe n0 (op_end p s) lo closed cur"
    unfolding flushes_due_def by (simp add: op_end_def) blast
  moreover have "call_logged Pm (w_lastSnapshot (ss_wal s)) ?log q" if "q \<in> set (ss_pending (op_end p s))" for q
    using that notin_set_remove1 by (intro i(4)) (fastforce simp: op_end_def)
  moreover have "snap_ok (op_end p s) lo closed cur" using i(6) by (simp add: snap_ok_def op_end_def)
  ultimately have "logged_state Pe Pm n0 (op_end p s) snap lo closed cur"
    using l settled_end [OF d p(1)] by (simp add: logged_state_def op_end_def)
  moreover have "distinct (map po_key (remove1 p ps))" if "distinct (map po_key ps)" for ps
    using that notin_set_remove1 by (induction ps) (auto simp: image_iff dest: notin_set_remove1)
  ultimately show ?thesis using d lk unfolding conc_inv_def by (auto simp: op_end_def)
qed

text \<open>The two halves of a snapshot.\<close>

lemma conc_inv_snap_begin:
  assumes "conc_inv Pe Pm n0 s"
  shows "conc_inv Pe Pm n0 (snap_begin s)"
proof -
  from assms obtain snap lo closed cur where d: "distinct (map po_key (ss_pending s))"
    and lk: "looked_ok Pm (ss_looked s)" and l: "logged_state Pe Pm n0 s snap lo closed cur" unfolding conc_inv_def by blast
  note i = logged_stateD [OF l]
  have "w_lastSegmentNo (ss_wal s) = word_of_nat (lo + length closed)" using i(7) by (simp add: wal_rep_def wal_store_def)
  then have "\<exists>k. w_lastSegmentNo (ss_wal s) = word_of_nat k \<and> snap_point (w_lastSequenceNo (ss_wal s)) k lo closed cur"
    using snap_point_now [OF wal_rep_numbered [OF i(7)]] by blast
  then have "snap_ok (snap_begin s) lo closed cur" using i(6) by (simp add: snap_ok_def snap_begin_def)
  then have "logged_state Pe Pm n0 (snap_begin s) snap lo closed cur"
    using l by (simp add: logged_state_def snap_begin_def flushes_due_def)
  moreover have "ss_pending (snap_begin s) = ss_pending s" "ss_looked (snap_begin s) = ss_looked s"
    by (simp_all add: snap_begin_def)
  ultimately show ?thesis using d lk unfolding conc_inv_def by metis
qed

lemma conc_inv_snap_end:
  assumes P: "proto_ok Pe" "proto_ok Pm" "order_ok order" and inv: "conc_inv Pe Pm n0 s"
    and late: "\<And>n k p. ss_snap s = Some (n, k) \<Longrightarrow> p \<in> set (ss_pending s) \<Longrightarrow> n < po_seq p"
  shows "conc_inv Pe Pm n0 (snap_end Pe Pm order s)"
proof (cases "ss_snap s")
  case None
  with inv show ?thesis by (simp add: snap_end_def)
next
  case (Some nk)
  then obtain n seg where nk: "ss_snap s = Some (n, seg)" by (cases nk) simp
  from inv obtain snap lo closed cur where d: "distinct (map po_key (ss_pending s))"
    and lk: "looked_ok Pm (ss_looked s)" and l: "logged_state Pe Pm n0 s snap lo closed cur" unfolding conc_inv_def by blast
  note i = logged_stateD [OF l]
  let ?log = "concat closed @ cur" and ?f = "ss_files s" and ?w = "ss_wal s"
  from i(6) nk obtain k where k: "seg = word_of_nat k" "snap_point n k lo closed cur" "n \<le> w_lastSequenceNo ?w"
    by (auto simp: snap_ok_def)
  have agree: "?f j = settled s j"
    if no: "\<forall>e \<in> set ?log. n < LogSequenceNo e \<longrightarrow> (\<forall>v. entry_op Pm e \<noteq> Some (j, v))" for j
  proof -
    have "j \<noteq> po_key p" if "p \<in> set (ss_pending s)" for p
      using i(4) [OF that] late [OF nk that] no unfolding call_logged_def by metis
    then have "j \<notin> po_key ` set (ss_pending s)" by blast
    from settled_other [OF this] show ?thesis by simp
  qed
  have f: "store_ok Pm ?f" and tmp: "fs_node (w_disk ?w) snapshotTmp = None"
    using logged_state_files [OF l] i(1) by (simp_all add: snapshot_kept_def)
  let ?cl = "drop (k - lo) closed"
  from store_finishes_snapshot [OF P i(2) f tmp snapshot_kept_dir [OF i(1)] k(2,3) agree] obtain w' where
    w': "finish_snapshot Pe (file_snapshotable Pe Pm order) n seg (?f, ?w) = (None, (?f, w'))" "w_lastSnapshot w' = n"
    "snapshot_file Pm n ?f (w_disk w')" "store_inv Pe Pm ?f (settled s, w') (lo + (k - lo)) ?cl cur"
    "fs_node (w_disk w') snapshotTmp = None" "w_flushDone w' = w_flushDone ?w" "w_lastSequenceNo w' = w_lastSequenceNo ?w"
    "\<forall>x \<in> set (concat ?cl @ cur). durable Pe ?w lo closed cur x \<longrightarrow> durable Pe w' (lo + (k - lo)) ?cl cur x"
    unfolding k(1) by blast
  let ?s = "s\<lparr>ss_wal := w', ss_snap := None\<rparr>" and ?dr = "concat (take (k - lo) closed)" and ?log' = "concat ?cl @ cur"
  have log: "?log = ?dr @ ?log'" by (simp add: concat_append [symmetric] del: concat_append)
  have dr: "\<forall>e \<in> set ?dr. LogSequenceNo e \<le> n" using k(2) unfolding snap_point_def by blast
  have sub: "set ?log' \<subseteq> set ?log" unfolding log by auto
  have "ordered (others s ?log)" using sorted_wrt_filter [OF i(8)] by (simp add: others_def)
  from replays_snapshot [OF i(3) this, of n ?f] have "replays Pm ?f n (others s ?log) ?f" by simp
  then have "replays Pm ?f n (filter (\<lambda>e. LogSequenceNo e \<notin> po_seq ` set (ss_pending s)) ?dr @ others s ?log') ?f"
    unfolding log by (simp add: others_def)
  then have "replays Pm ?f n (others ?s ?log') ?f"
    by (rule replays_drop [THEN subst [of "others s" "others ?s" "\<lambda>g. replays Pm ?f n (g ?log') ?f", rotated]]) (use dr in \<open>auto simp: others_def\<close>)
  moreover have "call_logged Pm n ?log' p" if p: "p \<in> set (ss_pending s)" for p
  proof -
    from i(4) [OF p] obtain e where e: "e \<in> set ?log" "LogSequenceNo e = po_seq p" "entry_op Pm e = Some (po_key p, po_value p)"
      unfolding call_logged_def by blast
    have "e \<notin> set ?dr" using bspec [OF dr, of e] late [OF nk p] e(2) by (metis not_le)
    with e(1) have "e \<in> set ?log'" unfolding log set_append [of ?dr] by blast
    with e i(4) [OF p] sub late [OF nk p] show ?thesis unfolding call_logged_def by blast
  qed
  moreover have "flushes_due Pe n0 ?s (lo + (k - lo)) ?cl cur"
    using i(5) w'(6,8) sub by (fastforce simp: flushes_due_def)
  moreover have "snapshot_kept Pm ?f w'" using f snapshot_file_on_disk [OF w'(3)] w'(5) by (simp add: snapshot_kept_def)
  ultimately have "logged_state Pe Pm n0 ?s ?f (lo + (k - lo)) ?cl cur"
    using w'(2,4) by (simp add: logged_state_def snap_ok_def settled_def)
  moreover have "snap_end Pe Pm order s = ?s" using nk w'(1) by (simp add: snap_end_def)
  ultimately show ?thesis using d lk unfolding conc_inv_def by auto
qed

lemma conc_inv_step:
  assumes "proto_ok Pe" "proto_ok Pm" "order_ok order" "calm_step Pe Pm order s s'" "conc_inv Pe Pm n0 s"
  shows "conc_inv Pe Pm n0 s'"
  using assms(4)
proof cases
  case CalmSnapEnd
  with conc_inv_snap_end [OF assms(1-3,5)] show ?thesis by blast
qed (use assms(1,2,5) in \<open>auto intro: conc_inv_add conc_inv_lookup conc_inv_delete conc_inv_flush conc_inv_end conc_inv_snap_begin\<close>)

lemma conc_inv_run:
  assumes P: "proto_ok Pe" "proto_ok Pm" "order_ok order"
  shows "(calm_step Pe Pm order)\<^sup>*\<^sup>* s s' \<Longrightarrow> conc_inv Pe Pm n0 s \<Longrightarrow> conc_inv Pe Pm n0 s'"
  by (induction rule: rtranclp_induct) (auto intro: conc_inv_step [OF P])

text \<open>At the start of a run nothing waits.\<close>

lemma conc_inv_start:
  assumes inv: "store_inv Pe Pm snap (f, w) lo closed cur" and kept: "snapshot_kept Pm snap w"
    and m: "w_lastSequenceNo w \<le> m \<or> flushed w"
  shows "conc_inv Pe Pm m (store_start (f, w))"
proof -
  have rep: "wal_rep Pe w lo closed cur" using inv by (simp add: store_inv_def)
  have "durable Pe w lo closed cur e" if "e \<in> set (concat closed @ cur)" "m < LogSequenceNo e" for e
  proof -
    have "LogSequenceNo e \<le> w_lastSequenceNo w" using numbered_le [OF wal_rep_numbered [OF rep] that(1)] .
    with that(2) m have "flushed w" by (auto simp: not_le [symmetric])
    with log_diskD(6) [OF wal_rep_flushed_disk [OF rep], of "length closed"] that(1) show ?thesis
      by (intro durable_all) (simp_all add: nth_append)
  qed
  then have "logged_state Pe Pm m (store_start (f, w)) snap lo closed cur"
    using inv kept by (simp add: logged_state_def store_start_def settled_def others_def flushes_due_def snap_ok_def store_inv_def)
  then show ?thesis unfolding conc_inv_def by (auto simp: store_start_def looked_ok_def)
qed

end
