(* ===== verification/Store_Concurrency.thy ===== *)
theory Store_Concurrency
  imports Store_Calls
begin

text \<open>
  The file store with several connections: what holds of every calm run of the system of
  \<open>Store_Calls\<close>, and runs that are not calm and go wrong.
\<close>

section \<open>Two additions at the same time\<close>

lemma started_twice:
  assumes P: "proto_ok Pe" "proto_ok Pm" and inv: "store_inv Pe Pm snap (f, w) lo closed cur"
    and m1: "meta_wf Pm m1" "meta_fits Pe Pm (w_maxSegmentSize w) m1"
    and m2: "meta_wf Pm m2" "meta_fits Pe Pm (w_maxSegmentSize w) m2"
    and b: "Marshal Pm m1 = Inr b1" "Marshal Pm m2 = Inr b2" and room: "log_room w 2"
  obtains w1 w2 w3 lo' closed' cur' d where
    "AppendEntry Pe b1 False w = (Inr (w_flushDone w1), w1)" "AppendEntry Pe b2 False w1 = (Inr (w_flushDone w2), w2)"
    "flushBuffer w2 = w3" "w_flushDone w1 < w_flushDone w3" "w_flushDone w2 < w_flushDone w3" "flushed w3"
    "store_inv Pe Pm snap (f(fm_Name m1 \<mapsto> m1, fm_Name m2 \<mapsto> m2), w3) lo' closed' cur'" "same_config w w3"
    "new_entry (w_lastSequenceNo w + 1 + 1) b2 False \<in> set cur'"
    "((concat closed @ cur) @ [new_entry (w_lastSequenceNo w + 1) b1 False]) @
       [new_entry (w_lastSequenceNo w + 1 + 1) b2 False] = d @ (concat closed' @ cur')"
proof -
  have two: "log_room w (Suc 1)" using room by (simp add: numeral_2_eq_2)
  then have "log_room w 1" by (simp add: log_room_def)
  from store_started [OF P inv m1(1) b(1) m1(2) this, of False] obtain w1 lo1 closed1 cur1 d1 where
    w1: "AppendEntry Pe b1 False w = (Inr (w_flushDone w1), w1)"
    "store_inv Pe Pm snap (f(fm_Name m1 \<mapsto> m1), w1) lo1 closed1 cur1"
    "(concat closed @ cur) @ [new_entry (w_lastSequenceNo w + 1) b1 False] = d1 @ (concat closed1 @ cur1)"
    "w_lastSequenceNo w1 = w_lastSequenceNo w + 1"
    "same_config w w1" "\<forall>k. log_room w (Suc k) \<longrightarrow> log_room w1 k" by auto
  from m2(2) w1(5) have f2: "meta_fits Pe Pm (w_maxSegmentSize w1) m2" by (simp add: same_config_def)
  from two w1(6) have "log_room w1 1" by blast
  from store_started [OF P w1(2) m2(1) b(2) f2 this, of False] obtain w2 lo2 closed2 cur2 d2 where
    w2: "AppendEntry Pe b2 False w1 = (Inr (w_flushDone w2), w2)"
    "store_inv Pe Pm snap (f(fm_Name m1 \<mapsto> m1, fm_Name m2 \<mapsto> m2), w2) lo2 closed2 cur2"
    "new_entry (w_lastSequenceNo w1 + 1) b2 False \<in> set cur2"
    "(concat closed1 @ cur1) @ [new_entry (w_lastSequenceNo w1 + 1) b2 False] = d2 @ (concat closed2 @ cur2)"
    "w_flushDone w1 \<le> w_flushDone w2" "same_config w1 w2" by auto
  from store_inv_flush [OF w2(2)] obtain w3 where
    w3: "flush w2 = (None, w3)" "store_inv Pe Pm snap (f(fm_Name m1 \<mapsto> m1, fm_Name m2 \<mapsto> m2), w3) lo2 closed2 cur2"
    "flushed w3" "w_flushDone w3 = w_flushDone w2 + 1" "same_config w2 w3" by blast
  have "\<not> w_cancelled w2" using two w1(5) w2(6) by (simp add: log_room_def same_config_def)
  then have "flushBuffer w2 = w3" using w3(1) by (simp add: flushBuffer_def)
  moreover have "same_config w w3" using same_config_trans [OF same_config_trans [OF w1(5) w2(6)] w3(5)] .
  moreover have "((concat closed @ cur) @ [new_entry (w_lastSequenceNo w + 1) b1 False]) @
       [new_entry (w_lastSequenceNo w + 1 + 1) b2 False] = (d1 @ d2) @ (concat closed2 @ cur2)"
    using w2(4) w1(3,4) by simp
  moreover have "w_flushDone w1 < w_flushDone w3" "w_flushDone w2 < w_flushDone w3" using w2(5) w3(4) by simp_all
  moreover have "new_entry (w_lastSequenceNo w + 1 + 1) b2 False \<in> set cur2" using w2(3) w1(4) by simp
  ultimately show ?thesis using that [OF w1(1) w2(1) _ _ _ w3(3,2)] by blast
qed

text \<open>The two calls, woken by one flush, and not yet at the map.\<close>

lemma two_adds_steps:
  assumes "AppendEntry Pe b1 False w = (Inr (w_flushDone w1), w1)" "AppendEntry Pe b2 False w1 = (Inr (w_flushDone w2), w2)"
    and "Marshal Pm m1 = Inr b1" "Marshal Pm m2 = Inr b2"
  shows "store_steps Pe Pm order (store_start (f, w))
    \<lparr>ss_files = f, ss_wal = flushBuffer w2, ss_pending =
       [\<lparr>po_done = w_flushDone w1, po_seq = w_lastSequenceNo w1, po_key = fm_Name m1, po_value = Some m1\<rparr>,
        \<lparr>po_done = w_flushDone w2, po_seq = w_lastSequenceNo w2, po_key = fm_Name m2, po_value = Some m2\<rparr>],
     ss_snap = None, ss_looked = []\<rparr>"
proof -
  let ?p1 = "\<lparr>po_done = w_flushDone w1, po_seq = w_lastSequenceNo w1, po_key = fm_Name m1, po_value = Some m1\<rparr>"
  let ?p2 = "\<lparr>po_done = w_flushDone w2, po_seq = w_lastSequenceNo w2, po_key = fm_Name m2, po_value = Some m2\<rparr>"
  let ?s1 = "\<lparr>ss_files = f, ss_wal = w1, ss_pending = [?p1], ss_snap = None, ss_looked = []\<rparr>"
  let ?s2 = "\<lparr>ss_files = f, ss_wal = w2, ss_pending = [?p1, ?p2], ss_snap = None, ss_looked = []\<rparr>"
  have a: "add_begin Pe Pm m1 (store_start (f, w)) = ?s1" "add_begin Pe Pm m2 ?s1 = ?s2"
    using assms by (simp_all add: add_begin_def store_start_def GetName_def)
  have s1: "store_step Pe Pm order (store_start (f, w)) ?s1" using AddBegin [of Pe Pm order "store_start (f, w)" m1] a by simp
  have s2: "store_step Pe Pm order ?s1 ?s2" using AddBegin [of Pe Pm order ?s1 m2] a by simp
  have "store_steps Pe Pm order (store_start (f, w)) (?s2\<lparr>ss_wal := flushBuffer (ss_wal ?s2)\<rparr>)"
    using store_steps_2 [OF s1 s2] FlushBuffer by (rule rtranclp.rtrancl_into_rtrancl)
  then show ?thesis by simp
qed

text \<open>Ending two waiting calls in either order.\<close>

lemma two_ends_steps:
  assumes "ss_pending s = [p, q] \<or> ss_pending s = [q, p]" "p \<noteq> q"
    and "AppendEntry_returns (po_done p) (ss_wal s)" "AppendEntry_returns (po_done q) (ss_wal s)"
  shows "store_steps Pe Pm order s
    (s\<lparr>ss_files := (ss_files s)(po_key p := po_value p, po_key q := po_value q), ss_pending := []\<rparr>)"
proof -
  have s1: "store_step Pe Pm order s (op_end p s)" using assms by (intro OpEnd) auto
  have s2: "store_step Pe Pm order (op_end p s) (op_end q (op_end p s))"
    using assms by (intro OpEnd) (auto simp: op_end_def)
  have "op_end q (op_end p s) =
      s\<lparr>ss_files := (ss_files s)(po_key p := po_value p, po_key q := po_value q), ss_pending := []\<rparr>"
    using assms(1,2) by (auto simp: op_end_def)
  with store_steps_2 [OF s1 s2] show ?thesis by simp
qed

text \<open>A segment that cannot hold two entries does not: the later one is alone.\<close>

lemma last_alone:
  assumes "wal_rep P w lo closed cur" "unat (w_maxSegmentSize w) \<le> length (entry_bytes P e1) + length (entry_bytes P e2)"
    and "(xs @ [e1]) @ [e2] = d @ (concat closed @ cur)" "e2 \<in> set cur"
  shows "cur = [e2]"
proof -
  from assms(4) have ne: "cur \<noteq> []" by auto
  then obtain ys y where cur: "cur = ys @ [y]" by (metis rev_exhaust)
  with assms(3) have y: "y = e2" and ys: "xs @ [e1] = (d @ concat closed) @ ys" by simp_all
  have "ys = []"
  proof (rule ccontr)
    assume "ys \<noteq> []"
    then obtain zs z where zs: "ys = zs @ [z]" by (metis rev_exhaust)
    with ys have "z = e1" by simp
    with cur y zs have "length (wl.frames P cur) \<ge> length (entry_bytes P e1) + length (entry_bytes P e2)" by simp
    with assms(1,2) show False by (simp add: wal_rep_def wal_store_def)
  qed
  with cur y show ?thesis by simp
qed

text \<open>Two additions whose entries do not fit one segment: the second is alone in the current one.\<close>

lemma started_in_two_segments:
  assumes P: "proto_ok Pe" "proto_ok Pm" and inv: "store_inv Pe Pm snap (f, w) lo closed cur"
    and kept: "snapshot_kept Pm snap w"
    and m1: "meta_wf Pm m1" "meta_fits Pe Pm (w_maxSegmentSize w) m1"
    and m2: "meta_wf Pm m2" "meta_fits Pe Pm (w_maxSegmentSize w) m2"
    and b: "Marshal Pm m1 = Inr b1" "Marshal Pm m2 = Inr b2" and room: "log_room w 2"
    and big: "\<And>n n'. unat (w_maxSegmentSize w) \<le>
      length (entry_bytes Pe (new_entry n b1 False)) + length (entry_bytes Pe (new_entry n' b2 False))"
  obtains w1 w2 w3 lo' closed' n where
    "AppendEntry Pe b1 False w = (Inr (w_flushDone w1), w1)" "AppendEntry Pe b2 False w1 = (Inr (w_flushDone w2), w2)"
    "flushBuffer w2 = w3" "w_flushDone w1 < w_flushDone w3" "w_flushDone w2 < w_flushDone w3" "flushed w3"
    "wal_rep Pe w3 lo' closed' [new_entry n b2 False]" "snapshot_kept Pm snap w3" "\<not> w_cancelled w3"
proof -
  from started_twice [OF P inv m1 m2 b room] obtain w1 w2 w3 lo1 closed1 cur1 d where
    w: "AppendEntry Pe b1 False w = (Inr (w_flushDone w1), w1)" "AppendEntry Pe b2 False w1 = (Inr (w_flushDone w2), w2)"
    "flushBuffer w2 = w3" "w_flushDone w1 < w_flushDone w3" "w_flushDone w2 < w_flushDone w3" "flushed w3"
    "store_inv Pe Pm snap (f(fm_Name m1 \<mapsto> m1, fm_Name m2 \<mapsto> m2), w3) lo1 closed1 cur1" "same_config w w3"
    "new_entry (w_lastSequenceNo w + 1 + 1) b2 False \<in> set cur1"
    "((concat closed @ cur) @ [new_entry (w_lastSequenceNo w + 1) b1 False]) @
       [new_entry (w_lastSequenceNo w + 1 + 1) b2 False] = d @ (concat closed1 @ cur1)" by metis
  from w(7) have rep: "wal_rep Pe w3 lo1 closed1 cur1" by (simp add: store_inv_def)
  from big w(8) have "unat (w_maxSegmentSize w3) \<le> length (entry_bytes Pe (new_entry (w_lastSequenceNo w + 1) b1 False)) +
      length (entry_bytes Pe (new_entry (w_lastSequenceNo w + 1 + 1) b2 False))" by (simp add: same_config_def)
  from last_alone [OF rep this w(10,9)] have "cur1 = [new_entry (w_lastSequenceNo w + 1 + 1) b2 False]" .
  moreover have "wal_rep Pe w lo closed cur" using inv by (simp add: store_inv_def)
  from snapshot_kept_frame [OF kept _ this rep] w(3)
    log_frame_trans [OF log_frame_trans [OF AppendEntry_frame [OF w(1)] AppendEntry_frame [OF w(2)]] flushBuffer_frame]
  have "snapshot_kept Pm snap w3" by simp
  moreover have "\<not> w_cancelled w3" using room w(8) by (simp add: log_room_def same_config_def)
  ultimately show ?thesis using that [OF w(1-6)] rep by blast
qed

text \<open>A snapshot that nothing comes between, and the run of two additions with one between their points.\<close>

lemma snapshot_steps:
  "ss_snap s = None \<Longrightarrow> store_steps Pe Pm order s
     (s\<lparr>ss_wal := snd (snapshotRunner Pe (file_snapshotable Pe Pm order) (ss_files s, ss_wal s))\<rparr>)"
  using store_steps_2 [OF SnapBegin SnapEnd, of Pe Pm order s] by (simp only: snap_begin_end)

lemma adds_snapshot_steps:
  assumes w: "AppendEntry Pe b1 False w = (Inr (w_flushDone w1), w1)" "AppendEntry Pe b2 False w1 = (Inr (w_flushDone w2), w2)"
    "flushBuffer w2 = w3" "w_flushDone w1 < w_flushDone w3" "w_flushDone w2 < w_flushDone w3" "\<not> w_cancelled w3"
    and b: "Marshal Pm m1 = Inr b1" "Marshal Pm m2 = Inr b2" "fm_Name m1 \<noteq> fm_Name m2"
    and w4: "takeSnapshot Pe (file_snapshotable Pe Pm order) (f, w3) = (None, (f, w4))" "w_flushDone w4 = w_flushDone w3"
  shows "store_steps Pe Pm order (store_start (f, w))
    \<lparr>ss_files = f(fm_Name m1 \<mapsto> m1, fm_Name m2 \<mapsto> m2), ss_wal = w4, ss_pending = [], ss_snap = None, ss_looked = []\<rparr>"
proof -
  let ?p1 = "\<lparr>po_done = w_flushDone w1, po_seq = w_lastSequenceNo w1, po_key = fm_Name m1, po_value = Some m1\<rparr>"
  let ?p2 = "\<lparr>po_done = w_flushDone w2, po_seq = w_lastSequenceNo w2, po_key = fm_Name m2, po_value = Some m2\<rparr>"
  let ?s = "\<lparr>ss_files = f, ss_wal = w3, ss_pending = [?p1, ?p2], ss_snap = None, ss_looked = []\<rparr>"
  have "store_steps Pe Pm order ?s (?s\<lparr>ss_wal := w4\<rparr>)"
    using snapshot_steps [of ?s Pe Pm order] w4(1) w(6) by (simp add: snapshotRunner_def)
  with two_adds_steps [OF w(1,2) b(1,2), of order f] w(3)
  have run: "store_steps Pe Pm order (store_start (f, w)) (?s\<lparr>ss_wal := w4\<rparr>)" by (simp add: rtranclp_trans)
  have "store_steps Pe Pm order (?s\<lparr>ss_wal := w4\<rparr>) (?s\<lparr>ss_wal := w4,
      ss_files := (ss_files ?s)(po_key ?p1 := po_value ?p1, po_key ?p2 := po_value ?p2), ss_pending := []\<rparr>)"
    using two_ends_steps [of "?s\<lparr>ss_wal := w4\<rparr>" ?p1 ?p2] b(3) w(4,5) w4(2) by (auto simp: AppendEntry_returns_def)
  from rtranclp_trans [OF run this] show ?thesis by simp
qed

section \<open>Properties\<close>

text \<open>C6: take a run in which no call appends while another of the same name waits, every record fits a
  segment of the log, and a snapshot writes the map only when every call that waits then has appended
  after the snapshot read the sequence number (\<open>calm_step\<close>; nothing in the code enforces this, and
  C21 and C22 are runs without it that end otherwise). Then, however the calls overlap, and with
  snapshots that read their numbers at one moment and write the map, as the calls have meanwhile
  changed it, at a later one, the snapshot on the disk and the log say at every moment what the map
  will be once the waiting calls have ended, so that this is what a restart recovers; when none is
  waiting it is the map itself.\<close>

theorem store_concurrent_consistent:
  assumes "proto_ok Pe" "proto_ok Pm" "order_ok order" "store_inv Pe Pm snap (f, w) lo closed cur"
    and "snapshot_kept Pm snap w" "(calm_step Pe Pm order)\<^sup>*\<^sup>* (store_start (f, w)) s"
  shows "(\<exists>snap lo closed cur. snapshot_kept Pm snap (ss_wal s) \<and> store_inv Pe Pm snap (settled s, ss_wal s) lo closed cur) \<and>
    (ss_pending s = [] \<longrightarrow> settled s = ss_files s)"
proof -
  have "conc_inv Pe Pm (w_lastSequenceNo w) s"
    using assms(6) conc_inv_start [OF assms(4,5)] by (rule conc_inv_run [OF assms(1-3)]) simp
  then obtain snap' lo' closed' cur' where "logged_state Pe Pm (w_lastSequenceNo w) s snap' lo' closed' cur'"
    unfolding conc_inv_def by blast
  from logged_stateD(1,2) [OF this] show ?thesis by (auto simp: settled_def)
qed

text \<open>C21: two additions of the same name at the same time: both return nil, the map keeps one record and
  the log ends with the other, which a restart therefore brings back.\<close>

theorem same_name_additions_diverge:
  assumes "proto_ok Pe" "proto_ok Pm" "store_inv Pe Pm snap (f, w) lo closed cur" "fm_Name m1 = fm_Name m2" "m1 \<noteq> m2"
    and "meta_wf Pm m1" "meta_fits Pe Pm (w_maxSegmentSize w) m1" "meta_wf Pm m2" "meta_fits Pe Pm (w_maxSegmentSize w) m2"
    and "log_room w 2"
  shows "\<exists>s lo' closed' cur'. store_steps Pe Pm order (store_start (f, w)) s \<and> ss_pending s = [] \<and>
    ss_files s = f(fm_Name m2 \<mapsto> m1) \<and> flushed (ss_wal s) \<and>
    store_inv Pe Pm snap (f(fm_Name m2 \<mapsto> m2), ss_wal s) lo' closed' cur'"
proof -
  from assms(6,8) obtain b1 b2 where b: "Marshal Pm m1 = Inr b1" "Marshal Pm m2 = Inr b2" by (auto elim!: meta_wfE)
  from started_twice [OF assms(1-3,6-9) b assms(10)] obtain w1 w2 w3 lo' closed' cur' where
    w: "AppendEntry Pe b1 False w = (Inr (w_flushDone w1), w1)" "AppendEntry Pe b2 False w1 = (Inr (w_flushDone w2), w2)"
    "flushBuffer w2 = w3" "w_flushDone w1 < w_flushDone w3" "w_flushDone w2 < w_flushDone w3" "flushed w3"
    "store_inv Pe Pm snap (f(fm_Name m1 \<mapsto> m1, fm_Name m2 \<mapsto> m2), w3) lo' closed' cur'" by metis
  let ?p1 = "\<lparr>po_done = w_flushDone w1, po_seq = w_lastSequenceNo w1, po_key = fm_Name m1, po_value = Some m1\<rparr>"
  let ?p2 = "\<lparr>po_done = w_flushDone w2, po_seq = w_lastSequenceNo w2, po_key = fm_Name m2, po_value = Some m2\<rparr>"
  let ?s = "\<lparr>ss_files = f, ss_wal = w3, ss_pending = [?p1, ?p2], ss_snap = None, ss_looked = []\<rparr>"
  have r: "AppendEntry_returns (po_done ?p1) (ss_wal ?s)" "AppendEntry_returns (po_done ?p2) (ss_wal ?s)"
    using w(4,5) by (simp_all add: AppendEntry_returns_def)
  have run: "store_steps Pe Pm order (store_start (f, w)) ?s"
    using two_adds_steps [OF w(1,2) b, of order f] w(3) by simp
  have "store_steps Pe Pm order ?s (?s\<lparr>ss_files := (ss_files ?s)(po_key ?p2 := po_value ?p2, po_key ?p1 := po_value ?p1),
      ss_pending := []\<rparr>)"
    by (rule two_ends_steps) (use assms(5) r in auto)
  from rtranclp_trans [OF run this] assms(4) w(6,7) show ?thesis by (intro exI conjI) (assumption | simp)+
qed

text \<open>C22: a snapshot between the two points of a call loses its addition: when the log has moved to the next
  segment, the snapshot, taken without the record, deletes the segment with its entry. The call
  returns nil, the map has the record, and a restart does not bring it back.\<close>

theorem snapshot_loses_addition:
  assumes "proto_ok Pe" "proto_ok Pm" "order_ok order" "store_inv Pe Pm snap (f, w) lo closed cur" "snapshot_kept Pm snap w"
    and "meta_wf Pm m1" "meta_fits Pe Pm (w_maxSegmentSize w) m1" "meta_wf Pm m2" "meta_fits Pe Pm (w_maxSegmentSize w) m2"
    and "Marshal Pm m1 = Inr b1" "Marshal Pm m2 = Inr b2" "log_room w 2" "fm_Name m1 \<noteq> fm_Name m2"
    and "\<And>n n'. unat (w_maxSegmentSize w) \<le>
      length (entry_bytes Pe (new_entry n b1 False)) + length (entry_bytes Pe (new_entry n' b2 False))"
  shows "\<exists>s n. store_steps Pe Pm order (store_start (f, w)) s \<and> ss_pending s = [] \<and>
    ss_files s = f(fm_Name m1 \<mapsto> m1, fm_Name m2 \<mapsto> m2) \<and> flushed (ss_wal s) \<and>
    snapshot_on_disk Pm f (w_disk (ss_wal s)) \<and> ReadAllEntries Pe (ss_wal s) = Inr [new_entry n b2 False] \<and>
    (\<forall>getwd disks wc. restartable Pe Pm getwd disks wc (ss_wal s) f [new_entry n b2 False] \<longrightarrow>
       (\<exists>w0 w1. InitWALwithConfig Pe getwd disks wc = (None, w0) \<and>
          FileStore_EnableSnapshots Pe Pm order (NewFileStore w0) = (Return None, (f(fm_Name m2 \<mapsto> m2), w1))))"
proof -
  from started_in_two_segments [OF assms(1,2,4-12,14)] obtain w1 w2 w3 lo1 closed1 n where
    w: "AppendEntry Pe b1 False w = (Inr (w_flushDone w1), w1)" "AppendEntry Pe b2 False w1 = (Inr (w_flushDone w2), w2)"
    "flushBuffer w2 = w3" "w_flushDone w1 < w_flushDone w3" "w_flushDone w2 < w_flushDone w3" "flushed w3"
    "wal_rep Pe w3 lo1 closed1 [new_entry n b2 False]" "snapshot_kept Pm snap w3" "\<not> w_cancelled w3" by metis
  let ?e = "new_entry n b2 False" and ?f = "f(fm_Name m1 \<mapsto> m1, fm_Name m2 \<mapsto> m2)"
  have f: "store_ok Pm f" using assms(4) by (simp add: store_inv_def)
  from w(8) have "fs_node (w_disk w3) snapshotTmp = None" "fs_node (w_disk w3) SnapshotFile \<noteq> Some Dir"
    by (auto simp: snapshot_kept_def snapshot_on_disk_def fs_Open_def split: option.splits node.splits if_splits)
  from wal_snapshot_taken [OF assms(1-3) w(7) f this] obtain w4 where
    w4: "takeSnapshot Pe (file_snapshotable Pe Pm order) (f, w3) = (None, (f, w4))"
    "wal_rep Pe w4 (lo1 + length closed1) [] [?e]" "w_writer w4 = w_writer w3" "w_flushDone w4 = w_flushDone w3"
    "snapshot_on_disk Pm f (w_disk w4)" using snapshot_file_on_disk by blast
  from w(6) w4(3) have fl: "flushed w4" by (simp add: flushed_def)
  have steps: "store_steps Pe Pm order (store_start (f, w)) \<lparr>ss_files = ?f, ss_wal = w4, ss_pending = [], ss_snap = None, ss_looked = []\<rparr>"
    using adds_snapshot_steps [OF w(1-5,9) assms(10,11,13) w4(1,4)] .
  have op: "entry_op Pm ?e = Some (fm_Name m2, Some m2)" using delete_entry_op [OF assms(2,11)] by simp
  have ok: "list_all (entry_meta_ok Pm) (concat [] @ [?e])"
    using proto_okD [OF assms(2,11)] assms(8) by (simp add: entry_meta_ok_def new_entry_def)
  have "\<exists>w0 w1. InitWALwithConfig Pe getwd disks wc = (None, w0) \<and>
      FileStore_EnableSnapshots Pe Pm order (NewFileStore w0) = (Return None, (f(fm_Name m2 \<mapsto> m2), w1))"
    if "restartable Pe Pm getwd disks wc w4 f [?e]" for getwd disks wc
    using restart_log [OF assms(1,2) w4(2) fl ok f w4(5), of getwd disks wc order] that op by (auto simp: effect_def)
  moreover have "ReadAllEntries Pe w4 = Inr [?e]" using ReadAllEntries_rep [OF assms(1) w4(2) fl] by simp
  ultimately show ?thesis using steps fl w4(5)
    by (intro exI [of _ "\<lparr>ss_files = ?f, ss_wal = w4, ss_pending = [], ss_snap = None, ss_looked = []\<rparr>"] exI [of _ n]) simp
qed

section \<open>Witnesses\<close>

lemma demo_kept: "snapshot_kept demo_codec Map.empty (demo_wal sample_entry demo_log)"
proof -
  have "seg_name 1 \<noteq> snapshotTmp" "SnapshotFile \<noteq> snapshotTmp"
    by (simp_all add: seg_name_1 [unfolded One_nat_def] snapshotTmp_def generateSnapshotFileName_def SnapshotFile_def)
  with demo_snapshot show ?thesis by (simp add: snapshot_kept_def demo_nodes)
qed

lemma demo_room2: "log_room (demo_wal sample_entry demo_log) 2"
  by (simp add: log_room_def demo_fields demo_log_def)

lemma store_concurrent_consistent_witness:
  "\<exists>s. (calm_step sample_entry demo_codec demo_order)\<^sup>*\<^sup>*
       (store_start ([''a'' \<mapsto> demo_meta 2], demo_wal sample_entry demo_log)) s \<and>
     s = add_begin sample_entry demo_codec (demo_meta 1) (store_start ([''a'' \<mapsto> demo_meta 2], demo_wal sample_entry demo_log)) \<and>
     (\<exists>snap lo closed cur. snapshot_kept demo_codec snap (ss_wal s) \<and>
        store_inv sample_entry demo_codec snap (settled s, ss_wal s) lo closed cur)"
proof -
  let ?s0 = "store_start ([''a'' \<mapsto> demo_meta 2], demo_wal sample_entry demo_log)"
  have "calm_step sample_entry demo_codec demo_order ?s0 (add_begin sample_entry demo_codec (demo_meta 1) ?s0)"
    by (rule CalmAdd) (simp_all add: demo_meta_wf demo_fits demo_fields demo_room [unfolded One_nat_def] store_start_def)
  then have r: "(calm_step sample_entry demo_codec demo_order)\<^sup>*\<^sup>* ?s0 (add_begin sample_entry demo_codec (demo_meta 1) ?s0)"
    by (rule r_into_rtranclp)
  from store_concurrent_consistent [OF sample_entry_ok demo_codec_ok demo_order_ok demo_store_inv demo_kept r] r
  show ?thesis by blast
qed

lemma same_name_additions_diverge_witness:
  "\<exists>s lo' closed' cur'. store_steps sample_entry demo_codec demo_order
       (store_start ([''a'' \<mapsto> demo_meta 2], demo_wal sample_entry demo_log)) s \<and> ss_pending s = [] \<and>
    ss_files s = [''a'' \<mapsto> demo_meta 2](fm_Name (demo_meta 2) \<mapsto> demo_meta 1) \<and> flushed (ss_wal s) \<and>
    store_inv sample_entry demo_codec Map.empty ([''a'' \<mapsto> demo_meta 2](fm_Name (demo_meta 2) \<mapsto> demo_meta 2), ss_wal s) lo' closed' cur'"
  by (rule same_name_additions_diverge [OF sample_entry_ok demo_codec_ok demo_store_inv _ _ demo_meta_wf(1) _ demo_meta_wf(2) _ demo_room2])
    (simp_all add: demo_meta_def demo_fields demo_fits [unfolded demo_meta_def])

text \<open>A log whose segments hold one entry each.\<close>

definition small_wal :: WAL where
  "small_wal = (demo_wal sample_entry [])\<lparr>w_maxSegmentSize := 30\<rparr>"

definition demo_file :: "string \<Rightarrow> FileMetadata" where
  "demo_file n = \<lparr>fm_Size = 1, fm_Name = n, fm_ChunkInfo = Map.empty\<rparr>"

definition small_codec :: "FileMetadata proto" where
  "small_codec = sample_meta [demo_file ''a'', demo_file ''b'']"

lemma small_Marshal: "Marshal small_codec (demo_file ''a'') = Inr [1]" "Marshal small_codec (demo_file ''b'') = Inr [2]"
  by (simp_all add: small_codec_def sample_meta_def demo_file_def)

lemma small_codec_ok: "proto_ok small_codec"
  by (simp add: small_codec_def sample_meta_ok)

lemma small_wal_ok: "store_inv sample_entry small_codec Map.empty (Map.empty, small_wal) 1 [] []"
  "snapshot_kept small_codec Map.empty small_wal" "log_room small_wal 2" "w_maxSegmentSize small_wal = 30"
proof -
  have rep: "wal_rep sample_entry (demo_wal sample_entry []) 1 [] []" by (rule demo_rep) (simp_all add: numbered_def)
  then have "wal_rep sample_entry small_wal 1 [] []"
    by (auto simp: wal_rep_def wal_store_def small_wal_def demo_fields)
  then show "store_inv sample_entry small_codec Map.empty (Map.empty, small_wal) 1 [] []"
    by (intro store_inv_no_snapshot) (simp_all add: small_wal_def demo_fields)
  have "seg_name 1 \<noteq> snapshotTmp" "SnapshotFile \<noteq> snapshotTmp"
    by (simp_all add: seg_name_1 [unfolded One_nat_def] snapshotTmp_def generateSnapshotFileName_def SnapshotFile_def)
  then show "snapshot_kept small_codec Map.empty small_wal"
    using demo_disk_open [of sample_entry "[]"] small_codec_ok
    by (auto simp: snapshot_kept_def small_wal_def demo_nodes snapshot_on_disk_def image_def intro!: exI [of _ "[]"])
  show "log_room small_wal 2" "w_maxSegmentSize small_wal = 30" by (simp_all add: log_room_def small_wal_def demo_fields)
qed

lemma small_records:
  "meta_wf small_codec (demo_file ''a'')" "meta_fits sample_entry small_codec 30 (demo_file ''a'')"
  "meta_wf small_codec (demo_file ''b'')" "meta_fits sample_entry small_codec 30 (demo_file ''b'')"
  by (simp_all add: meta_wf_def meta_fits_def small_Marshal sample_entry_def new_entry_def)

lemma snapshot_loses_addition_witness:
  "\<exists>s n. store_steps sample_entry small_codec demo_order (store_start (Map.empty, small_wal)) s \<and> ss_pending s = [] \<and>
    ss_files s = [''a'' \<mapsto> demo_file ''a'', ''b'' \<mapsto> demo_file ''b''] \<and>
    snapshot_on_disk small_codec Map.empty (w_disk (ss_wal s)) \<and>
    ReadAllEntries sample_entry (ss_wal s) = Inr [new_entry n [2] False]"
proof -
  have "unat (w_maxSegmentSize small_wal) \<le> length (entry_bytes sample_entry (new_entry n [1] False)) +
      length (entry_bytes sample_entry (new_entry n' [2] False))" for n n'
    by (simp add: small_wal_ok(4) entry_bytes_def sample_entry_def new_entry_def)
  from snapshot_loses_addition [OF sample_entry_ok small_codec_ok demo_order_ok small_wal_ok(1,2)
      small_records(1) _ small_records(3) _ small_Marshal small_wal_ok(3) _ this]
  show ?thesis using small_records small_wal_ok(4) by (auto simp: demo_file_def)
qed

end
