(* ===== verification/Store_Crash.thy ===== *)
theory Store_Crash
  imports Store_Concurrency
begin

text \<open>
  The server killed while calls are running: the files stay as they are, the buffer of the log and
  the map are gone. What the server finds when it is started again, provided that what had been
  written of the log does not end inside an entry, so that \<open>ReadAllEntries\<close> succeeds on it.
\<close>

section \<open>The log without its buffer\<close>




section \<open>What is lost\<close>





section \<open>Restarting after a crash\<close>


section \<open>A segment that is alone and empty\<close>

text \<open>
  A snapshot that begins between the rotation to a segment and the next flush removes all segments
  before it, while the new one is still empty on the disk. If the server is killed before the flush
  it cannot be started again: looking for the last sequence number, \<open>InitWAL\<close> wants to open the
  segment before the empty one.
\<close>

lemma lone_empty_segment_stops_restart:
  assumes ok: "config_ok wc" and disk: "log_disk (disks (w_dir (configured getwd wc))) lo [[]]" and lo: "1 < lo"
  shows "fst (InitWALwithConfig P getwd disks wc) \<noteq> None"
proof -
  let ?w = "(configured getwd wc)\<lparr>w_disk := disks (w_dir (configured getwd wc))\<rparr>"
  have d: "log_disk (w_disk ?w) lo [[]]" using disk by simp
  have lo2: "lo < 2 ^ 63" using log_diskD(4) [OF d] by simp
  have seg: "findLastSegmentNumber ?w = Inr (word_of_nat lo)" using findLastSegmentNumber_disk [OF d] by simp
  have op: "fs_Open (seg_name lo) (w_disk ?w) = Inr []" using fs_Open_log_disk [OF d, of 0] by simp
  have "seg_name (lo - 1) \<noteq> seg_name lo" using seg_name_inject [of "lo - 1" lo] lo lo2 by simp
  then have "fs_node (w_disk ?w) (seg_name (lo - 1)) = None"
    using log_diskD(7) [OF d HasPrefix_seg_name, of "lo - 1"] by (cases "fs_node (w_disk ?w) (seg_name (lo - 1))") auto
  then have "\<exists>e. fs_Open (seg_name (lo - 1)) (w_disk ?w) = Inl e" by (auto simp: fs_Open_def)
  moreover have "(word_of_nat (lo - 1) :: u64) \<noteq> 0"
  proof
    assume "(word_of_nat (lo - 1) :: u64) = 0"
    then have "unat (word_of_nat (lo - 1) :: u64) = 0" by (simp only: unat_0)
    with unat_word_of_nat64 [of "lo - 1"] lo lo2 show False by simp
  qed
  moreover have empty: "findLastRecord P [] = Inl ErrReadEmptyLogFile"
    by (simp add: findLastRecord_def findLastRecord_loop.simps [of P "[]"])
  ultimately have "\<exists>e. findLastSequenceNumberInLogFile P (seg_name lo) [] (w_disk ?w) = Inl e"
    using getPreviousSegmentNo_seg_name [OF _ lo2] lo
    by (auto simp: findLastSequenceNumberInLogFile.simps [of P _ "[]"] empty seg_name_def)
  then have "fst (reopen_last_segment P ?w) \<noteq> None"
    using op by (auto simp: reopen_last_segment_def seg Let_def seg_name_def)
  moreover have "checkPreExistingWALFiles ?w" using checkPreExisting_disk [OF d] by simp
  ultimately show ?thesis unfolding InitWALwithConfig_eq [OF ok] Let_def by simp
qed

section \<open>Witness\<close>



end
