(* ===== verification/Adaptors.thy ===== *)
theory Adaptors
  imports File_System
begin

text \<open>
  \<open>internal/adaptors/writer_at.go\<close>: the adapter that turns an \<open>io.WriterAt\<close> (the client's
  output file) and a start offset into an \<open>io.Writer\<close>. Several adapters on the same file write
  disjoint regions; \<open>adapter_view\<close> is the region written since the adapter was created.
\<close>

record WriterAtAdapter =
  wa_w :: string
  wa_off :: int

definition NewWriterAtAdapter :: "string \<Rightarrow> int \<Rightarrow> WriterAtAdapter" where
  "NewWriterAtAdapter w off = \<lparr>wa_w = w, wa_off = off\<rparr>"

text \<open>\<open>(*os.File).WriteAt\<close> refuses a negative offset.\<close>

definition os_WriteAt :: "string \<Rightarrow> int \<Rightarrow> fs write_fn" where
  "os_WriteAt nm off p s = (if off < 0 then (0, Some ErrIO, s) else fs_WriteAt nm (nat off) p s)"

definition WriterAtAdapter_Write :: "(WriterAtAdapter \<times> fs) write_fn" where
  "WriterAtAdapter_Write p st =
     (case st of (a, s) \<Rightarrow>
        let (n, err, s') = os_WriteAt (wa_w a) (wa_off a) p s
        in (n, err, (a\<lparr>wa_off := wa_off a + int n\<rparr>, s')))"

definition adapter_ok :: "nat \<Rightarrow> string \<Rightarrow> WriterAtAdapter \<times> fs \<Rightarrow> bool" where
  "adapter_ok base nm st \<longleftrightarrow> wa_w (fst st) = nm \<and> is_file (snd st) nm \<and>
     (wa_off (fst st) = int base \<or>
      int base \<le> wa_off (fst st) \<and> nat (wa_off (fst st)) \<le> length (file_data nm (snd st)))"

definition adapter_view :: "nat \<Rightarrow> string \<Rightarrow> WriterAtAdapter \<times> fs \<Rightarrow> bytes" where
  "adapter_view base nm st =
     take (nat (wa_off (fst st)) - base) (drop base (file_data nm (snd st)))"

lemma region_write_at:
  assumes "base \<le> off" "off = base \<or> off \<le> length d"
  shows "take (off + length p - base) (drop base (write_at off p d)) = take (off - base) (drop base d) @ p"
proof -
  have "off - base + base = off" using assms by simp
  with assms show ?thesis
    by (auto simp: write_at_def take_drop)
qed

lemma WriterAtAdapter_step:
  assumes ok: "adapter_ok base nm st" and w: "WriterAtAdapter_Write p st = (n, e, st')"
  shows "n \<le> length p \<and> (e = None \<longrightarrow> n = length p) \<and> adapter_ok base nm st' \<and>
    adapter_view base nm st' = adapter_view base nm st @ take n p \<and>
    (room (snd st) nm = None \<longrightarrow> e = None \<and> room (snd st') nm = None)"
proof -
  obtain a s where st: "st = (a, s)" by (cases st)
  obtain off where off: "wa_off a = int off" "base \<le> off"
      "off = base \<or> off \<le> length (file_data nm s)"
    using ok unfolding st adapter_ok_def by (auto intro: that [of "nat (wa_off a)"])
  from w off(1) ok obtain s' where wr: "fs_WriteAt nm off p s = (n, e, s')"
    and st': "st' = (a\<lparr>wa_off := int (off + n)\<rparr>, s')"
    by (auto simp: st WriterAtAdapter_Write_def os_WriteAt_def adapter_ok_def Let_def split: prod.splits)
  from ok obtain y where f: "fs_node s nm = Some (File (file_data nm s) y)"
    by (auto simp: st adapter_ok_def is_file_iff)
  from fs_WriteAt_file [OF wr f] have n: "n \<le> length p" "e = None \<longrightarrow> n = length p"
    and g: "fs_node s' nm = Some (File (if n = 0 then file_data nm s
              else write_at off (take n p) (file_data nm s)) y)" by blast+
  then have d: "file_data nm s' = (if n = 0 then file_data nm s
              else write_at off (take n p) (file_data nm s))" by (simp add: file_data_def)
  have "adapter_view base nm st' = adapter_view base nm st @ take n p"
    using region_write_at [OF off(2,3), of "take n p"] d n(1) st st' off(1)
    by (cases "n = 0") (simp_all add: adapter_view_def min_absorb2 nat_int_add)
  moreover have "adapter_ok base nm st'"
    using ok off n(1) d g st st' by (auto simp: adapter_ok_def length_write_at is_file_def min_absorb2)
  moreover have "room s nm = None \<longrightarrow> e = None \<and> room s' nm = None"
    using fs_WriteAt_healthy [OF _ wr] by auto
  ultimately show ?thesis using n st st' by simp
qed

interpretation aw: io_writer WriterAtAdapter_Write "adapter_ok base nm"
    "\<lambda>st. room (snd st) nm = None" "adapter_view base nm"
  for base nm
  by unfold_locales (blast dest: WriterAtAdapter_step)+

lemma adapter_new [simp]:
  "is_file s nm \<Longrightarrow> adapter_ok base nm (NewWriterAtAdapter nm (int base), s)"
  "adapter_view base nm (NewWriterAtAdapter nm (int base), s) = []"
  by (simp_all add: adapter_ok_def adapter_view_def NewWriterAtAdapter_def)

end
