(* ===== verification/Meta_Server.thy ===== *)
theory Meta_Server
  imports Store_System Protocol
begin

text \<open>
  The metadata server, \<open>internal/metaserver\<close>: the handler of one connection over a \<open>MetaStore\<close>
  and the message protocol, and its start-up. As in the chunk server the incoming half of the
  connection is the list of bytes the peer sends before it closes. The interface \<open>MetaStore\<close> is a
  record of its methods; what the handler needs of an implementation is the locale
  \<open>meta_store\<close>, and the file store over the write-ahead log provides it.
\<close>

section \<open>The handler\<close>

record 's MetaStore =
  ms_Add :: "FileMetadata \<Rightarrow> bool \<Rightarrow> 's \<Rightarrow> ret \<times> 's"
  ms_Lookup :: "string \<Rightarrow> 's \<Rightarrow> FileMetadata option"
  ms_Delete :: "string \<Rightarrow> 's \<Rightarrow> ret \<times> 's"

record 's MetaServerHandler =
  mh_metastore :: "'s MetaStore"
  mh_codec :: "FileMetadata proto"

definition NewMetaServerHandler :: "'s MetaStore \<Rightarrow> FileMetadata proto \<Rightarrow> 's MetaServerHandler" where
  "NewMetaServerHandler metastore Pm = \<lparr>mh_metastore = metastore, mh_codec = Pm\<rparr>"

definition meta_encode :: "byte \<Rightarrow> bytes \<Rightarrow> conn \<Rightarrow> go_error option \<times> conn" where
  "meta_encode t b c =
     (case Encode conn_Write (NewMessage t (Some b) (word_of_nat (length b))) c of (e, left, c') \<Rightarrow> (e, c'))"

definition meta_handlePing :: "bytes \<Rightarrow> conn \<Rightarrow> go_error option \<times> conn" where
  "meta_handlePing r c = meta_encode TypePingResponse r c"

text \<open>\<open>proto.Marshal\<close> of a nil message gives no bytes.\<close>

definition marshal_ptr :: "FileMetadata proto \<Rightarrow> FileMetadata option \<Rightarrow> go_error + bytes" where
  "marshal_ptr Pm m = (case m of None \<Rightarrow> Inr [] | Some x \<Rightarrow> Marshal Pm x)"

definition meta_handleRead :: "'s MetaServerHandler \<Rightarrow> bytes \<Rightarrow> conn \<Rightarrow> 's \<Rightarrow> go_error option \<times> conn" where
  "meta_handleRead H r c s =
     (case marshal_ptr (mh_codec H) (ms_Lookup (mh_metastore H) (string_of_bytes r) s) of
        Inl e \<Rightarrow> (Some (wrap ''failed to marshal file metadata'' e), c)
      | Inr b \<Rightarrow> meta_encode TypeReadFileResponse b c)"

definition assign_addr :: "FileMetadata \<Rightarrow> FileMetadata" where
  "assign_addr meta =
     meta\<lparr>fm_ChunkInfo := (\<lambda>k. map_option (\<lambda>ci. ci\<lparr>ci_Addr := '':5001''\<rparr>) (fm_ChunkInfo meta k))\<rparr>"

definition meta_handleWrite :: "'s MetaServerHandler \<Rightarrow> bytes \<Rightarrow> conn \<Rightarrow> 's \<Rightarrow> ret \<times> conn \<times> 's" where
  "meta_handleWrite H r c s =
     (case Unmarshal (mh_codec H) r of
        Inl e \<Rightarrow> (Return (Some e), c, s)
      | Inr meta0 \<Rightarrow>
          (let meta = assign_addr meta0 in
           case ms_Add (mh_metastore H) meta True s of
             (Blocked, s') \<Rightarrow> (Blocked, c, s')
           | (Return (Some e), s') \<Rightarrow> (Return (Some e), c, s')
           | (Return None, s') \<Rightarrow>
               (case Marshal (mh_codec H) meta of
                  Inl e \<Rightarrow> (Return (Some (wrap ''failed to marshall file metadata'' e)), c, s')
                | Inr metaBytes \<Rightarrow>
                    (case meta_encode TypeReadFileResponse metaBytes c of (e, c') \<Rightarrow> (Return e, c', s')))))"

text \<open>The result of the store's delete is dropped, unless it never comes.\<close>

definition meta_handleDelete :: "'s MetaServerHandler \<Rightarrow> bytes \<Rightarrow> 's \<Rightarrow> ret \<times> 's" where
  "meta_handleDelete H r s =
     (case ms_Delete (mh_metastore H) (string_of_bytes r) s of
        (Blocked, s') \<Rightarrow> (Blocked, s')
      | (Return e, s') \<Rightarrow> (Return None, s'))"

text \<open>The message loop, up to its return or to a call that never returns.\<close>

function meta_Handle :: "'s MetaServerHandler \<Rightarrow> bytes \<Rightarrow> conn \<Rightarrow> 's \<Rightarrow> ret \<times> conn \<times> 's" where
  "meta_Handle H inp c s =
     (case Decode inp of
        Inl e \<Rightarrow> (Return (if e = EOF then None else Some e), c, s)
      | Inr (m, r) \<Rightarrow>
          if Length m = 0 then (Return None, c, s)
          else if Type m = TypePing then
            (case meta_handlePing (payload m) c of
               (Some e, c') \<Rightarrow> (Return (Some e), c', s)
             | (None, c') \<Rightarrow> meta_Handle H (drop (unat (Length m)) r) c' s)
          else if Type m = TypeAddFile then
            (case meta_handleWrite H (payload m) c s of
               (Return None, c', s') \<Rightarrow> meta_Handle H (drop (unat (Length m)) r) c' s'
             | res \<Rightarrow> res)
          else if Type m = TypeReadFile then
            (case meta_handleRead H (payload m) c s of
               (Some e, c') \<Rightarrow> (Return (Some e), c', s)
             | (None, c') \<Rightarrow> meta_Handle H (drop (unat (Length m)) r) c' s)
          else if Type m = TypeDeleteFile then
            (case meta_handleDelete H (payload m) s of
               (Return None, s') \<Rightarrow> meta_Handle H (drop (unat (Length m)) r) c s'
             | (res, s') \<Rightarrow> (res, c, s'))
          else meta_Handle H r c s)"
  by pat_completeness auto
termination
  by (relation "measure (\<lambda>(H, inp, c, s). length inp)") (auto dest: Decode_shrinks)

declare meta_Handle.simps [simp del]

section \<open>Start-up\<close>

record MetaServerConfig =
  mc_ListenerPort :: string
  mc_ShutdownTimeout :: duration
  mc_WALConfig :: WALConfig

definition file_metastore :: "WAL_Entry proto \<Rightarrow> FileMetadata proto \<Rightarrow> FileStore MetaStore" where
  "file_metastore Pe Pm =
     \<lparr>ms_Add = AddFileMetadata Pe Pm, ms_Lookup = LookupFileMetadata, ms_Delete = DeleteFileMetadata Pe Pm\<rparr>"

text \<open>
  \<open>NewMetaServer\<close>: the log, the file store recovered from it, and the handler over the store. The
  transport it hands the handler to is modelled on its own.
\<close>

definition NewMetaServer ::
  "WAL_Entry proto \<Rightarrow> FileMetadata proto \<Rightarrow> (files \<Rightarrow> string list) \<Rightarrow> go_error + string \<Rightarrow> (string \<Rightarrow> fs) \<Rightarrow>
     MetaServerConfig \<Rightarrow> (ret \<times> FileStore MetaServerHandler option) \<times> FileStore" where
  "NewMetaServer Pe Pm order getwd disks m =
     (case InitWALwithConfig Pe getwd disks (mc_WALConfig m) of
        (Some e, w) \<Rightarrow> ((Return (Some e), None), NewFileStore w)
      | (None, w) \<Rightarrow>
          (case EnableSnapshots Pe (file_snapshotable Pe Pm order) (NewFileStore w) of
             (Return None, mStore) \<Rightarrow> ((Return None, Some (NewMetaServerHandler (file_metastore Pe Pm) Pm)), mStore)
           | (res, mStore) \<Rightarrow> ((res, None), mStore)))"

section \<open>The abstract metadata service\<close>

text \<open>A map from names to file records; a deletion is not answered.\<close>

datatype meta_request = AddFile FileMetadata | ReadFileMeta string | DeleteFile string | MetaPing bytes

definition meta_response :: "byte \<Rightarrow> bytes \<Rightarrow> message" where
  "meta_response t b = NewMessage t (Some b) (word_of_nat (length b))"

fun meta_spec ::
  "(FileMetadata option \<Rightarrow> bytes) \<Rightarrow> meta_request list \<Rightarrow> files \<Rightarrow> message list \<times> files" where
  "meta_spec enc [] f = ([], f)"
| "meta_spec enc (AddFile m # rs) f =
     (let (out, f') = meta_spec enc rs (f(fm_Name m \<mapsto> assign_addr m))
      in (meta_response TypeReadFileResponse (enc (Some (assign_addr m))) # out, f'))"
| "meta_spec enc (ReadFileMeta k # rs) f =
     (let (out, f') = meta_spec enc rs f in (meta_response TypeReadFileResponse (enc (f k)) # out, f'))"
| "meta_spec enc (DeleteFile k # rs) f = meta_spec enc rs (f(k := None))"
| "meta_spec enc (MetaPing p # rs) f =
     (let (out, f') = meta_spec enc rs f in (meta_response TypePingResponse p # out, f'))"

definition meta_enc :: "FileMetadata proto \<Rightarrow> FileMetadata option \<Rightarrow> bytes" where
  "meta_enc Pm m = (case marshal_ptr Pm m of Inl e \<Rightarrow> [] | Inr b \<Rightarrow> b)"

fun meta_req_payload :: "FileMetadata proto \<Rightarrow> meta_request \<Rightarrow> bytes" where
  "meta_req_payload Pm (AddFile m) = meta_enc Pm (Some m)"
| "meta_req_payload Pm (ReadFileMeta k) = bytes_of_string k"
| "meta_req_payload Pm (DeleteFile k) = bytes_of_string k"
| "meta_req_payload Pm (MetaPing p) = p"

fun meta_req_type :: "meta_request \<Rightarrow> byte" where
  "meta_req_type (AddFile m) = TypeAddFile"
| "meta_req_type (ReadFileMeta k) = TypeReadFile"
| "meta_req_type (DeleteFile k) = TypeDeleteFile"
| "meta_req_type (MetaPing p) = TypePing"

definition meta_req_msg :: "FileMetadata proto \<Rightarrow> meta_request \<Rightarrow> message" where
  "meta_req_msg Pm r = meta_response (meta_req_type r) (meta_req_payload Pm r)"

definition marshals :: "FileMetadata proto \<Rightarrow> FileMetadata \<Rightarrow> bool" where
  "marshals Pm m \<longleftrightarrow> (case Marshal Pm m of Inl e \<Rightarrow> False | Inr b \<Rightarrow> length b \<le> max_payload)"

text \<open>The requests that fit into a message and, for an addition, whose record can be stored.\<close>

definition meta_req_ok :: "FileMetadata proto \<Rightarrow> (FileMetadata \<Rightarrow> bool) \<Rightarrow> meta_request \<Rightarrow> bool" where
  "meta_req_ok Pm storable r \<longleftrightarrow> meta_req_payload Pm r \<noteq> [] \<and> length (meta_req_payload Pm r) \<le> max_payload \<and>
     (case r of AddFile m \<Rightarrow> marshals Pm m \<and> storable (assign_addr m) | _ \<Rightarrow> True)"

lemma meta_Handle_Nil [simp]: "meta_Handle H [] c s = (Return None, c, s)"
  by (simp add: meta_Handle.simps)

lemma fm_Name_assign_addr [simp]: "fm_Name (assign_addr m) = fm_Name m"
  by (simp add: assign_addr_def)

section \<open>One request\<close>

lemma meta_encode_ok:
  assumes "croom c = None" "length b \<le> max_payload"
  shows "\<exists>c'. meta_encode t b c = (None, c') \<and> croom c' = None \<and> cout c' = cout c @ wire (meta_response t b)"
  using Encode_bytes [OF assms, of t] by (auto simp: meta_encode_def meta_response_def)

lemma meta_Handle_req:
  assumes l: "meta_req_payload Pm r \<noteq> []" "length (meta_req_payload Pm r) \<le> max_payload"
  shows "meta_Handle H (wire (meta_req_msg Pm r) @ rest) c s =
    (case r of
       AddFile m \<Rightarrow> (case meta_handleWrite H (meta_req_payload Pm r) c s of
           (Return None, c', s') \<Rightarrow> meta_Handle H rest c' s' | res \<Rightarrow> res)
     | ReadFileMeta n \<Rightarrow> (case meta_handleRead H (meta_req_payload Pm r) c s of
           (Some e, c') \<Rightarrow> (Return (Some e), c', s) | (None, c') \<Rightarrow> meta_Handle H rest c' s)
     | DeleteFile n \<Rightarrow> (case meta_handleDelete H (meta_req_payload Pm r) s of
           (Return None, s') \<Rightarrow> meta_Handle H rest c s' | (res, s') \<Rightarrow> (res, c, s'))
     | MetaPing p \<Rightarrow> (case meta_handlePing (meta_req_payload Pm r) c of
           (Some e, c') \<Rightarrow> (Return (Some e), c', s) | (None, c') \<Rightarrow> meta_Handle H rest c' s))"
proof -
  let ?p = "meta_req_payload Pm r" and ?m = "meta_req_msg Pm r"
  have D: "Decode (wire ?m @ rest) = Inr (?m, ?p @ rest)"
    using Decode_bytes [OF l(2)] by (simp add: meta_req_msg_def meta_response_def)
  have m: "Length ?m \<noteq> 0" "Type ?m = meta_req_type r" "payload ?m = ?p" "unat (Length ?m) = length ?p"
    using l by (simp_all add: meta_req_msg_def meta_response_def payload_def)
  show ?thesis
    unfolding meta_Handle.simps [of H "wire ?m @ rest"] using D m
    by (cases r) (simp_all add: message_types del: meta_req_payload.simps split: prod.splits option.splits ret.splits)
qed

lemma meta_handleRead_ok:
  assumes "ms_Lookup M n s = v" "\<forall>m. v = Some m \<longrightarrow> marshals Pm m" "croom c = None"
  shows "\<exists>c'. meta_handleRead (NewMetaServerHandler M Pm) (bytes_of_string n) c s = (None, c') \<and> croom c' = None \<and>
    cout c' = cout c @ wire (meta_response TypeReadFileResponse (meta_enc Pm v))"
proof -
  have "marshal_ptr Pm v = Inr (meta_enc Pm v)" "length (meta_enc Pm v) \<le> max_payload"
    using assms(2) by (cases v; auto simp: marshal_ptr_def meta_enc_def marshals_def split: sum.splits)+
  with meta_encode_ok [OF assms(3), of "meta_enc Pm v"] assms(1) show ?thesis
    by (simp add: meta_handleRead_def NewMetaServerHandler_def)
qed

section \<open>The contract of a store\<close>

text \<open>
  \<open>inv k s\<close>: the store works and has room for \<open>k\<close> more changes; \<open>view s\<close> is the map it stands for.
\<close>

locale meta_store =
  fixes M :: "'s MetaStore"
    and inv :: "nat \<Rightarrow> 's \<Rightarrow> bool"
    and view :: "'s \<Rightarrow> files"
    and storable :: "FileMetadata \<Rightarrow> bool"
    and Pm :: "FileMetadata proto"
  assumes codec: "inv k s \<Longrightarrow> proto_ok Pm"
    and less: "inv (Suc k) s \<Longrightarrow> inv k s"
    and add: "inv (Suc k) s \<Longrightarrow> storable m \<Longrightarrow>
      \<exists>s'. ms_Add M m True s = (Return None, s') \<and> inv k s' \<and> view s' = (view s)(fm_Name m \<mapsto> m)"
    and lookup: "inv k s \<Longrightarrow> ms_Lookup M n s = view s n"
    and delete: "inv (Suc k) s \<Longrightarrow>
      \<exists>s'. ms_Delete M n s = (Return None, s') \<and> inv k s' \<and> view s' = (view s)(n := None)"
    and stored: "inv k s \<Longrightarrow> view s n = Some m \<Longrightarrow> marshals Pm m"
    and storable: "storable m \<Longrightarrow> marshals Pm m"
begin

lemma handleRead_ok:
  assumes "inv k s" "croom c = None"
  shows "\<exists>c'. meta_handleRead (NewMetaServerHandler M Pm) (bytes_of_string n) c s = (None, c') \<and> croom c' = None \<and>
    cout c' = cout c @ wire (meta_response TypeReadFileResponse (meta_enc Pm (view s n)))"
  using meta_handleRead_ok [OF lookup [OF assms(1)] _ assms(2)] stored [OF assms(1)] by blast

lemma handleWrite_ok:
  assumes "inv (Suc k) s" "croom c = None" "marshals Pm m" "storable (assign_addr m)"
  shows "\<exists>c' s'. meta_handleWrite (NewMetaServerHandler M Pm) (meta_enc Pm (Some m)) c s = (Return None, c', s') \<and>
    croom c' = None \<and> inv k s' \<and> view s' = (view s)(fm_Name m \<mapsto> assign_addr m) \<and>
    cout c' = cout c @ wire (meta_response TypeReadFileResponse (meta_enc Pm (Some (assign_addr m))))"
proof -
  let ?m = "assign_addr m"
  have u: "Unmarshal Pm (meta_enc Pm (Some m)) = Inr m"
    using assms(3) by (auto simp: marshals_def meta_enc_def marshal_ptr_def proto_okD [OF codec [OF assms(1)]] split: sum.splits)
  have e: "Marshal Pm ?m = Inr (meta_enc Pm (Some ?m))" "length (meta_enc Pm (Some ?m)) \<le> max_payload"
    using storable [OF assms(4)] by (auto simp: marshals_def meta_enc_def marshal_ptr_def split: sum.splits)
  from add [OF assms(1,4)] obtain s' where "ms_Add M ?m True s = (Return None, s')" "inv k s'"
    "view s' = (view s)(fm_Name m \<mapsto> ?m)" by auto
  with u e(1) meta_encode_ok [OF assms(2) e(2), of TypeReadFileResponse] show ?thesis
    by (auto simp: meta_handleWrite_def NewMetaServerHandler_def Let_def)
qed

lemma handleDelete_ok:
  assumes "inv (Suc k) s"
  shows "\<exists>s'. meta_handleDelete (NewMetaServerHandler M Pm) (bytes_of_string n) s = (Return None, s') \<and>
    inv k s' \<and> view s' = (view s)(n := None)"
  using delete [OF assms, of n] by (auto simp: meta_handleDelete_def NewMetaServerHandler_def)

theorem refines:
  assumes "list_all (meta_req_ok Pm storable) rs" "inv (length rs + k) s" "croom c = None"
  shows "\<exists>c' s'. meta_Handle (NewMetaServerHandler M Pm) (concat (map (\<lambda>r. wire (meta_req_msg Pm r)) rs)) c s =
      (Return None, c', s') \<and>
    cout c' = cout c @ concat (map wire (fst (meta_spec (meta_enc Pm) rs (view s)))) \<and>
    view s' = snd (meta_spec (meta_enc Pm) rs (view s)) \<and> inv k s'"
  using assms
proof (induction rs arbitrary: s c)
  case Nil
  then show ?case by simp
next
  case (Cons r rs)
  let ?H = "NewMetaServerHandler M Pm" and ?rest = "concat (map (\<lambda>r. wire (meta_req_msg Pm r)) rs)"
  from Cons.prems have r: "meta_req_ok Pm storable r" and rs: "list_all (meta_req_ok Pm storable) rs"
    and i: "inv (Suc (length rs + k)) s" by simp_all
  from r have rl: "meta_req_payload Pm r \<noteq> []" "length (meta_req_payload Pm r) \<le> max_payload"
    by (simp_all add: meta_req_ok_def)
  note step = meta_Handle_req [OF rl, of ?H ?rest c s]
  show ?case
  proof (cases r)
    case (AddFile m)
    with r have "marshals Pm m" "storable (assign_addr m)" by (simp_all add: meta_req_ok_def)
    from handleWrite_ok [OF i Cons.prems(3) this] obtain c1 s1 where
      w: "meta_handleWrite ?H (meta_enc Pm (Some m)) c s = (Return None, c1, s1)" "croom c1 = None" "inv (length rs + k) s1"
      "view s1 = (view s)(fm_Name m \<mapsto> assign_addr m)"
      "cout c1 = cout c @ wire (meta_response TypeReadFileResponse (meta_enc Pm (Some (assign_addr m))))" by blast
    from Cons.IH [OF rs w(3,2)] w step AddFile show ?thesis by (auto simp: split_beta Let_def simp del: fun_upd_apply)
  next
    case (ReadFileMeta n)
    from handleRead_ok [OF i Cons.prems(3), of n] obtain c1 where
      w: "meta_handleRead ?H (bytes_of_string n) c s = (None, c1)" "croom c1 = None"
      "cout c1 = cout c @ wire (meta_response TypeReadFileResponse (meta_enc Pm (view s n)))" by blast
    from Cons.IH [OF rs less [OF i] w(2)] w step ReadFileMeta show ?thesis by (auto simp: split_beta Let_def)
  next
    case (DeleteFile n)
    from handleDelete_ok [OF i, of n] obtain s1 where
      w: "meta_handleDelete ?H (bytes_of_string n) s = (Return None, s1)" "inv (length rs + k) s1" "view s1 = (view s)(n := None)"
      by blast
    from Cons.IH [OF rs w(2) Cons.prems(3)] w step DeleteFile show ?thesis by (auto simp del: fun_upd_apply)
  next
    case (MetaPing p)
    with r have "length p \<le> max_payload" by (simp add: meta_req_ok_def)
    from meta_encode_ok [OF Cons.prems(3) this, of TypePingResponse] obtain c1 where
      w: "meta_handlePing p c = (None, c1)" "croom c1 = None" "cout c1 = cout c @ wire (meta_response TypePingResponse p)"
      by (auto simp: meta_handlePing_def)
    from Cons.IH [OF rs less [OF i] w(2)] w step MetaPing show ?thesis by (auto simp: split_beta Let_def)
  qed
qed

end

section \<open>The file store provides it\<close>

definition fs_storable :: "WAL_Entry proto \<Rightarrow> FileMetadata proto \<Rightarrow> u64 \<Rightarrow> FileMetadata \<Rightarrow> bool" where
  "fs_storable Pe Pm mx m \<longleftrightarrow> meta_fits Pe Pm mx m \<and> marshals Pm m"

definition fs_inv :: "WAL_Entry proto \<Rightarrow> FileMetadata proto \<Rightarrow> u64 \<Rightarrow> nat \<Rightarrow> FileStore \<Rightarrow> bool" where
  "fs_inv Pe Pm mx k st \<longleftrightarrow> proto_ok Pe \<and> proto_ok Pm \<and> (\<exists>snap lo closed cur. store_inv Pe Pm snap st lo closed cur) \<and>
     log_room (snd st) k \<and> w_maxSegmentSize (snd st) = mx \<and> (\<forall>n m. fst st n = Some m \<longrightarrow> fs_storable Pe Pm mx m)"

lemma marshals_wf: "marshals Pm m \<Longrightarrow> meta_wf Pm m"
  by (auto simp: marshals_def meta_wf_def max_payload_def split: sum.splits)

lemma log_room_less: "log_room w (Suc k) \<Longrightarrow> log_room w k" "log_room w (Suc k) \<Longrightarrow> log_room w 1"
  by (simp_all add: log_room_def)

lemma fs_append:
  assumes "fs_inv Pe Pm mx (Suc k) (f, w)" "fs_storable Pe Pm mx m" "Marshal Pm m = Inr b"
  shows "\<exists>w'. AppendEntry_wait Pe b del w = (Return None, w') \<and>
    fs_inv Pe Pm mx k (if del then f(fm_Name m := None) else f(fm_Name m \<mapsto> m), w')"
proof -
  from assms(1) obtain snap lo closed cur where i: "proto_ok Pe" "store_inv Pe Pm snap (f, w) lo closed cur"
    "log_room w (Suc k)" "w_maxSegmentSize w = mx" "\<forall>n m. f n = Some m \<longrightarrow> fs_storable Pe Pm mx m"
    "proto_ok Pm" by (auto simp: fs_inv_def)
  have m: "meta_wf Pm m" "meta_fits Pe Pm (w_maxSegmentSize w) m"
    using assms(2) i(4) by (simp_all add: fs_storable_def marshals_wf)
  from store_append [OF i(1,6,2) m(1) assms(3) m(2) log_room_less(2) [OF i(3)], of del]
  obtain w' where w': "AppendEntry_wait Pe b del w = (Return None, w')"
    "\<exists>lo closed cur. store_inv Pe Pm snap (if del then f(fm_Name m := None) else f(fm_Name m \<mapsto> m), w') lo closed cur"
    "w_maxSegmentSize w' = w_maxSegmentSize w" "\<forall>k. log_room w (Suc k) \<longrightarrow> log_room w' k" by blast
  have "fs_inv Pe Pm mx k (if del then f(fm_Name m := None) else f(fm_Name m \<mapsto> m), w')"
  proof -
    have "\<exists>snap lo closed cur. store_inv Pe Pm snap (if del then f(fm_Name m := None) else f(fm_Name m \<mapsto> m), w') lo closed cur"
      using w'(2) by blast
    moreover have "log_room w' k" "w_maxSegmentSize w' = mx" using w'(3,4) i(3,4) by simp_all
    ultimately show ?thesis using i(1,5,6) assms(2) unfolding fs_inv_def fst_conv snd_conv by auto
  qed
  with w'(1) show ?thesis by blast
qed

lemma fs_inv_add:
  assumes "fs_inv Pe Pm mx (Suc k) st" "fs_storable Pe Pm mx m"
  shows "\<exists>st'. AddFileMetadata Pe Pm m True st = (Return None, st') \<and> fs_inv Pe Pm mx k st' \<and>
    fst st' = (fst st)(fm_Name m \<mapsto> m)"
proof (cases st)
  case (Pair f w)
  from assms(2) obtain b where b: "Marshal Pm m = Inr b" by (auto simp: fs_storable_def marshals_def split: sum.splits)
  from fs_append [OF assms(1) [unfolded Pair] assms(2) b, of False] b Pair show ?thesis
    by (auto simp: AddFileMetadata_def GetName_def)
qed

lemma fs_inv_delete:
  assumes "fs_inv Pe Pm mx (Suc k) st"
  shows "\<exists>st'. DeleteFileMetadata Pe Pm n st = (Return None, st') \<and> fs_inv Pe Pm mx k st' \<and> fst st' = (fst st)(n := None)"
proof (cases "fst st n")
  case None
  then have "(fst st)(n := None) = fst st" by auto
  with None assms show ?thesis
    by (cases st) (auto simp: DeleteFileMetadata_def fs_inv_def dest: log_room_less)
next
  case (Some m)
  obtain f w where st: "st = (f, w)" by (cases st)
  from assms Some st have m: "fs_storable Pe Pm mx m" "fm_Name m = n"
    by (auto simp: fs_inv_def store_inv_def store_ok_def)
  from m(1) obtain b where b: "Marshal Pm m = Inr b" by (auto simp: fs_storable_def marshals_def split: sum.splits)
  from fs_append [OF assms [unfolded st] m(1) b, of True] b st Some m(2) show ?thesis
    by (auto simp: DeleteFileMetadata_def)
qed

interpretation fst_meta: meta_store "file_metastore Pe Pm" "fs_inv Pe Pm mx" fst "fs_storable Pe Pm mx" Pm
proof (unfold_locales, goal_cases)
  case (3 k s m)
  then show ?case using fs_inv_add [of Pe Pm mx k s m] by (auto simp: file_metastore_def)
next
  case (5 k s n)
  then show ?case using fs_inv_delete [of Pe Pm mx k s n] by (auto simp: file_metastore_def)
qed (auto simp: fs_inv_def log_room_less file_metastore_def LookupFileMetadata_def fs_storable_def)

end
