(* ===== verification/Meta_Properties.thy ===== *)
theory Meta_Properties
  imports Meta_Server Wal_Properties
begin

text \<open>
  The properties of the metadata server, with witnesses over the sample codecs: it implements the
  abstract metadata service, after a restart it answers as before, and what becomes of a write
  whose log entry cannot be appended.
\<close>

section \<open>Serving\<close>

text \<open>
  C29: the handler over the file store implements the abstract metadata service: it answers every
  addition and read and every ping, and the store's map at the end is that of the service.
\<close>

theorem meta_server_refines:
  assumes "fs_inv Pe Pm mx (length rs) st" "list_all (meta_req_ok Pm (fs_storable Pe Pm mx)) rs" "croom c = None"
  shows "\<exists>c' st'. meta_Handle (NewMetaServerHandler (file_metastore Pe Pm) Pm)
      (concat (map (\<lambda>r. wire (meta_req_msg Pm r)) rs)) c st = (Return None, c', st') \<and>
    cout c' = cout c @ concat (map wire (fst (meta_spec (meta_enc Pm) rs (fst st)))) \<and>
    fst st' = snd (meta_spec (meta_enc Pm) rs (fst st)) \<and> fs_inv Pe Pm mx 0 st'"
  using fst_meta.refines [OF assms(2) _ assms(3), where k = 0] assms(1) by simp

definition demo_store :: FileStore where
  "demo_store = ([''a'' \<mapsto> demo_meta 2], demo_wal sample_entry demo_log)"

lemma demo_storable: "fs_storable sample_entry demo_codec 400 (demo_meta 1)" "fs_storable sample_entry demo_codec 400 (demo_meta 2)"
  by (simp_all add: fs_storable_def demo_fits marshals_def demo_Marshal max_payload_def)

lemma demo_fs_inv: "k < 1000 \<Longrightarrow> fs_inv sample_entry demo_codec 400 k demo_store"
  using demo_store_inv demo_storable sample_entry_ok demo_codec_ok
  by (auto simp: fs_inv_def demo_store_def demo_fields log_room_def demo_log_def split: if_splits)

lemma demo_assign: "assign_addr (demo_meta n) = demo_meta n"
  by (simp add: assign_addr_def demo_meta_def)

lemma meta_server_refines_witness:
  "\<exists>c' st'. meta_Handle (NewMetaServerHandler (file_metastore sample_entry demo_codec) demo_codec)
      (concat (map (\<lambda>r. wire (meta_req_msg demo_codec r))
         [ReadFileMeta ''a'', DeleteFile ''a'', AddFile (demo_meta 1), MetaPing [7]])) new_conn demo_store = (Return None, c', st') \<and>
    cout c' = cout new_conn @ concat (map wire (fst (meta_spec (meta_enc demo_codec)
         [ReadFileMeta ''a'', DeleteFile ''a'', AddFile (demo_meta 1), MetaPing [7]] (fst demo_store)))) \<and>
    fst st' = snd (meta_spec (meta_enc demo_codec)
         [ReadFileMeta ''a'', DeleteFile ''a'', AddFile (demo_meta 1), MetaPing [7]] (fst demo_store)) \<and>
    fs_inv sample_entry demo_codec 400 0 st'"
  by (rule meta_server_refines)
    (simp_all add: demo_fs_inv meta_req_ok_def demo_assign demo_storable marshals_def meta_enc_def marshal_ptr_def
      demo_Marshal max_payload_def bytes_of_string_def)

section \<open>Restarting\<close>

lemma Handle_read:
  assumes "bytes_of_string n \<noteq> []" "length (bytes_of_string n) \<le> max_payload" "croom c = None"
    and "\<forall>m. fst st n = Some m \<longrightarrow> marshals Pm m"
  shows "\<exists>c'. meta_Handle (NewMetaServerHandler (file_metastore Pe Pm) Pm) (wire (meta_req_msg Pm (ReadFileMeta n))) c st =
      (Return None, c', st) \<and>
    cout c' = cout c @ wire (meta_response TypeReadFileResponse (meta_enc Pm (fst st n)))"
proof -
  have "ms_Lookup (file_metastore Pe Pm) n st = fst st n" by (simp add: file_metastore_def LookupFileMetadata_def)
  from meta_handleRead_ok [OF this assms(4,3)] show ?thesis
    using meta_Handle_req [of Pm "ReadFileMeta n" "NewMetaServerHandler (file_metastore Pe Pm) Pm" "[]" c st] assms(1,2)
    by auto
qed

text \<open>
  C30: a restarted metadata server answers a read as before: if the snapshot of the store is on
  the disk and the log flushed, \<open>NewMetaServer\<close> succeeds, and the handler it builds answers every
  read with the record (or nothing, for a name without one) that the old store had.
\<close>

theorem meta_server_restart_serves:
  assumes "proto_ok Pe" "proto_ok Pm" "store_inv Pe Pm snap (f, w) lo closed cur" "flushed w" "store_ok Pm snap"
    and "snapshot_on_disk Pm snap (w_disk w)"
    and "restartable Pe Pm getwd disks (mc_WALConfig mc) w snap (concat closed @ cur)"
    and "bytes_of_string n \<noteq> []" "length (bytes_of_string n) \<le> max_payload" "croom c = None"
    and "\<forall>m. f n = Some m \<longrightarrow> marshals Pm m"
  shows "\<exists>H st c'. NewMetaServer Pe Pm order getwd disks mc = ((Return None, Some H), st) \<and>
    meta_Handle H (wire (meta_req_msg Pm (ReadFileMeta n))) c st = (Return None, c', st) \<and>
    cout c' = cout c @ wire (meta_response TypeReadFileResponse (meta_enc Pm (f n)))"
proof -
  from assms(3) have "wal_rep Pe w lo closed cur" "list_all (entry_meta_ok Pm) (concat closed @ cur)"
    by (simp_all add: store_inv_def)
  from restart_log [OF assms(1,2) this(1) assms(4) this(2) assms(5-7), of order] store_inv_replay [OF assms(3)]
  obtain w0 w1 where "InitWALwithConfig Pe getwd disks (mc_WALConfig mc) = (None, w0)"
    "FileStore_EnableSnapshots Pe Pm order (NewFileStore w0) = (Return None, (f, w1))" by auto
  then have "NewMetaServer Pe Pm order getwd disks mc =
      ((Return None, Some (NewMetaServerHandler (file_metastore Pe Pm) Pm)), (f, w1))"
    by (simp add: NewMetaServer_def FileStore_EnableSnapshots_def)
  with Handle_read [OF assms(8-10), of "(f, w1)" Pm Pe] assms(11) show ?thesis by auto
qed

definition demo_server_config :: MetaServerConfig where
  "demo_server_config = \<lparr>mc_ListenerPort = '':5002'', mc_ShutdownTimeout = 5000000000, mc_WALConfig = demo_config\<rparr>"

lemma meta_server_restart_serves_witness:
  "\<exists>H st c'. NewMetaServer sample_entry demo_codec demo_order (Inr ''/srv'') (\<lambda>_. w_disk (demo_wal sample_entry demo_log))
      demo_server_config = ((Return None, Some H), st) \<and>
    meta_Handle H (wire (meta_req_msg demo_codec (ReadFileMeta ''a''))) new_conn st = (Return None, c', st) \<and>
    cout c' = cout new_conn @ wire (meta_response TypeReadFileResponse (meta_enc demo_codec ([''a'' \<mapsto> demo_meta 2] ''a'')))"
  by (rule meta_server_restart_serves [OF sample_entry_ok demo_codec_ok demo_store_inv demo_log_rep(2) _ demo_snapshot])
    (use demo_restartable in \<open>simp_all add: demo_server_config_def bytes_of_string_def max_payload_def marshals_def demo_Marshal\<close>)

section \<open>Writes\<close>

text \<open>
  A write that is not logged is reported as a success: if \<open>AppendEntry\<close> fails, the file is not
  added, and yet the client gets the response of a successful addition.
\<close>

lemma meta_write_failure_reported_as_success:
  assumes "Unmarshal Pm r = Inr m" "Marshal Pm (assign_addr m) = Inr b" "length b \<le> max_payload" "croom c = None"
    and "AppendEntry_wait Pe b False w = (Return (Some e), w')"
  shows "\<exists>c'. meta_handleWrite (NewMetaServerHandler (file_metastore Pe Pm) Pm) r c (f, w) = (Return None, c', (f, w')) \<and>
    cout c' = cout c @ wire (meta_response TypeReadFileResponse (meta_enc Pm (Some (assign_addr m))))"
proof -
  from assms(2) have "meta_enc Pm (Some (assign_addr m)) = b" by (simp add: meta_enc_def marshal_ptr_def)
  with meta_encode_ok [OF assms(4,3), of TypeReadFileResponse] assms show ?thesis
    by (auto simp: meta_handleWrite_def NewMetaServerHandler_def file_metastore_def AddFileMetadata_def Let_def)
qed

definition demo_stuck :: WAL where
  "demo_stuck = demo_full\<lparr>w_disk := empty_fs\<lparr>faults := (\<lambda>op nm. op = OpCreate)\<rparr>\<rparr>"

lemma demo_stuck_append: "\<exists>e w'. AppendEntry_wait sample_entry [1] False demo_stuck = (Return (Some e), w')"
proof -
  have "fst (appendEntry sample_entry [1] False demo_stuck) \<noteq> None" by code_simp
  then show ?thesis by (auto simp: AppendEntry_wait_def AppendEntry_def split: prod.splits option.splits)
qed

lemma meta_write_failure_reported_as_success_witness:
  "\<exists>w' c'. meta_handleWrite (NewMetaServerHandler (file_metastore sample_entry demo_codec) demo_codec) [1] new_conn
      (Map.empty, demo_stuck) = (Return None, c', (Map.empty, w')) \<and>
    cout c' = cout new_conn @ wire (meta_response TypeReadFileResponse (meta_enc demo_codec (Some (assign_addr (demo_meta 1)))))"
proof -
  from demo_stuck_append obtain e w' where "AppendEntry_wait sample_entry [1] False demo_stuck = (Return (Some e), w')" by blast
  from meta_write_failure_reported_as_success [OF _ _ _ _ this, of demo_codec "[1]" "demo_meta 1" new_conn]
  show ?thesis using demo_Marshal proto_okD [OF demo_codec_ok demo_Marshal(1)] by (fastforce simp: demo_assign max_payload_def)
qed

text \<open>A deletion is never answered, whether the file exists or not and whatever the log does.\<close>

lemma meta_delete_not_answered:
  assumes "bytes_of_string n \<noteq> []" "length (bytes_of_string n) \<le> max_payload"
  shows "fst (snd (meta_Handle H (wire (meta_req_msg Pm (DeleteFile n))) c s)) = c"
  using meta_Handle_req [of Pm "DeleteFile n" H "[]" c s] assms
  by (auto split: prod.splits ret.splits option.splits)

lemma meta_delete_not_answered_witness:
  "fst (snd (meta_Handle (NewMetaServerHandler (file_metastore sample_entry demo_codec) demo_codec)
     (wire (meta_req_msg demo_codec (DeleteFile ''a''))) new_conn demo_store)) = new_conn"
  by (rule meta_delete_not_answered) (simp_all add: bytes_of_string_def max_payload_def)

end
