(* ===== verification/Worker_Pool.thy ===== *)
theory Worker_Pool
  imports Wal "HOL-Library.Multiset" "HOL-Library.Signed_Division"
begin

text \<open>
  The worker pool of the client, \<open>internal/wokers/worker_pool.go\<close>: jobs with retries and
  exponential back-off, the queue, the worker goroutines, the goroutine that scales their number, and
  shutdown. A job is executed by a function; the pool is a step relation in which every access
  to shared state is a step of its own, so that all interleavings of the goroutines are covered.
\<close>

section \<open>Configuration\<close>

record poolConfig =
  minWorkers :: int
  maxWorkers :: int
  maxRetries :: int
  retryDelay :: duration
  bufferSize :: int
  shutdownTimeout :: duration

type_synonym RetriablePoolOptions = "poolConfig \<Rightarrow> poolConfig"

definition WithMinWorkers :: "int \<Rightarrow> RetriablePoolOptions" where
  "WithMinWorkers workers p = p\<lparr>minWorkers := workers\<rparr>"

definition WithMaxWorkers :: "int \<Rightarrow> RetriablePoolOptions" where
  "WithMaxWorkers workers p = p\<lparr>maxWorkers := workers\<rparr>"

definition WithMaxRetries :: "int \<Rightarrow> RetriablePoolOptions" where
  "WithMaxRetries retries p = p\<lparr>maxRetries := retries\<rparr>"

definition WithRetryDelay :: "duration \<Rightarrow> RetriablePoolOptions" where
  "WithRetryDelay delay p = p\<lparr>retryDelay := delay\<rparr>"

definition WithBufferSize :: "int \<Rightarrow> RetriablePoolOptions" where
  "WithBufferSize bufSize p = p\<lparr>bufferSize := bufSize\<rparr>"

definition WithShutdownTimeout :: "duration \<Rightarrow> RetriablePoolOptions" where
  "WithShutdownTimeout timeout p = p\<lparr>shutdownTimeout := timeout\<rparr>"

definition defaultPoolConfig :: poolConfig where
  "defaultPoolConfig = \<lparr>minWorkers = 3, maxWorkers = 6, maxRetries = 3, retryDelay = 2000000000,
     bufferSize = 6, shutdownTimeout = 7000000000\<rparr>"

definition pool_config :: "RetriablePoolOptions list \<Rightarrow> poolConfig" where
  "pool_config opts = fold (\<lambda>opt p. opt p) opts defaultPoolConfig"

section \<open>Jobs\<close>

datatype JobStatus = StatusSuccess | StatusFailed | StatusCancelled

text \<open>
  The work of a job is given by what its attempts return, the channel of its results by a
  number.
\<close>

record 'o Job =
  job_id :: int
  job_work :: "nat \<Rightarrow> go_error + 'o"
  job_results :: nat

record 'o Result =
  Output :: "'o option"
  Error :: "go_error option"
  JobId :: int
  Retries :: int
  Duration :: duration
  Status :: JobStatus

text \<open>\<open>uniqueId\<close> is an atomic counter of 32 bits.\<close>

definition NewJob :: "(nat \<Rightarrow> go_error + 'o) \<Rightarrow> nat \<Rightarrow> u32 \<Rightarrow> 'o Job \<times> u32" where
  "NewJob work results uniqueId =
     (let uid = uniqueId + 1 in (\<lparr>job_id = uint uid, job_work = work, job_results = results\<rparr>, uid))"

text \<open>The arithmetic of \<open>time.Duration\<close>, an \<open>int64\<close>.\<close>

definition wrap64 :: "int \<Rightarrow> int" where
  "wrap64 i = sint (word_of_int i :: u64)"

definition backoff :: "duration \<Rightarrow> nat \<Rightarrow> duration" where
  "backoff delay retries = wrap64 (delay * wrap64 (2 ^ retries))"

definition isRetriable :: "go_error \<Rightarrow> bool" where
  "isRetriable err = True"

text \<open>
  What the execution of a job meets: \<open>je_done i\<close> says that the context is done when attempt \<open>i\<close>
  waits for its turn, and \<open>je_since i\<close> is the time since the start after attempt \<open>i\<close>.
\<close>

record job_env =
  je_done :: "nat \<Rightarrow> bool"
  je_since :: "nat \<Rightarrow> duration"

text \<open>
  \<open>perform_loop conf env job k i lastErr waits\<close> is the loop of \<open>performWork\<close> before attempt \<open>i\<close>
  with \<open>k\<close> rounds to go; it also returns the waits it has gone through. An error that is not
  retriable ends the loop.
\<close>

fun perform_loop ::
  "poolConfig \<Rightarrow> job_env \<Rightarrow> 'o Job \<Rightarrow> nat \<Rightarrow> nat \<Rightarrow> go_error option \<Rightarrow> duration list \<Rightarrow> 'o Result \<times> duration list"
where
  "perform_loop conf env job 0 i lastErr waits =
     (\<lparr>Output = None, Error = lastErr, JobId = job_id job, Retries = int i - 1, Duration = je_since env i,
       Status = StatusFailed\<rparr>, waits)"
| "perform_loop conf env job (Suc k) i lastErr waits =
     (let wait = (if i = 0 then 0 else backoff (retryDelay conf) i) in
      if je_done env i then
        (\<lparr>Output = None, Error = None, JobId = job_id job, Retries = int i, Duration = je_since env i,
          Status = StatusCancelled\<rparr>, waits @ [wait])
      else case job_work job i of
          Inr res \<Rightarrow>
            (\<lparr>Output = Some res, Error = None, JobId = job_id job, Retries = int i, Duration = je_since env i,
              Status = StatusSuccess\<rparr>, waits @ [wait])
        | Inl err \<Rightarrow>
            perform_loop conf env job (if isRetriable err then k else 0) (Suc i) (Some err) (waits @ [wait]))"

definition performWork :: "poolConfig \<Rightarrow> job_env \<Rightarrow> 'o Job \<Rightarrow> 'o Result \<times> duration list" where
  "performWork conf env job = perform_loop conf env job (nat (maxRetries conf + 1)) 0 None []"

section \<open>The pool\<close>

text \<open>
  A worker is in its select, has received a job it is not yet counted for, executes it, has
  executed it and is still counted, sends the result, or has left its loop and is still in
  \<open>totalWorkers\<close> or only in the wait group. A worker that executes a job knows whether the context
  was done when it began.
\<close>

datatype 'o worker_state =
    Idle | Taken "'o Job" | Running bool "'o Job" | Finished "'o Job" "'o Result" | Delivering "'o Job" "'o Result"
  | Exiting | Exited

text \<open>
  The goroutine \<open>scaleWorkers\<close>: waiting for a tick, with the number of queued jobs, with the
  counters too, having started a worker it has not counted yet, after the first decision,
  sending on \<open>close\<close>, finished.
\<close>

datatype scaler_state =
    SWait | STick int | SRead int int int | SAdding int int int | SAfter int int int | SClosing | SDone

text \<open>
  The shared state. \<open>rp_submitters\<close> are the calls of \<open>Submit\<close> that hold the read lock and have
  seen the pool open, \<open>rp_locked\<close> is the write lock of \<open>submitMu\<close>, \<open>rp_stopping\<close> a \<open>Shutdown\<close> that
  waits for the workers. \<open>rp_room\<close> has for each channel of results the number of results that can be
  sent on it without blocking: its free places, and the receivers that wait. The last three fields
  record what has happened: the jobs whose submission has succeeded, the results that were sent, and
  the jobs whose result was given up.
\<close>

record 'o pool =
  rp_conf :: poolConfig
  rp_totalWorkers :: int
  rp_activeWorkers :: int
  rp_jobs :: "'o Job list"
  rp_jobsClosed :: bool
  rp_wg :: nat
  rp_ctxDone :: bool
  rp_submitters :: "'o Job multiset"
  rp_locked :: bool
  rp_isClosed :: bool
  rp_stopping :: bool
  rp_workers :: "'o worker_state multiset"
  rp_scaler :: scaler_state
  rp_room :: "nat \<Rightarrow> nat"
  rp_accepted :: "'o Job multiset"
  rp_delivered :: "('o Job \<times> 'o Result) multiset"
  rp_dropped :: "'o Job multiset"

text \<open>\<open>addWorker\<close> starts the goroutine first and counts it afterwards.\<close>

definition addWorker_go :: "'o pool \<Rightarrow> 'o pool" where
  "addWorker_go p = p\<lparr>rp_wg := rp_wg p + 1, rp_workers := add_mset Idle (rp_workers p)\<rparr>"

definition addWorker_count :: "'o pool \<Rightarrow> 'o pool" where
  "addWorker_count p = p\<lparr>rp_totalWorkers := rp_totalWorkers p + 1\<rparr>"

definition addWorker :: "'o pool \<Rightarrow> 'o pool" where
  "addWorker p = addWorker_count (addWorker_go p)"

definition start_pool :: "'o pool \<Rightarrow> 'o pool" where
  "start_pool p = (addWorker ^^ nat (minWorkers (rp_conf p))) p"

text \<open>\<open>make\<close> panics on a negative size. No job can be submitted before the pool is returned.\<close>

definition NewRetriableWorkerPool :: "bool \<Rightarrow> RetriablePoolOptions list \<Rightarrow> go_error + 'o pool" where
  "NewRetriableWorkerPool ctxDone opts =
     (let conf = pool_config opts in
      if bufferSize conf < 0 then Inl Panic
      else Inr (start_pool
        \<lparr>rp_conf = conf, rp_totalWorkers = 0, rp_activeWorkers = 0, rp_jobs = [], rp_jobsClosed = False,
         rp_wg = 0, rp_ctxDone = ctxDone, rp_submitters = {#}, rp_locked = False, rp_isClosed = False,
         rp_stopping = False, rp_workers = {#}, rp_scaler = SWait, rp_room = (\<lambda>_. 0), rp_accepted = {#}, rp_delivered = {#},
         rp_dropped = {#}\<rparr>))"

text \<open>A worker changes its state.\<close>

definition worker_to :: "'o worker_state \<Rightarrow> 'o worker_state \<Rightarrow> 'o pool \<Rightarrow> 'o pool" where
  "worker_to a b p = p\<lparr>rp_workers := add_mset b (rp_workers p - {#a#})\<rparr>"

text \<open>The two decisions of a round of \<open>scaleWorkers\<close>.\<close>

definition scale_up :: "poolConfig \<Rightarrow> int \<Rightarrow> int \<Rightarrow> int \<Rightarrow> bool" where
  "scale_up conf jobs workers active \<longleftrightarrow> jobs > workers \<and> workers = active \<and> workers < maxWorkers conf"

definition scale_down :: "poolConfig \<Rightarrow> int \<Rightarrow> int \<Rightarrow> int \<Rightarrow> bool" where
  "scale_down conf jobs workers active \<longleftrightarrow> jobs = 0 \<and> active < workers sdiv 2 \<and> workers > minWorkers conf"

inductive Submit_step :: "'o pool \<Rightarrow> 'o pool \<Rightarrow> bool" where
  Enter: "\<not> rp_locked p \<Longrightarrow> \<not> rp_isClosed p \<Longrightarrow> Submit_step p (p\<lparr>rp_submitters := add_mset j (rp_submitters p)\<rparr>)"
| Rejected: "\<not> rp_locked p \<Longrightarrow> rp_isClosed p \<Longrightarrow> Submit_step p p"
| Cancelled: "j \<in># rp_submitters p \<Longrightarrow> rp_ctxDone p \<Longrightarrow>
    Submit_step p (p\<lparr>rp_submitters := rp_submitters p - {#j#}\<rparr>)"
| Send: "j \<in># rp_submitters p \<Longrightarrow> int (length (rp_jobs p)) < bufferSize (rp_conf p) \<Longrightarrow>
    Submit_step p (p\<lparr>rp_submitters := rp_submitters p - {#j#}, rp_jobs := rp_jobs p @ [j],
                    rp_accepted := add_mset j (rp_accepted p)\<rparr>)"
| Handover: "j \<in># rp_submitters p \<Longrightarrow> rp_jobs p = [] \<Longrightarrow> Idle \<in># rp_workers p \<Longrightarrow>
    Submit_step p (worker_to Idle (Taken j)
      (p\<lparr>rp_submitters := rp_submitters p - {#j#}, rp_accepted := add_mset j (rp_accepted p)\<rparr>))"

text \<open>
  \<open>Shutdown\<close>: the write lock is granted when no submitter holds the read lock. A second call
  returns with it. The context is cancelled when the workers are done or the time is up.
\<close>

inductive Shutdown_step :: "'o pool \<Rightarrow> 'o pool \<Rightarrow> bool" where
  First: "\<not> rp_locked p \<Longrightarrow> rp_submitters p = {#} \<Longrightarrow> \<not> rp_isClosed p \<Longrightarrow>
    Shutdown_step p (p\<lparr>rp_jobsClosed := True, rp_isClosed := True, rp_stopping := True\<rparr>)"
| Again: "\<not> rp_locked p \<Longrightarrow> rp_submitters p = {#} \<Longrightarrow> rp_isClosed p \<Longrightarrow>
    Shutdown_step p (p\<lparr>rp_locked := True\<rparr>)"
| Done: "rp_stopping p \<Longrightarrow> rp_wg p = 0 \<Longrightarrow> Shutdown_step p (p\<lparr>rp_ctxDone := True, rp_stopping := False\<rparr>)"
| TimedOut: "rp_stopping p \<Longrightarrow> Shutdown_step p (p\<lparr>rp_ctxDone := True, rp_stopping := False\<rparr>)"

text \<open>
  A worker. If the context is done when \<open>performWork\<close> begins, the select before every attempt with a
  wait takes that case, since the timer has not fired; before the first attempt, and after a back-off
  that has wrapped around to a negative number, both cases can be ready. If it is not, the context
  can become done before any attempt. A result can be sent when its channel has room for it.
\<close>

definition env_ok :: "poolConfig \<Rightarrow> bool \<Rightarrow> bool \<Rightarrow> job_env \<Rightarrow> bool" where
  "env_ok conf begun ctxDone env \<longleftrightarrow> (\<forall>i. je_done env i \<longrightarrow> ctxDone) \<and>
     (begun \<longrightarrow> (\<forall>i. 0 < i \<and> 0 < backoff (retryDelay conf) i \<longrightarrow> je_done env i))"

inductive worker_step :: "'o pool \<Rightarrow> 'o pool \<Rightarrow> bool" where
  Receive: "Idle \<in># rp_workers p \<Longrightarrow> rp_jobs p = j # js \<Longrightarrow>
    worker_step p (worker_to Idle (Taken j) (p\<lparr>rp_jobs := js\<rparr>))"
| NoMoreJobs: "Idle \<in># rp_workers p \<Longrightarrow> rp_jobs p = [] \<Longrightarrow> rp_jobsClosed p \<Longrightarrow>
    worker_step p (worker_to Idle Exiting p)"
| ContextDone: "Idle \<in># rp_workers p \<Longrightarrow> rp_ctxDone p \<Longrightarrow> worker_step p (worker_to Idle Exiting p)"
| CountActive: "Taken j \<in># rp_workers p \<Longrightarrow>
    worker_step p (worker_to (Taken j) (Running (rp_ctxDone p) j) (p\<lparr>rp_activeWorkers := rp_activeWorkers p + 1\<rparr>))"
| Perform: "Running d j \<in># rp_workers p \<Longrightarrow> env_ok (rp_conf p) d (rp_ctxDone p) env \<Longrightarrow>
    worker_step p (worker_to (Running d j) (Finished j (fst (performWork (rp_conf p) env j))) p)"
| CountIdle: "Finished j r \<in># rp_workers p \<Longrightarrow>
    worker_step p (worker_to (Finished j r) (Delivering j r) (p\<lparr>rp_activeWorkers := rp_activeWorkers p - 1\<rparr>))"
| Deliver: "Delivering j r \<in># rp_workers p \<Longrightarrow> 0 < rp_room p (job_results j) \<Longrightarrow>
    worker_step p (worker_to (Delivering j r) Idle (p\<lparr>rp_delivered := add_mset (j, r) (rp_delivered p),
      rp_room := (rp_room p)(job_results j := rp_room p (job_results j) - 1)\<rparr>))"
| GiveUp: "Delivering j r \<in># rp_workers p \<Longrightarrow> rp_ctxDone p \<Longrightarrow>
    worker_step p (worker_to (Delivering j r) Exiting (p\<lparr>rp_dropped := add_mset j (rp_dropped p)\<rparr>))"
| CountExit: "Exiting \<in># rp_workers p \<Longrightarrow>
    worker_step p (worker_to Exiting Exited (p\<lparr>rp_totalWorkers := rp_totalWorkers p - 1\<rparr>))"
| WgDone: "Exited \<in># rp_workers p \<Longrightarrow>
    worker_step p (p\<lparr>rp_wg := rp_wg p - 1, rp_workers := rp_workers p - {#Exited#}\<rparr>)"

inductive scaler_step :: "'o pool \<Rightarrow> 'o pool \<Rightarrow> bool" where
  Tick: "rp_scaler p = SWait \<Longrightarrow> scaler_step p (p\<lparr>rp_scaler := STick (int (length (rp_jobs p)))\<rparr>)"
| Stop: "rp_scaler p = SWait \<Longrightarrow> rp_ctxDone p \<Longrightarrow> scaler_step p (p\<lparr>rp_scaler := SDone\<rparr>)"
| Counters: "rp_scaler p = STick jobs \<Longrightarrow>
    scaler_step p (p\<lparr>rp_scaler := SRead jobs (rp_totalWorkers p) (rp_activeWorkers p)\<rparr>)"
| ScaleUp: "rp_scaler p = SRead jobs workers active \<Longrightarrow> scale_up (rp_conf p) jobs workers active \<Longrightarrow>
    scaler_step p (addWorker_go (p\<lparr>rp_scaler := SAdding jobs workers active\<rparr>))"
| Counted: "rp_scaler p = SAdding jobs workers active \<Longrightarrow>
    scaler_step p (addWorker_count (p\<lparr>rp_scaler := SAfter jobs workers active\<rparr>))"
| NoScaleUp: "rp_scaler p = SRead jobs workers active \<Longrightarrow> \<not> scale_up (rp_conf p) jobs workers active \<Longrightarrow>
    scaler_step p (p\<lparr>rp_scaler := SAfter jobs workers active\<rparr>)"
| ScaleDown: "rp_scaler p = SAfter jobs workers active \<Longrightarrow> scale_down (rp_conf p) jobs workers active \<Longrightarrow>
    scaler_step p (p\<lparr>rp_scaler := SClosing\<rparr>)"
| NoScaleDown: "rp_scaler p = SAfter jobs workers active \<Longrightarrow> \<not> scale_down (rp_conf p) jobs workers active \<Longrightarrow>
    scaler_step p (p\<lparr>rp_scaler := SWait\<rparr>)"
| CloseOne: "rp_scaler p = SClosing \<Longrightarrow> Idle \<in># rp_workers p \<Longrightarrow>
    scaler_step p (worker_to Idle Exiting (p\<lparr>rp_scaler := SWait\<rparr>))"
| StopClosing: "rp_scaler p = SClosing \<Longrightarrow> rp_ctxDone p \<Longrightarrow> scaler_step p (p\<lparr>rp_scaler := SDone\<rparr>)"

text \<open>
  The users of the results: making a channel gives room for as many results as its capacity, and a
  receiver that waits or takes a result gives room for one more.
\<close>

inductive pool_step :: "'o pool \<Rightarrow> 'o pool \<Rightarrow> bool" where
  submit: "Submit_step p q \<Longrightarrow> pool_step p q"
| shutdown: "Shutdown_step p q \<Longrightarrow> pool_step p q"
| worker: "worker_step p q \<Longrightarrow> pool_step p q"
| scaler: "scaler_step p q \<Longrightarrow> pool_step p q"
| cancel: "pool_step p (p\<lparr>rp_ctxDone := True\<rparr>)"
| results: "pool_step p (p\<lparr>rp_room := (rp_room p)(c := rp_room p c + n)\<rparr>)"

inductive_cases pool_stepE: "pool_step p q"
inductive_cases Submit_stepE: "Submit_step p q"
inductive_cases Shutdown_stepE: "Shutdown_step p q"
inductive_cases worker_stepE: "worker_step p q"
inductive_cases scaler_stepE: "scaler_step p q"

lemmas pool_step_elims = pool_stepE Submit_stepE Shutdown_stepE worker_stepE scaler_stepE

lemmas pool_step_defs = worker_to_def addWorker_go_def addWorker_count_def

section \<open>Executing a job\<close>

lemma wrap64_small: "- (2 ^ 63) \<le> i \<Longrightarrow> i < 2 ^ 63 \<Longrightarrow> wrap64 i = i"
  by (simp add: wrap64_def signed_of_int signed_take_bit_int_eq_self)

lemma wrap64_bounds: "- (2 ^ 63) \<le> wrap64 i" "wrap64 i < 2 ^ 63"
  using sint_ge [of "word_of_int i :: u64"] sint_lt [of "word_of_int i :: u64"] by (simp_all add: wrap64_def)

lemma backoff_exact:
  assumes "0 \<le> d" "d * 2 ^ n < 2 ^ 63" "n < 63"
  shows "backoff d n = d * 2 ^ n"
proof -
  have "(2 :: int) ^ n < 2 ^ 63" using assms(3) by (intro power_strict_increasing) simp_all
  moreover have "0 \<le> (2 :: int) ^ n" by simp
  ultimately have "wrap64 (2 ^ n) = 2 ^ n" by (intro wrap64_small) linarith+
  moreover have "0 \<le> d * 2 ^ n" using assms(1) by simp
  then have "wrap64 (d * 2 ^ n) = d * 2 ^ n" using assms(2) by (intro wrap64_small) linarith+
  ultimately show ?thesis by (simp add: backoff_def)
qed

text \<open>From the 64th retry on there is no wait at all.\<close>

lemma backoff_zero: "64 \<le> n \<Longrightarrow> backoff d n = 0"
proof -
  assume "64 \<le> n"
  then have "(2 :: int) ^ n = 2 ^ 64 * 2 ^ (n - 64)" using power_add [of "2 :: int" 64 "n - 64"] by (simp only: le_add_diff_inverse)
  moreover have "(word_of_int (2 ^ 64) :: u64) = 0" by simp
  ultimately have "(word_of_int (2 ^ n) :: u64) = 0" by (simp only: wi_hom_mult [symmetric] mult_zero_left)
  then show ?thesis by (simp only: backoff_def wrap64_def) simp
qed

text \<open>The wait before attempt \<open>i\<close>.\<close>

definition wait_before :: "duration \<Rightarrow> nat \<Rightarrow> duration" where
  "wait_before delay i = (if i = 0 then 0 else backoff delay i)"

lemma perform_loop_all_fail:
  assumes "\<forall>m < k. \<not> je_done env (i + m) \<and> job_work job (i + m) = Inl (err (i + m))"
  shows "perform_loop conf env job k i lastErr waits =
    (\<lparr>Output = None, Error = (if k = 0 then lastErr else Some (err (i + k - 1))), JobId = job_id job,
      Retries = int (i + k) - 1, Duration = je_since env (i + k), Status = StatusFailed\<rparr>,
     waits @ map (wait_before (retryDelay conf)) [i ..< i + k])"
  using assms
proof (induction k arbitrary: i lastErr waits)
  case (Suc k)
  have "\<forall>m < k. \<not> je_done env (Suc i + m) \<and> job_work job (Suc i + m) = Inl (err (Suc i + m))"
    using Suc.prems by (metis Suc_less_eq add_Suc_shift)
  from Suc.IH [OF this] Suc.prems [rule_format, of 0] show ?case
    by (simp add: isRetriable_def wait_before_def Let_def upt_conv_Cons del: upt_Suc)
qed simp

lemma perform_loop_first:
  assumes "\<forall>m < j. \<not> je_done env (i + m) \<and> job_work job (i + m) = Inl (err (i + m))" "j < k"
    and "je_done env (i + j) \<or> job_work job (i + j) = Inr out"
  shows "perform_loop conf env job k i lastErr waits =
    (\<lparr>Output = (if je_done env (i + j) then None else Some out), Error = None, JobId = job_id job,
      Retries = int (i + j), Duration = je_since env (i + j),
      Status = (if je_done env (i + j) then StatusCancelled else StatusSuccess)\<rparr>,
     waits @ map (wait_before (retryDelay conf)) [i ..< i + j + 1])"
  using assms
proof (induction j arbitrary: i k lastErr waits)
  case 0
  then show ?case by (cases k) (auto simp: wait_before_def Let_def)
next
  case (Suc j)
  from Suc.prems(2) obtain k' where k: "k = Suc k'" "j < k'" by (cases k) auto
  have "\<forall>m < j. \<not> je_done env (Suc i + m) \<and> job_work job (Suc i + m) = Inl (err (Suc i + m))"
    using Suc.prems(1) by (metis Suc_less_eq add_Suc_shift)
  from Suc.IH [OF this k(2)] Suc.prems(1) [rule_format, of 0] Suc.prems(3) show ?case
    by (simp add: k isRetriable_def wait_before_def Let_def upt_conv_Cons del: upt_Suc)
qed

section \<open>Invariants of the pool\<close>

text \<open>The job a worker has in hand, and the workers by the counters they are in.\<close>

fun held :: "'o worker_state \<Rightarrow> 'o Job multiset" where
  "held (Taken j) = {#j#}"
| "held (Running d j) = {#j#}"
| "held (Finished j r) = {#j#}"
| "held (Delivering j r) = {#j#}"
| "held _ = {#}"

definition in_hand :: "'o worker_state multiset \<Rightarrow> 'o Job multiset" where
  "in_hand ws = sum_mset (image_mset held ws)"

fun is_active :: "'o worker_state \<Rightarrow> bool" where
  "is_active (Running d j) = True"
| "is_active (Finished j r) = True"
| "is_active _ = False"

fun scaler_adding :: "scaler_state \<Rightarrow> int" where
  "scaler_adding (SAdding jobs workers active) = 1"
| "scaler_adding _ = 0"

text \<open>The number of workers the scaler has read is at least the current one until it adds one.\<close>

fun scaler_ok :: "poolConfig \<Rightarrow> int \<Rightarrow> scaler_state \<Rightarrow> bool" where
  "scaler_ok conf tot (SRead jobs workers active) \<longleftrightarrow> tot \<le> workers"
| "scaler_ok conf tot (SAdding jobs workers active) \<longleftrightarrow> tot \<le> workers \<and> workers < maxWorkers conf"
| "scaler_ok conf tot _ \<longleftrightarrow> True"

definition worker_limit :: "poolConfig \<Rightarrow> int" where
  "worker_limit conf = max (max 0 (minWorkers conf)) (maxWorkers conf)"

definition result_of :: "poolConfig \<Rightarrow> bool \<Rightarrow> 'o Job \<Rightarrow> 'o Result \<Rightarrow> bool" where
  "result_of conf ctxDone j r \<longleftrightarrow> (\<exists>env. (\<forall>i. je_done env i \<longrightarrow> ctxDone) \<and> r = fst (performWork conf env j))"

fun worker_ok :: "poolConfig \<Rightarrow> bool \<Rightarrow> 'o worker_state \<Rightarrow> bool" where
  "worker_ok conf d (Running begun j) \<longleftrightarrow> (begun \<longrightarrow> d)"
| "worker_ok conf d (Finished j r) \<longleftrightarrow> result_of conf d j r"
| "worker_ok conf d (Delivering j r) \<longleftrightarrow> result_of conf d j r"
| "worker_ok conf d _ \<longleftrightarrow> True"

text \<open>Every accepted job is in exactly one place.\<close>

definition accounted :: "'o pool \<Rightarrow> bool" where
  "accounted p \<longleftrightarrow>
     rp_accepted p = mset (rp_jobs p) + in_hand (rp_workers p) + image_mset fst (rp_delivered p) + rp_dropped p \<and>
     (rp_dropped p \<noteq> {#} \<longrightarrow> rp_ctxDone p)"

definition counted :: "'o pool \<Rightarrow> bool" where
  "counted p \<longleftrightarrow>
     rp_activeWorkers p = int (size (filter_mset is_active (rp_workers p))) \<and>
     rp_totalWorkers p + scaler_adding (rp_scaler p) = int (size (filter_mset (\<lambda>w. w \<noteq> Exited) (rp_workers p))) \<and>
     rp_wg p = size (rp_workers p)"

definition bounded :: "'o pool \<Rightarrow> bool" where
  "bounded p \<longleftrightarrow> rp_totalWorkers p + scaler_adding (rp_scaler p) \<le> worker_limit (rp_conf p) \<and>
     scaler_ok (rp_conf p) (rp_totalWorkers p) (rp_scaler p) \<and>
     int (length (rp_jobs p)) \<le> max 0 (bufferSize (rp_conf p))"

definition closing_ok :: "'o pool \<Rightarrow> bool" where
  "closing_ok p \<longleftrightarrow> rp_jobsClosed p = rp_isClosed p \<and> (rp_submitters p \<noteq> {#} \<longrightarrow> \<not> rp_jobsClosed p \<and> \<not> rp_locked p)"

definition results_ok :: "'o pool \<Rightarrow> bool" where
  "results_ok p \<longleftrightarrow> (\<forall>w \<in># rp_workers p. worker_ok (rp_conf p) (rp_ctxDone p) w) \<and>
     (\<forall>(j, r) \<in># rp_delivered p. result_of (rp_conf p) (rp_ctxDone p) j r)"

lemma in_hand_simps [simp]:
  "in_hand {#} = {#}" "in_hand (add_mset w ws) = held w + in_hand ws"
  by (simp_all add: in_hand_def)

lemma addWorker_iter:
  "rp_workers ((addWorker ^^ n) p) = rp_workers p + replicate_mset n Idle"
  "rp_wg ((addWorker ^^ n) p) = rp_wg p + n"
  "rp_totalWorkers ((addWorker ^^ n) p) = rp_totalWorkers p + int n"
  "(addWorker ^^ n) p = p\<lparr>rp_workers := rp_workers p + replicate_mset n Idle, rp_wg := rp_wg p + n,
     rp_totalWorkers := rp_totalWorkers p + int n\<rparr>"
  by (induction n) (simp_all add: addWorker_def pool_step_defs)

lemma in_hand_replicate [simp]: "in_hand (replicate_mset n Idle) = {#}"
  by (induction n) simp_all

lemma filter_replicate_mset: "filter_mset P (replicate_mset n x) = (if P x then replicate_mset n x else {#})"
  by (induction n) auto

definition pool_inv :: "'o pool \<Rightarrow> bool" where
  "pool_inv p \<longleftrightarrow> accounted p \<and> counted p \<and> bounded p \<and> closing_ok p \<and> results_ok p"

lemma NewRetriableWorkerPool_inv:
  assumes "NewRetriableWorkerPool d opts = Inr p"
  shows "pool_inv p"
  using assms
  by (auto simp: NewRetriableWorkerPool_def Let_def start_pool_def addWorker_iter(4) pool_inv_def accounted_def counted_def
      bounded_def closing_ok_def results_ok_def filter_replicate_mset worker_limit_def split: if_splits)

lemma pool_step_conf: "pool_step p q \<Longrightarrow> rp_conf q = rp_conf p"
  by (auto elim!: pool_step_elims simp: pool_step_defs)

lemma accounted_step: "pool_step p q \<Longrightarrow> accounted p \<Longrightarrow> accounted q"
  by (auto elim!: pool_step_elims simp: accounted_def pool_step_defs dest!: multi_member_split)

lemma counted_step: "pool_step p q \<Longrightarrow> counted p \<Longrightarrow> counted q"
  by (auto elim!: pool_step_elims simp: counted_def pool_step_defs dest!: multi_member_split)

lemma closing_step: "pool_step p q \<Longrightarrow> closing_ok p \<Longrightarrow> closing_ok q"
  by (auto elim!: pool_step_elims simp: closing_ok_def pool_step_defs dest!: multi_member_split)

lemma scaler_ok_pred [simp]: "scaler_ok conf t s \<Longrightarrow> scaler_ok conf (t - 1) s"
  by (cases s) auto

lemma bounded_step: "pool_step p q \<Longrightarrow> bounded p \<Longrightarrow> bounded q"
  by (auto elim!: pool_step_elims simp: bounded_def pool_step_defs scale_up_def worker_limit_def)

lemma result_of_mono: "result_of conf d j r \<Longrightarrow> (d \<longrightarrow> d') \<Longrightarrow> result_of conf d' j r"
  unfolding result_of_def by blast

lemma worker_ok_mono: "worker_ok conf d w \<Longrightarrow> (d \<longrightarrow> d') \<Longrightarrow> worker_ok conf d' w"
  by (cases w) (auto intro: result_of_mono)

lemma pool_step_ctxDone: "pool_step p q \<Longrightarrow> rp_ctxDone p \<Longrightarrow> rp_ctxDone q"
  by (auto elim!: pool_step_elims simp: pool_step_defs)

lemma results_ok_worker_to:
  assumes "results_ok p" "worker_ok (rp_conf p) (rp_ctxDone p) b"
  shows "results_ok (worker_to a b p)"
  using assms by (auto simp: results_ok_def worker_to_def dest: in_diffD)

lemma results_ok_cong:
  "results_ok p \<Longrightarrow> rp_workers q = rp_workers p \<Longrightarrow> rp_delivered q = rp_delivered p \<Longrightarrow> rp_conf q = rp_conf p \<Longrightarrow>
   (rp_ctxDone p \<longrightarrow> rp_ctxDone q) \<Longrightarrow> results_ok q"
  unfolding results_ok_def using worker_ok_mono result_of_mono by fastforce

lemma results_ok_worker: "worker_step p q \<Longrightarrow> results_ok p \<Longrightarrow> results_ok q"
proof (induction rule: worker_step.induct)
  case (Perform d j p env)
  then have "result_of (rp_conf p) (rp_ctxDone p) j (fst (performWork (rp_conf p) env j))"
    unfolding result_of_def env_ok_def by blast
  with Perform show ?case by (intro results_ok_worker_to) simp_all
next
  case (Deliver j r p)
  then have "results_ok (p\<lparr>rp_delivered := add_mset (j, r) (rp_delivered p),
      rp_room := (rp_room p)(job_results j := rp_room p (job_results j) - 1)\<rparr>)" by (auto simp: results_ok_def)
  then show ?case by (rule results_ok_worker_to) simp
next
  case (CountActive j p)
  then show ?case by (intro results_ok_worker_to) (auto intro: results_ok_cong)
next
  case (CountIdle j r p)
  then have "result_of (rp_conf p) (rp_ctxDone p) j r" by (auto simp: results_ok_def)
  with CountIdle show ?case by (intro results_ok_worker_to) (auto intro: results_ok_cong)
next
  case (WgDone p)
  then show ?case by (auto simp: results_ok_def dest: in_diffD)
qed (auto intro!: results_ok_worker_to intro: results_ok_cong)

lemma results_step: "pool_step p q \<Longrightarrow> results_ok p \<Longrightarrow> results_ok q"
proof (induction rule: pool_step.induct)
  case (submit p q)
  then show ?case
    by (auto elim!: Submit_stepE intro!: results_ok_worker_to intro: results_ok_cong)
next
  case (shutdown p q)
  then show ?case by (auto elim!: Shutdown_stepE intro: results_ok_cong)
next
  case (worker p q)
  then show ?case by (rule results_ok_worker)
next
  case (scaler p q)
  have "results_ok (addWorker_go (p\<lparr>rp_scaler := x\<rparr>))" for x
    using scaler by (auto simp: results_ok_def addWorker_go_def)
  with scaler show ?case
    by (auto elim!: scaler_stepE simp: addWorker_count_def intro!: results_ok_worker_to intro: results_ok_cong)
next
  case (cancel p)
  then show ?case by (auto intro: results_ok_cong)
next
  case (results p c n)
  then show ?case by (auto intro: results_ok_cong)
qed

lemma pool_inv_step: "pool_step p q \<Longrightarrow> pool_inv p \<Longrightarrow> pool_inv q"
  unfolding pool_inv_def
  using accounted_step counted_step bounded_step closing_step results_step by blast

lemma pool_inv_steps: "pool_step\<^sup>*\<^sup>* p q \<Longrightarrow> pool_inv p \<Longrightarrow> pool_inv q"
  by (induction rule: rtranclp_induct) (auto intro: pool_inv_step)

lemma pool_inv_reachable:
  "NewRetriableWorkerPool d opts = Inr p0 \<Longrightarrow> pool_step\<^sup>*\<^sup>* p0 p \<Longrightarrow> pool_inv p"
  using NewRetriableWorkerPool_inv pool_inv_steps by blast

lemma pool_steps_conf: "pool_step\<^sup>*\<^sup>* p q \<Longrightarrow> rp_conf q = rp_conf p"
  by (induction rule: rtranclp_induct) (auto dest: pool_step_conf)

section \<open>Draining the queue\<close>

text \<open>
  The workers left to themselves: each of their steps lowers a measure, and as long as the context is
  not done, some worker is in its loop and the channels have room for all results to come, they get
  stuck only when all jobs have been worked off.
\<close>

fun steps_left :: "'o worker_state \<Rightarrow> nat" where
  "steps_left (Taken j) = 7"
| "steps_left (Running d j) = 6"
| "steps_left (Finished j r) = 5"
| "steps_left (Delivering j r) = 4"
| "steps_left Idle = 3"
| "steps_left Exiting = 2"
| "steps_left Exited = 1"

definition work_left :: "'o pool \<Rightarrow> nat" where
  "work_left p = 5 * length (rp_jobs p) + sum_mset (image_mset steps_left (rp_workers p))"

definition unfinished :: "'o pool \<Rightarrow> 'o Job multiset" where
  "unfinished p = mset (rp_jobs p) + in_hand (rp_workers p)"

definition room_ok :: "'o pool \<Rightarrow> bool" where
  "room_ok p \<longleftrightarrow> (\<forall>c. size (filter_mset (\<lambda>j. job_results j = c) (unfinished p)) \<le> rp_room p c)"

definition in_loop :: "'o pool \<Rightarrow> bool" where
  "in_loop p \<longleftrightarrow> (\<exists>w. w \<in># rp_workers p \<and> w \<noteq> Exiting \<and> w \<noteq> Exited)"

lemma work_left_step: "worker_step p q \<Longrightarrow> work_left q < work_left p"
  by (auto elim!: worker_stepE simp: work_left_def worker_to_def dest!: multi_member_split)

lemma work_left_steps: "(worker_step ^^ n) p q \<Longrightarrow> n + work_left q \<le> work_left p"
proof (induction n arbitrary: q)
  case (Suc n)
  then obtain r where r: "(worker_step ^^ n) p r" "worker_step r q" by auto
  from Suc.IH [OF r(1)] work_left_step [OF r(2)] show ?case by simp
qed simp

text \<open>What holds along a run of the workers.\<close>

definition draining :: "'o pool \<Rightarrow> 'o pool \<Rightarrow> bool" where
  "draining p q \<longleftrightarrow> \<not> rp_ctxDone q \<and> (unfinished q \<noteq> {#} \<longrightarrow> in_loop q) \<and> room_ok q \<and> results_ok q \<and>
     image_mset fst (rp_delivered p) + unfinished p = image_mset fst (rp_delivered q) + unfinished q \<and>
     rp_delivered p \<subseteq># rp_delivered q"

lemma unfinished_step:
  "worker_step p q \<Longrightarrow> \<not> rp_ctxDone p \<Longrightarrow> rp_delivered p \<subseteq># rp_delivered q \<and> \<not> rp_ctxDone q \<and>
     image_mset fst (rp_delivered p) + unfinished p = image_mset fst (rp_delivered q) + unfinished q"
  by (auto elim!: worker_stepE simp: unfinished_def worker_to_def dest!: multi_member_split)

lemma room_ok_step:
  assumes "worker_step p q" "\<not> rp_ctxDone p" "room_ok p"
  shows "room_ok q"
proof (cases "\<exists>j r. Delivering j r \<in># rp_workers p \<and> unfinished p = add_mset j (unfinished q) \<and>
    rp_room q = (rp_room p)(job_results j := rp_room p (job_results j) - 1)")
  case True
  then obtain j where u: "unfinished p = add_mset j (unfinished q)"
    "rp_room q = (rp_room p)(job_results j := rp_room p (job_results j) - 1)" by blast
  have "size (filter_mset (\<lambda>j. job_results j = c) (unfinished q)) \<le> rp_room q c" for c
    using assms(3) [unfolded room_ok_def, rule_format, of c] unfolding u by (auto split: if_splits)
  then show ?thesis by (simp add: room_ok_def)
next
  case False
  then have "unfinished q = unfinished p \<and> rp_room q = rp_room p"
    using assms(1,2) by (auto elim!: worker_stepE simp: unfinished_def worker_to_def dest!: multi_member_split)
  with assms(3) show ?thesis by (simp add: room_ok_def)
qed

lemma in_loopI: "w \<in># rp_workers p \<Longrightarrow> w \<noteq> Exiting \<Longrightarrow> w \<noteq> Exited \<Longrightarrow> in_loop p"
  by (auto simp: in_loop_def)

lemma in_loop_step:
  assumes "worker_step p q" "\<not> rp_ctxDone p" "unfinished p \<noteq> {#} \<longrightarrow> in_loop p"
  shows "unfinished q \<noteq> {#} \<longrightarrow> in_loop q"
proof
  assume q: "unfinished q \<noteq> {#}"
  show "in_loop q"
    using assms(1)
  proof (cases rule: worker_step.cases)
    case NoMoreJobs
    then have "in_hand (rp_workers q) \<noteq> {#}" using q by (simp add: unfinished_def worker_to_def)
    then obtain w where "w \<in># rp_workers q" "held w \<noteq> {#}" by (auto simp: in_hand_def)
    then show ?thesis by (intro in_loopI [of w]) auto
  next
    case CountExit
    then obtain W where W: "rp_workers p = add_mset Exiting W" by (meson multi_member_split)
    with CountExit q assms(3) have "in_loop p" by (auto simp: unfinished_def worker_to_def)
    with W CountExit(1) show ?thesis by (auto simp: in_loop_def worker_to_def)
  next
    case WgDone
    then obtain W where W: "rp_workers p = add_mset Exited W" by (meson multi_member_split)
    with WgDone q assms(3) have "in_loop p" by (auto simp: unfinished_def)
    with W WgDone(1) show ?thesis by (auto simp: in_loop_def)
  next
    case (Receive j js)
    then show ?thesis by (intro in_loopI [of "Taken j"]) (simp_all add: worker_to_def)
  next
    case (CountActive j)
    then show ?thesis by (intro in_loopI [of "Running (rp_ctxDone p) j"]) (simp_all add: worker_to_def)
  next
    case (Perform d j env)
    then show ?thesis by (intro in_loopI [of "Finished j (fst (performWork (rp_conf p) env j))"]) (simp_all add: worker_to_def)
  next
    case (CountIdle j r)
    then show ?thesis by (intro in_loopI [of "Delivering j r"]) (simp_all add: worker_to_def)
  next
    case (Deliver j r)
    then show ?thesis by (intro in_loopI [of Idle]) (simp_all add: worker_to_def)
  qed (use assms(2) in simp_all)
qed

lemma draining_step: "draining p q \<Longrightarrow> worker_step q r \<Longrightarrow> draining p r"
  using unfinished_step [of q r] room_ok_step [of q r] in_loop_step [of q r] results_ok_worker [of q r]
  by (auto simp: draining_def intro: subset_mset.order_trans)

text \<open>Nobody is stuck while there is a job.\<close>

lemma worker_can_go:
  assumes "\<not> rp_ctxDone p" "in_loop p" "room_ok p" "results_ok p" "unfinished p \<noteq> {#}"
  shows "\<exists>q. worker_step p q"
proof -
  have busy: "\<exists>q. worker_step p q" if w: "w \<in># rp_workers p" "held w \<noteq> {#}" for w
  proof (cases w)
    case (Taken j)
    with w CountActive show ?thesis by blast
  next
    case (Running d j)
    then have "\<not> d" using w(1) assms(1,4) by (auto simp: results_ok_def)
    then have "env_ok (rp_conf p) d (rp_ctxDone p) \<lparr>je_done = (\<lambda>_. False), je_since = (\<lambda>_. 0)\<rparr>" by (simp add: env_ok_def)
    with Running w(1) Perform show ?thesis by blast
  next
    case (Finished j r)
    with w CountIdle show ?thesis by blast
  next
    case (Delivering j r)
    then obtain W where "rp_workers p = add_mset (Delivering j r) W" using w(1) by (meson multi_member_split)
    then have "j \<in># filter_mset (\<lambda>i. job_results i = job_results j) (unfinished p)" by (simp add: unfinished_def)
    then have "0 < size (filter_mset (\<lambda>i. job_results i = job_results j) (unfinished p))" by (auto simp: nonempty_has_size [symmetric])
    with assms(3) have "0 < rp_room p (job_results j)" unfolding room_ok_def by (metis less_le_trans)
    with Delivering w(1) Deliver show ?thesis by blast
  qed (use w in simp_all)
  show ?thesis
  proof (cases "in_hand (rp_workers p) = {#}")
    case False
    then obtain w where "w \<in># rp_workers p" "held w \<noteq> {#}" by (auto simp: in_hand_def)
    with busy show ?thesis by blast
  next
    case True
    with assms(5) obtain j js where j: "rp_jobs p = j # js" by (cases "rp_jobs p") (auto simp: unfinished_def)
    from assms(2) obtain w where w: "w \<in># rp_workers p" "w \<noteq> Exiting" "w \<noteq> Exited" by (auto simp: in_loop_def)
    show ?thesis
    proof (cases "held w = {#}")
      case True
      with w have "Idle \<in># rp_workers p" by (cases w) simp_all
      with j Receive show ?thesis by blast
    next
      case False
      with busy w(1) show ?thesis by blast
    qed
  qed
qed

text \<open>A relation whose runs are bounded has runs that end.\<close>

lemma bounded_run_ends:
  assumes "\<forall>n q. (R ^^ n) p q \<longrightarrow> n \<le> k"
  shows "\<exists>q. R\<^sup>*\<^sup>* p q \<and> (\<nexists>q'. R q q')"
proof (rule ccontr)
  assume no: "\<nexists>q. R\<^sup>*\<^sup>* p q \<and> (\<nexists>q'. R q q')"
  have "\<exists>q. (R ^^ n) p q" for n
  proof (induction n)
    case (Suc n)
    then obtain q where q: "(R ^^ n) p q" by blast
    then have "R\<^sup>*\<^sup>* p q" by (rule relpowp_imp_rtranclp)
    with no obtain q' where "R q q'" by blast
    with q show ?case by (auto intro: relpowp_Suc_I)
  qed auto
  then obtain q where "(R ^^ Suc k) p q" by blast
  with assms have "Suc k \<le> k" by blast
  then show False by simp
qed

end
