(* ===== verification/Worker_Properties.thy ===== *)
theory Worker_Properties
  imports Worker_Pool
begin

text \<open>
  The properties of the worker pool, with witnesses: what the execution of a job returns and how
  long it waits, and what holds of the pool under every interleaving of its goroutines.
\<close>

section \<open>Jobs\<close>

text \<open>
  The reference: the first attempt that succeeds or is cancelled decides; if there is none, the
  job fails with the error of the last attempt.
\<close>

definition attempt_ends :: "job_env \<Rightarrow> 'o Job \<Rightarrow> nat \<Rightarrow> bool" where
  "attempt_ends env job i \<longleftrightarrow> je_done env i \<or> \<not> isl (job_work job i)"

definition perform_spec :: "poolConfig \<Rightarrow> job_env \<Rightarrow> 'o Job \<Rightarrow> 'o Result \<times> duration list" where
  "perform_spec conf env job =
     (let k = nat (maxRetries conf + 1) in
      case find (attempt_ends env job) [0 ..< k] of
        Some j \<Rightarrow>
          (\<lparr>Output = (if je_done env j then None else Some (projr (job_work job j))), Error = None,
            JobId = job_id job, Retries = int j, Duration = je_since env j,
            Status = (if je_done env j then StatusCancelled else StatusSuccess)\<rparr>,
           map (wait_before (retryDelay conf)) [0 ..< j + 1])
      | None \<Rightarrow>
          (\<lparr>Output = None, Error = (if k = 0 then None else Some (projl (job_work job (k - 1)))),
            JobId = job_id job, Retries = int k - 1, Duration = je_since env k, Status = StatusFailed\<rparr>,
           map (wait_before (retryDelay conf)) [0 ..< k]))"

lemma not_ends: "\<not> attempt_ends env job i \<longleftrightarrow> \<not> je_done env i \<and> job_work job i = Inl (projl (job_work job i))"
  by (cases "job_work job i") (auto simp: attempt_ends_def)

lemma find_upt:
  assumes "find P [0 ..< k] = Some j"
  shows "j < k \<and> P j \<and> (\<forall>m < j. \<not> P m)"
proof -
  from assms obtain i where "i < length [0 ..< k]" "P ([0 ..< k] ! i)" "j = [0 ..< k] ! i" "\<forall>m < i. \<not> P ([0 ..< k] ! m)"
    by (auto simp: find_Some_iff)
  then show ?thesis by auto
qed

lemma performWork_eq: "performWork conf env job = perform_spec conf env job"
proof -
  let ?k = "nat (maxRetries conf + 1)"
  show ?thesis
  proof (cases "find (attempt_ends env job) [0 ..< ?k]")
    case None
    then have "\<forall>i < ?k. \<not> attempt_ends env job i" by (simp add: find_None_iff)
    then have "\<forall>m < ?k. \<not> je_done env (0 + m) \<and> job_work job (0 + m) = Inl (projl (job_work job (0 + m)))"
      by (simp add: not_ends)
    from perform_loop_all_fail [OF this, of conf None "[]"] None show ?thesis
      by (simp add: performWork_def perform_spec_def Let_def)
  next
    case (Some j)
    from find_upt [OF Some] have j: "j < ?k" "attempt_ends env job j"
      and fails: "\<forall>m < j. \<not> je_done env (0 + m) \<and> job_work job (0 + m) = Inl (projl (job_work job (0 + m)))"
      by (simp_all add: not_ends)
    from j(2) have "je_done env (0 + j) \<or> job_work job (0 + j) = Inr (projr (job_work job (0 + j)))"
      by (auto simp: attempt_ends_def)
    from perform_loop_first [OF fails j(1) this, of conf None "[]"] Some show ?thesis
      by (simp add: performWork_def perform_spec_def Let_def)
  qed
qed

text \<open>C31: executing a job is what the reference says.\<close>

theorem performWork_reference: "performWork conf env job = perform_spec conf env job"
  by (rule performWork_eq)

lemma perform_loop_waits:
  "\<exists>n \<le> k. snd (perform_loop conf env job k i lastErr waits) = waits @ map (wait_before (retryDelay conf)) [i ..< i + n]"
proof (induction k arbitrary: i lastErr waits)
  case 0
  then show ?case by simp
next
  case (Suc k)
  let ?w = "wait_before (retryDelay conf) i"
  have one: "snd (perform_loop conf env job (Suc k) i lastErr waits) = waits @ map (wait_before (retryDelay conf)) [i ..< i + 1]"
    if "attempt_ends env job i"
    using that by (auto simp: attempt_ends_def wait_before_def Let_def split: sum.splits)
  show ?case
  proof (cases "attempt_ends env job i")
    case True
    from one [OF this] show ?thesis by (intro exI [of _ 1]) simp
  next
    case False
    then have "\<not> je_done env i" "job_work job i = Inl (projl (job_work job i))" by (simp_all add: not_ends)
    then have "perform_loop conf env job (Suc k) i lastErr waits =
        perform_loop conf env job k (Suc i) (Some (projl (job_work job i))) (waits @ [?w])"
      by (cases "job_work job i") (simp_all add: isRetriable_def wait_before_def Let_def)
    with Suc.IH [of "Suc i" "Some (projl (job_work job i))" "waits @ [?w]"] obtain n where
      "n \<le> k" "snd (perform_loop conf env job (Suc k) i lastErr waits) = (waits @ [?w]) @ map (wait_before (retryDelay conf)) [Suc i ..< Suc i + n]"
      by auto
    then show ?thesis by (intro exI [of _ "Suc n"]) (simp add: upt_conv_Cons del: upt_Suc)
  qed
qed

text \<open>
  C32: if the largest back-off fits into 63 bits, the waits double: no wait before the first
  attempt, then \<open>2 d\<close>, \<open>4 d\<close> and so on, for at most \<open>maxRetries + 1\<close> attempts.
\<close>

theorem performWork_waits_double:
  assumes "0 \<le> retryDelay conf" "maxRetries conf = int n" "n < 63" "retryDelay conf * 2 ^ n < 2 ^ 63"
  shows "\<exists>k. k \<le> n + 1 \<and> snd (performWork conf env job) = map (\<lambda>i. if i = 0 then 0 else retryDelay conf * 2 ^ i) [0 ..< k]"
proof -
  have "wait_before (retryDelay conf) i = (if i = 0 then 0 else retryDelay conf * 2 ^ i)" if "i \<le> n" for i
  proof -
    have "retryDelay conf * 2 ^ i \<le> retryDelay conf * 2 ^ n"
      using assms(1) that by (intro mult_left_mono power_increasing) simp_all
    with backoff_exact [OF assms(1), of i] assms(3,4) that show ?thesis by (simp add: wait_before_def)
  qed
  moreover have "nat (maxRetries conf + 1) = n + 1" using assms(2) by simp
  ultimately show ?thesis using perform_loop_waits [of "n + 1" conf env job 0 None "[]"]
    unfolding performWork_def by (fastforce intro!: map_cong)
qed

lemma performWork_waits_double_witness:
  "\<exists>k. k \<le> 3 + 1 \<and> snd (performWork defaultPoolConfig \<lparr>je_done = (\<lambda>_. False), je_since = (\<lambda>_. 0)\<rparr>
      \<lparr>job_id = 1, job_work = (\<lambda>i. Inl EOF :: go_error + nat), job_results = 0\<rparr>) =
    map (\<lambda>i. if i = 0 then 0 else retryDelay defaultPoolConfig * 2 ^ i) [0 ..< k]"
  by (rule performWork_waits_double) (simp_all add: defaultPoolConfig_def)

text \<open>
  Beyond that the back-off wraps around: with the default delay of two seconds the wait before
  retry 33 is negative, that is none, and from the 64th retry on no delay has any effect.
\<close>

lemma backoff_wraps:
  assumes "64 \<le> n"
  shows "backoff d n = 0 \<and> backoff (retryDelay defaultPoolConfig) 33 < 0"
proof -
  have "backoff 2000000000 33 < 0" by code_simp
  with backoff_zero [OF assms] show ?thesis by (simp add: defaultPoolConfig_def)
qed

lemma backoff_wraps_witness: "backoff 5 64 = 0 \<and> backoff (retryDelay defaultPoolConfig) 33 < 0"
  by (rule backoff_wraps) simp

section \<open>The pool\<close>

definition demo_job :: "nat Job" where
  "demo_job = \<lparr>job_id = 1, job_work = (\<lambda>i. if i = 0 then Inl EOF else Inr 7), job_results = 0\<rparr>"

definition demo_pool :: "nat pool" where
  "demo_pool = projr (NewRetriableWorkerPool False [WithMinWorkers 1, WithMaxWorkers 2])"

lemma demo_pool: "NewRetriableWorkerPool False [WithMinWorkers 1, WithMaxWorkers 2] = Inr demo_pool"
  by (simp add: demo_pool_def NewRetriableWorkerPool_def Let_def pool_config_def defaultPoolConfig_def
      WithMinWorkers_def WithMaxWorkers_def)

lemma demo_pool_fields:
  "rp_workers demo_pool = {#Idle#}" "rp_jobs demo_pool = []" "\<not> rp_locked demo_pool" "\<not> rp_isClosed demo_pool"
  "rp_submitters demo_pool = {#}" "rp_accepted demo_pool = {#}" "rp_delivered demo_pool = {#}"
  "minWorkers (rp_conf demo_pool) = 1" "maxWorkers (rp_conf demo_pool) = 2" "bufferSize (rp_conf demo_pool) = 6"
  by (simp_all add: demo_pool_def NewRetriableWorkerPool_def Let_def pool_config_def defaultPoolConfig_def
      WithMinWorkers_def WithMaxWorkers_def start_pool_def addWorker_def pool_step_defs)

text \<open>A run in which the channel of the results is made and the job submitted; and how it is worked off.\<close>

definition demo_roomy :: "nat pool" where
  "demo_roomy = demo_pool\<lparr>rp_room := (rp_room demo_pool)(0 := rp_room demo_pool 0 + 1)\<rparr>"

definition demo_queued :: "nat pool" where
  "demo_queued = demo_roomy\<lparr>rp_submitters := {#}, rp_jobs := [demo_job], rp_accepted := {#demo_job#}\<rparr>"

lemma demo_submit: "pool_step\<^sup>*\<^sup>* demo_pool demo_queued"
proof -
  let ?p1 = "demo_roomy\<lparr>rp_submitters := {#demo_job#}\<rparr>"
  have "pool_step demo_pool demo_roomy" unfolding demo_roomy_def by (rule results)
  moreover have "pool_step demo_roomy ?p1"
    using submit [OF Enter [of demo_roomy demo_job]] by (simp add: demo_pool_fields demo_roomy_def)
  moreover have "pool_step ?p1 demo_queued"
    using submit [OF Send [of demo_job ?p1]] demo_pool_fields(2,5,6,10) by (simp add: demo_queued_def demo_roomy_def)
  ultimately show ?thesis by (meson converse_rtranclp_into_rtranclp r_into_rtranclp)
qed

lemma demo_queued_fields:
  "\<not> rp_ctxDone demo_queued" "in_loop demo_queued" "room_ok demo_queued" "unfinished demo_queued = {#demo_job#}"
  "rp_delivered demo_queued = {#}"
proof -
  have "\<not> rp_ctxDone demo_pool" by (simp add: demo_pool_def NewRetriableWorkerPool_def Let_def pool_config_def
      defaultPoolConfig_def WithMinWorkers_def WithMaxWorkers_def start_pool_def addWorker_def pool_step_defs)
  moreover have "rp_room demo_queued 0 = rp_room demo_pool 0 + 1" by (simp add: demo_queued_def demo_roomy_def)
  ultimately show "\<not> rp_ctxDone demo_queued" "in_loop demo_queued" "room_ok demo_queued" "unfinished demo_queued = {#demo_job#}"
    "rp_delivered demo_queued = {#}"
    by (auto simp: demo_queued_def demo_roomy_def demo_pool_fields in_loop_def room_ok_def unfinished_def demo_job_def)
qed

text \<open>The workers left to themselves.\<close>

lemma worker_steps_pool: "worker_step\<^sup>*\<^sup>* p q \<Longrightarrow> pool_step\<^sup>*\<^sup>* p q"
  by (induction rule: rtranclp_induct) (auto intro: worker rtranclp.rtrancl_into_rtrancl)

lemma draining_steps:
  assumes "worker_step\<^sup>*\<^sup>* p q" "\<not> rp_ctxDone p" "in_loop p" "room_ok p" "results_ok p"
  shows "draining p q"
proof -
  have "draining p p" using assms(2-5) by (simp add: draining_def)
  with assms(1) show ?thesis by (induction rule: rtranclp_induct) (auto intro: draining_step)
qed

lemma result_not_cancelled:
  assumes "result_of conf False j r"
  shows "Status r \<noteq> StatusCancelled \<and> JobId r = job_id j"
proof -
  from assms obtain env where "\<forall>i. \<not> je_done env i" "r = fst (perform_spec conf env j)"
    unfolding result_of_def performWork_eq by blast
  then show ?thesis by (simp add: perform_spec_def Let_def split: option.splits)
qed

lemma drained:
  assumes "draining p q" "\<nexists>q'. worker_step q q'"
  shows "unfinished q = {#} \<and> image_mset fst (rp_delivered q) = image_mset fst (rp_delivered p) + unfinished p \<and>
    (\<forall>(j, r) \<in># rp_delivered q. Status r \<noteq> StatusCancelled \<and> JobId r = job_id j)"
proof -
  from assms(1) have d: "\<not> rp_ctxDone q" "unfinished q \<noteq> {#} \<longrightarrow> in_loop q" "room_ok q" "results_ok q"
    "image_mset fst (rp_delivered p) + unfinished p = image_mset fst (rp_delivered q) + unfinished q"
    by (simp_all add: draining_def)
  with worker_can_go assms(2) have "unfinished q = {#}" by blast
  moreover have "\<forall>(j, r) \<in># rp_delivered q. Status r \<noteq> StatusCancelled \<and> JobId r = job_id j"
    using d(1,4) result_not_cancelled by (fastforce simp: results_ok_def)
  ultimately show ?thesis using d(5) by simp
qed

lemma demo_job_run: "\<exists>p r. pool_step\<^sup>*\<^sup>* demo_pool p \<and> rp_delivered p = {#(demo_job, r)#}"
proof -
  have "\<forall>n q. (worker_step ^^ n) demo_queued q \<longrightarrow> n \<le> work_left demo_queued" using work_left_steps add_leD1 by blast
  from bounded_run_ends [OF this] obtain q where q: "worker_step\<^sup>*\<^sup>* demo_queued q" "\<nexists>q'. worker_step q q'" by blast
  have "results_ok demo_queued" using pool_inv_reachable [OF demo_pool demo_submit] by (simp add: pool_inv_def)
  from drained [OF draining_steps [OF q(1) demo_queued_fields(1-3) this] q(2)]
  have "image_mset fst (rp_delivered q) = {#demo_job#}" by (simp add: demo_queued_fields)
  then have "size (rp_delivered q) = 1" by (metis size_image_mset size_single)
  then obtain x where "rp_delivered q = {#x#}" using size_1_singleton_mset by blast
  moreover from this \<open>image_mset fst (rp_delivered q) = {#demo_job#}\<close> have "x = (demo_job, snd x)" by (cases x) simp
  ultimately have "rp_delivered q = {#(demo_job, snd x)#}" by simp
  with rtranclp_trans [OF demo_submit worker_steps_pool [OF q(1)]] show ?thesis by blast
qed

text \<open>
  C33: no job is lost or executed twice: at every moment an accepted job is in the queue, in the hands of
  one worker, or its result has been sent, unless the context is done and the result was given up.
\<close>

theorem pool_accounts_for_jobs:
  assumes "NewRetriableWorkerPool d opts = Inr p0" "pool_step\<^sup>*\<^sup>* p0 p"
  shows "rp_accepted p = mset (rp_jobs p) + in_hand (rp_workers p) + image_mset fst (rp_delivered p) + rp_dropped p \<and>
    (rp_dropped p = {#} \<or> rp_ctxDone p)"
  using pool_inv_reachable [OF assms] by (auto simp: pool_inv_def accounted_def)

lemma pool_accounts_for_jobs_witness:
  "rp_accepted demo_queued = mset (rp_jobs demo_queued) + in_hand (rp_workers demo_queued) +
     image_mset fst (rp_delivered demo_queued) + rp_dropped demo_queued \<and>
   (rp_dropped demo_queued = {#} \<or> rp_ctxDone demo_queued)"
  by (rule pool_accounts_for_jobs [OF demo_pool demo_submit])

text \<open>
  Every result that is sent is one that \<open>performWork\<close> returns for its job, and not a cancelled
  one unless the context is done.
\<close>

lemma pool_results_are_performed:
  assumes "NewRetriableWorkerPool d opts = Inr p0" "pool_step\<^sup>*\<^sup>* p0 p" "(j, r) \<in># rp_delivered p"
  shows "\<exists>env. r = fst (performWork (rp_conf p0) env j) \<and> (rp_ctxDone p \<or> \<not> (\<exists>i. je_done env i))"
proof -
  from pool_inv_reachable [OF assms(1,2)] assms(3) have "result_of (rp_conf p) (rp_ctxDone p) j r"
    by (auto simp: pool_inv_def results_ok_def)
  then show ?thesis unfolding result_of_def pool_steps_conf [OF assms(2)] by blast
qed

lemma pool_results_are_performed_witness:
  "\<exists>(p :: nat pool) r env. rp_delivered p = {#(demo_job, r)#} \<and> r = fst (performWork (rp_conf demo_pool) env demo_job) \<and>
    (rp_ctxDone p \<or> \<not> (\<exists>i. je_done env i))"
proof -
  from demo_job_run obtain p r where p: "pool_step\<^sup>*\<^sup>* demo_pool p" "rp_delivered p = {#(demo_job, r)#}" by blast
  then have "(demo_job, r) \<in># rp_delivered p" by simp
  from pool_results_are_performed [OF demo_pool p(1) this] obtain env where
    "r = fst (performWork (rp_conf demo_pool) env demo_job)" "rp_ctxDone p \<or> \<not> (\<exists>i. je_done env i)" by blast
  with p(2) show ?thesis by (intro exI [of _ p] exI [of _ r] exI [of _ env]) simp
qed

text \<open>
  C34: the counters are exact up to the worker being added, the number of workers never exceeds the
  larger of the two bounds, and the queue never exceeds its buffer.
\<close>

theorem pool_bounded:
  assumes "NewRetriableWorkerPool d opts = Inr p0" "pool_step\<^sup>*\<^sup>* p0 p"
  shows "int (size (filter_mset (\<lambda>w. w \<noteq> Exited) (rp_workers p))) \<le>
      max (max 0 (minWorkers (rp_conf p0))) (maxWorkers (rp_conf p0)) \<and>
    rp_totalWorkers p + scaler_adding (rp_scaler p) = int (size (filter_mset (\<lambda>w. w \<noteq> Exited) (rp_workers p))) \<and>
    rp_activeWorkers p = int (size (filter_mset is_active (rp_workers p))) \<and>
    rp_wg p = size (rp_workers p) \<and> int (length (rp_jobs p)) \<le> bufferSize (rp_conf p0)"
proof -
  have "0 \<le> bufferSize (rp_conf p0)"
    using assms(1) by (auto simp: NewRetriableWorkerPool_def Let_def start_pool_def addWorker_iter(4) split: if_splits)
  with pool_inv_reachable [OF assms] pool_steps_conf [OF assms(2)] show ?thesis
    by (simp add: pool_inv_def counted_def bounded_def worker_limit_def)
qed

lemma pool_bounded_witness:
  "int (size (filter_mset (\<lambda>w. w \<noteq> Exited) (rp_workers demo_queued))) \<le>
      max (max 0 (minWorkers (rp_conf demo_pool))) (maxWorkers (rp_conf demo_pool)) \<and>
    rp_totalWorkers demo_queued + scaler_adding (rp_scaler demo_queued) =
      int (size (filter_mset (\<lambda>w. w \<noteq> Exited) (rp_workers demo_queued))) \<and>
    rp_activeWorkers demo_queued = int (size (filter_mset is_active (rp_workers demo_queued))) \<and>
    rp_wg demo_queued = size (rp_workers demo_queued) \<and> int (length (rp_jobs demo_queued)) \<le> bufferSize (rp_conf demo_pool)"
  by (rule pool_bounded [OF demo_pool demo_submit])

text \<open>C35: no job is sent on the closed channel: a \<open>Submit\<close> past its check keeps \<open>Shutdown\<close> from closing it.\<close>

theorem pool_no_send_on_closed:
  assumes "NewRetriableWorkerPool d opts = Inr p0" "pool_step\<^sup>*\<^sup>* p0 p" "rp_submitters p \<noteq> {#}"
  shows "\<not> rp_jobsClosed p"
  using pool_inv_reachable [OF assms(1,2)] assms(3) by (auto simp: pool_inv_def closing_ok_def)

lemma pool_no_send_on_closed_witness: "\<not> rp_jobsClosed (demo_pool\<lparr>rp_submitters := {#demo_job#}\<rparr>)"
proof (rule pool_no_send_on_closed [OF demo_pool])
  show "pool_step\<^sup>*\<^sup>* demo_pool (demo_pool\<lparr>rp_submitters := {#demo_job#}\<rparr>)"
    using submit [OF Enter [of demo_pool demo_job]] by (simp add: demo_pool_fields r_into_rtranclp)
qed simp

text \<open>
  C36: the workers drain the queue: take a state that the pool can reach in which the context is not
  done, some worker is in its loop, and the channels have room for the results of all jobs that are
  queued or in hand (and attempts return). Then, while only the workers run, they cannot run for ever:
  they make at most \<open>work_left\<close> steps. And whatever they do, when none of them can go on the queue is
  empty, no worker has a job in hand, every one of these jobs has been delivered exactly once, and
  each result carries the id of its job and is not a cancelled one.
\<close>

theorem pool_drains:
  assumes "NewRetriableWorkerPool d opts = Inr p0" "pool_step\<^sup>*\<^sup>* p0 p" "\<not> rp_ctxDone p" "in_loop p" "room_ok p"
  shows "(\<forall>n q. (worker_step ^^ n) p q \<longrightarrow> n \<le> work_left p) \<and>
    (\<forall>q. worker_step\<^sup>*\<^sup>* p q \<longrightarrow> (\<nexists>q'. worker_step q q') \<longrightarrow>
       rp_jobs q = [] \<and> in_hand (rp_workers q) = {#} \<and>
       image_mset fst (rp_delivered q) =
         image_mset fst (rp_delivered p) + mset (rp_jobs p) + in_hand (rp_workers p) \<and>
       (\<forall>(j, r) \<in># rp_delivered q. Status r \<noteq> StatusCancelled \<and> JobId r = job_id j))"
proof -
  have "results_ok p" using pool_inv_reachable [OF assms(1,2)] by (simp add: pool_inv_def)
  note draining_steps [OF _ assms(3-5) this]
  with drained have "unfinished q = {#} \<and> image_mset fst (rp_delivered q) = image_mset fst (rp_delivered p) + unfinished p \<and>
      (\<forall>(j, r) \<in># rp_delivered q. Status r \<noteq> StatusCancelled \<and> JobId r = job_id j)"
    if "worker_step\<^sup>*\<^sup>* p q" "\<nexists>q'. worker_step q q'" for q using that by blast
  moreover have "n \<le> work_left p" if "(worker_step ^^ n) p q" for n q using work_left_steps [OF that] by simp
  ultimately show ?thesis by (simp add: unfinished_def add.assoc)
qed

lemma pool_drains_witness:
  "\<exists>q. worker_step\<^sup>*\<^sup>* demo_queued q \<and> rp_jobs q = [] \<and> in_hand (rp_workers q) = {#} \<and>
    image_mset fst (rp_delivered q) =
      image_mset fst (rp_delivered demo_queued) + mset (rp_jobs demo_queued) + in_hand (rp_workers demo_queued)"
proof -
  note d = pool_drains [OF demo_pool demo_submit demo_queued_fields(1-3)]
  from d have "\<forall>n q. (worker_step ^^ n) demo_queued q \<longrightarrow> n \<le> work_left demo_queued" by blast
  from bounded_run_ends [OF this] obtain q where "worker_step\<^sup>*\<^sup>* demo_queued q" "\<nexists>q'. worker_step q q'" by blast
  with d show ?thesis by blast
qed

text \<open>
  A second \<open>Shutdown\<close> keeps the lock for ever: after it no call of \<open>Submit\<close> and no further
  \<open>Shutdown\<close> gets past \<open>submitMu\<close>.
\<close>

lemma second_Shutdown_keeps_lock:
  assumes "\<not> rp_locked p" "rp_submitters p = {#}" "rp_isClosed p"
  shows "Shutdown_step p (p\<lparr>rp_locked := True\<rparr>) \<and>
    (\<forall>q. pool_step\<^sup>*\<^sup>* (p\<lparr>rp_locked := True\<rparr>) q \<longrightarrow> rp_locked q \<and> \<not> (\<exists>q'. Submit_step q q'))"
proof (intro conjI allI impI)
  show "Shutdown_step p (p\<lparr>rp_locked := True\<rparr>)" using assms by (rule Again)
next
  fix q assume "pool_step\<^sup>*\<^sup>* (p\<lparr>rp_locked := True\<rparr>) q"
  then have "rp_locked q \<and> rp_submitters q = {#}"
    by (induction rule: rtranclp_induct)
      (auto simp: assms(2) pool_step_defs elim!: pool_step_elims)
  then show "rp_locked q" "\<not> (\<exists>q'. Submit_step q q')" by (auto elim!: Submit_stepE)
qed

definition demo_closed :: "nat pool" where
  "demo_closed = demo_pool\<lparr>rp_jobsClosed := True, rp_isClosed := True, rp_stopping := True\<rparr>"

lemma second_Shutdown_keeps_lock_witness:
  "Shutdown_step demo_closed (demo_closed\<lparr>rp_locked := True\<rparr>) \<and> \<not> (\<exists>q'. Submit_step (demo_closed\<lparr>rp_locked := True\<rparr>) q')"
proof -
  have "\<not> rp_locked demo_closed" "rp_submitters demo_closed = {#}" "rp_isClosed demo_closed"
    by (simp_all add: demo_closed_def demo_pool_fields)
  from second_Shutdown_keeps_lock [OF this] show ?thesis by blast
qed

end
