(* ===== verification/Tcp_Pool.thy ===== *)
theory Tcp_Pool
  imports Wal Protocol "HOL-Library.Multiset"
begin

text \<open>
  The connection pool of the client, \<open>internal/transport/tcp_pool.go\<close>: dialling the initial
  connections, \<open>Get\<close> with its health check, \<open>Put\<close> and \<open>ClosePool\<close>. The methods are functions of
  the pool; what the network does is an argument of them. Below stands a step relation in
  which any number of users call them.
\<close>

section \<open>Connections\<close>

text \<open>
  The client's end of a connection: \<open>tc_in\<close> is what still arrives from the peer before it closes
  (\<open>tc_eof\<close>) or the read deadline passes; \<open>tc_out\<close> is what has been sent. A deadline can be
  set unless the connection is closed.
\<close>

record tcp_conn =
  tc_id :: nat
  tc_in :: bytes
  tc_eof :: bool
  tc_out :: conn
  tc_closed :: bool

definition SetReadDeadline :: "tcp_conn \<Rightarrow> go_error option" where
  "SetReadDeadline c = (if tc_closed c then Some ErrClosedConn else None)"

definition tc_close :: "tcp_conn \<Rightarrow> tcp_conn" where
  "tc_close c = c\<lparr>tc_closed := True\<rparr>"

text \<open>Sending a message, and receiving one with its whole payload.\<close>

definition tc_Encode :: "message \<Rightarrow> tcp_conn \<Rightarrow> go_error option \<times> tcp_conn" where
  "tc_Encode m c =
     (if tc_closed c then (Some (wrap ''failed to encode data and write header'' ErrClosedConn), c)
      else case Encode conn_Write m (tc_out c) of (e, left, out) \<Rightarrow> (e, c\<lparr>tc_out := out\<rparr>))"

definition tc_Decode :: "tcp_conn \<Rightarrow> go_error + (message \<times> tcp_conn)" where
  "tc_Decode c =
     (case Decode (tc_in c) of
        Inl e \<Rightarrow> Inl (if e = EOF \<and> \<not> tc_eof c then wrap ''failed to decode header'' ErrIO else e)
      | Inr (m, r) \<Rightarrow> Inr (m, c\<lparr>tc_in := r\<rparr>))"

text \<open>\<open>io.ReadAll\<close> on the payload: a peer that falls silent within it is an error, one that closes is not.\<close>

definition tc_ReadAll :: "message \<Rightarrow> tcp_conn \<Rightarrow> (go_error + bytes) \<times> tcp_conn" where
  "tc_ReadAll m c =
     (let n = unat (Length m)
      in (if length (tc_in c) < n \<and> \<not> tc_eof c then Inl ErrIO else Inr (take n (tc_in c)),
          c\<lparr>tc_in := drop n (tc_in c)\<rparr>))"

section \<open>The pool\<close>

record TCPPool =
  tp_addr :: string
  tp_maxConn :: u16
  tp_dialTimeout :: duration
  tp_healthCheckTimeout :: duration
  tp_shutdownTimeout :: duration
  tp_cap :: nat
  tp_connections :: "tcp_conn list"
  tp_chanClosed :: bool
  tp_isClosed :: bool

type_synonym TCPPoolOption = "TCPPool \<Rightarrow> TCPPool"

definition defaultTCPPoolConfig :: TCPPool where
  "defaultTCPPoolConfig = \<lparr>tp_addr = '''', tp_maxConn = 5, tp_dialTimeout = 5000000000,
     tp_healthCheckTimeout = 2000000000, tp_shutdownTimeout = 5000000000, tp_cap = 0,
     tp_connections = [], tp_chanClosed = False, tp_isClosed = False\<rparr>"

definition WithMaxConn :: "u16 \<Rightarrow> TCPPoolOption" where
  "WithMaxConn maxConn t = t\<lparr>tp_maxConn := maxConn\<rparr>"

definition WithDialTimeout :: "duration \<Rightarrow> TCPPoolOption" where
  "WithDialTimeout timeout t = t\<lparr>tp_dialTimeout := timeout\<rparr>"

definition WithPoolShutdownTimeout :: "duration \<Rightarrow> TCPPoolOption" where
  "WithPoolShutdownTimeout timeout t = t\<lparr>tp_shutdownTimeout := timeout\<rparr>"

definition createNewConnection :: "go_error + tcp_conn \<Rightarrow> go_error + tcp_conn" where
  "createNewConnection dial = (case dial of Inl e \<Rightarrow> Inl ErrTCPAccept | Inr conn \<Rightarrow> Inr conn)"

text \<open>The health check also returns the connection, on which a ping has been sent and received.\<close>

definition performHealthCheck :: "tcp_conn \<Rightarrow> bool \<times> tcp_conn" where
  "performHealthCheck conn =
     (case SetReadDeadline conn of
        Some e \<Rightarrow> (False, conn)
      | None \<Rightarrow>
          (case tc_Encode (NewMessage TypePing (Some (bytes_of_string ''PING'')) 4) conn of
             (Some e, c1) \<Rightarrow> (False, c1)
           | (None, c1) \<Rightarrow>
               (case tc_Decode c1 of
                  Inl e \<Rightarrow> (False, c1)
                | Inr (resp, c2) \<Rightarrow>
                    (case tc_ReadAll resp c2 of
                       (Inl e, c3) \<Rightarrow> (False, c3)
                     | (Inr readBuffer, c3) \<Rightarrow>
                         if string_of_bytes readBuffer = ''PING'' then (SetReadDeadline c3 = None, c3)
                         else (False, c3)))))"

text \<open>
  \<open>ClosePool\<close> marks the pool and closes the channel under the lock, and starts a goroutine that takes
  the pooled connections from the channel, one by one, and closes them: \<open>drain_next\<close> is one round of
  its loop and \<open>drain\<close> the loop when nobody else uses the pool, both with the connections that they
  close.
\<close>

definition ClosePool_start :: "TCPPool \<Rightarrow> TCPPool" where
  "ClosePool_start t = t\<lparr>tp_isClosed := True, tp_chanClosed := True\<rparr>"

definition drain_next :: "TCPPool \<Rightarrow> tcp_conn list \<times> TCPPool" where
  "drain_next t =
     (case tp_connections t of [] \<Rightarrow> ([], t) | conn # cs \<Rightarrow> ([tc_close conn], t\<lparr>tp_connections := cs\<rparr>))"

fun drain :: "nat \<Rightarrow> TCPPool \<Rightarrow> tcp_conn list \<times> TCPPool" where
  "drain 0 t = ([], t)"
| "drain (Suc n) t = (let (cl, t1) = drain_next t; (cl', t2) = drain n t1 in (cl @ cl', t2))"

definition ClosePool :: "TCPPool \<Rightarrow> tcp_conn list \<times> TCPPool" where
  "ClosePool t = (if tp_isClosed t then ([], t) else drain (length (tp_connections t)) (ClosePool_start t))"

lemma drain_eq: "drain (length (tp_connections t)) t = (map tc_close (tp_connections t), t\<lparr>tp_connections := []\<rparr>)"
proof (induction "tp_connections t" arbitrary: t)
  case Nil
  then show ?case by simp
next
  case (Cons c cs)
  then have "drain (length cs) (t\<lparr>tp_connections := cs\<rparr>) = (map tc_close cs, t\<lparr>tp_connections := []\<rparr>)"
    using Cons(1) [of "t\<lparr>tp_connections := cs\<rparr>"] by simp
  with Cons(2) [symmetric] show ?case by (simp add: drain_next_def)
qed

lemma ClosePool_eq:
  "ClosePool t = (if tp_isClosed t then ([], t)
     else (map tc_close (tp_connections t), t\<lparr>tp_isClosed := True, tp_chanClosed := True, tp_connections := []\<rparr>))"
  using drain_eq [of "ClosePool_start t"] by (simp add: ClosePool_def ClosePool_start_def)

text \<open>
  One goroutine of \<open>NewTCPPool\<close> after its dial: the first error is kept, a connection is sent to the
  channel under the lock. If the channel is full, nobody receives and the lock is never
  released: the call blocks.
\<close>

datatype 'a outcome = Returns 'a | Blocks

fun dialled ::
  "(go_error + tcp_conn) list \<Rightarrow> go_error option \<Rightarrow> TCPPool \<Rightarrow> (go_error option \<times> TCPPool) outcome" where
  "dialled [] firstErr t = Returns (firstErr, t)"
| "dialled (d # ds) firstErr t =
     (case createNewConnection d of
        Inl e \<Rightarrow>
          dialled ds (if firstErr = None then Some (wrap ''failed to create new tcp connection'' e) else firstErr) t
      | Inr conn \<Rightarrow>
          if tp_isClosed t then dialled ds firstErr t
          else if length (tp_connections t) < tp_cap t
            then dialled ds firstErr (t\<lparr>tp_connections := tp_connections t @ [conn]\<rparr>)
            else Blocks)"

text \<open>
  \<open>NewTCPPool\<close>: the channel is made with the default size, before the options are applied.
  \<open>dials n\<close> is what \<open>n\<close> dials give, in the order in which they end. After an error the pool is
  closed; the second component are the connections this closes.
\<close>

definition NewTCPPool ::
  "string \<Rightarrow> TCPPoolOption list \<Rightarrow> (nat \<Rightarrow> (go_error + tcp_conn) list) \<Rightarrow> ((go_error + TCPPool) \<times> tcp_conn list) outcome" where
  "NewTCPPool addr opts dials =
     (let t0 = defaultTCPPoolConfig\<lparr>tp_addr := addr\<rparr>;
          t1 = t0\<lparr>tp_cap := unat (tp_maxConn t0)\<rparr>;
          t = fold (\<lambda>opt t. opt t) opts t1
      in case dialled (dials (unat (tp_maxConn t))) None t of
           Blocks \<Rightarrow> Blocks
         | Returns (Some e, t') \<Rightarrow> Returns (Inl e, fst (ClosePool t'))
         | Returns (None, t') \<Rightarrow> Returns (Inr t', []))"

text \<open>
  \<open>Get\<close>: the check under the lock, and the select after it. A failed health check closes the
  connection, the second component of the result. \<open>dial\<close> is what a new dial gives.
\<close>

definition Get_select :: "go_error + tcp_conn \<Rightarrow> TCPPool \<Rightarrow> (go_error + tcp_conn) \<times> tcp_conn list \<times> TCPPool" where
  "Get_select dial t =
     (case tp_connections t of
        conn # cs \<Rightarrow>
          (let t' = t\<lparr>tp_connections := cs\<rparr> in
           case performHealthCheck conn of
             (True, c) \<Rightarrow> (Inr c, [], t')
           | (False, c) \<Rightarrow> (createNewConnection dial, [tc_close c], t'))
      | [] \<Rightarrow> if tp_chanClosed t then (Inl ErrPoolClosed, [], t) else (createNewConnection dial, [], t))"

definition Get_conn :: "go_error + tcp_conn \<Rightarrow> TCPPool \<Rightarrow> (go_error + tcp_conn) \<times> tcp_conn list \<times> TCPPool" where
  "Get_conn dial t = (if tp_isClosed t then (Inl ErrPoolClosed, [], t) else Get_select dial t)"

text \<open>
  \<open>Put\<close>: into the channel if it has room, otherwise the connection is closed (the first component); on a
  closed pool nothing is done with it.
\<close>

definition Put_conn :: "tcp_conn \<Rightarrow> TCPPool \<Rightarrow> tcp_conn list \<times> TCPPool" where
  "Put_conn conn t =
     (if tp_isClosed t then ([], t)
      else if length (tp_connections t) < tp_cap t then ([], t\<lparr>tp_connections := tp_connections t @ [conn]\<rparr>)
      else ([tc_close conn], t))"

section \<open>Users of the pool\<close>

text \<open>
  The connections by owner: in the pool, handed out, closed, and those put back into a closed
  pool. \<open>ps_waiting\<close> counts the calls of \<open>Get\<close> between their check and their select, which can still
  receive a pooled connection after the pool has been closed; \<open>ps_draining\<close> says that the goroutine
  of \<open>ClosePool\<close> is in its loop.
\<close>

record pool_sys =
  ps_pool :: TCPPool
  ps_waiting :: nat
  ps_held :: "tcp_conn multiset"
  ps_closed :: "tcp_conn multiset"
  ps_leaked :: "tcp_conn multiset"
  ps_opened :: "nat multiset"
  ps_draining :: bool

fun dial_ids :: "go_error + tcp_conn \<Rightarrow> nat multiset" where
  "dial_ids (Inl e) = {#}"
| "dial_ids (Inr c) = {#tc_id c#}"

fun got :: "go_error + tcp_conn \<Rightarrow> tcp_conn multiset" where
  "got (Inl e) = {#}"
| "got (Inr c) = {#c#}"

text \<open>\<open>Select\<close> dials if it does not return a pooled connection.\<close>

definition select_dials :: "TCPPool \<Rightarrow> bool" where
  "select_dials t \<longleftrightarrow> (case tp_connections t of [] \<Rightarrow> \<not> tp_chanClosed t | c # cs \<Rightarrow> \<not> fst (performHealthCheck c))"

inductive tcp_pool_step :: "pool_sys \<Rightarrow> pool_sys \<Rightarrow> bool" where
  Check: "\<not> tp_isClosed (ps_pool s) \<Longrightarrow> tcp_pool_step s (s\<lparr>ps_waiting := ps_waiting s + 1\<rparr>)"
| Select: "ps_waiting s = Suc n \<Longrightarrow> Get_select dial (ps_pool s) = (r, cl, t) \<Longrightarrow>
    tcp_pool_step s (s\<lparr>ps_waiting := n, ps_pool := t, ps_held := ps_held s + got r,
      ps_closed := ps_closed s + mset cl,
      ps_opened := ps_opened s + (if select_dials (ps_pool s) then dial_ids dial else {#})\<rparr>)"
| PutBack: "c \<in># ps_held s \<Longrightarrow> Put_conn c (ps_pool s) = (cl, t) \<Longrightarrow>
    tcp_pool_step s (s\<lparr>ps_pool := t, ps_held := ps_held s - {#c#}, ps_closed := ps_closed s + mset cl,
      ps_leaked := (if tp_isClosed (ps_pool s) then add_mset c (ps_leaked s) else ps_leaked s)\<rparr>)"
| Close: "\<not> tp_isClosed (ps_pool s) \<Longrightarrow>
    tcp_pool_step s (s\<lparr>ps_pool := ClosePool_start (ps_pool s), ps_draining := True\<rparr>)"
| Drain: "ps_draining s \<Longrightarrow> drain_next (ps_pool s) = (cl, t) \<Longrightarrow>
    tcp_pool_step s (s\<lparr>ps_pool := t, ps_closed := ps_closed s + mset cl\<rparr>)"
| Drained: "ps_draining s \<Longrightarrow> tp_connections (ps_pool s) = [] \<Longrightarrow> tcp_pool_step s (s\<lparr>ps_draining := False\<rparr>)"

inductive_cases tcp_pool_stepE: "tcp_pool_step s s'"

definition pool_start :: "TCPPool \<Rightarrow> pool_sys" where
  "pool_start t = \<lparr>ps_pool = t, ps_waiting = 0, ps_held = {#}, ps_closed = {#}, ps_leaked = {#},
     ps_opened = image_mset tc_id (mset (tp_connections t)), ps_draining = False\<rparr>"

section \<open>The health check\<close>

lemma tc_Encode_fields:
  "tc_Encode m c = (e, c') \<Longrightarrow> tc_id c' = tc_id c \<and> tc_in c' = tc_in c \<and> tc_eof c' = tc_eof c \<and> tc_closed c' = tc_closed c"
  by (auto simp: tc_Encode_def split: if_splits prod.splits)

lemma tc_Encode_healthy:
  assumes "\<not> tc_closed c" "croom (tc_out c) = None" "length p \<le> max_payload"
  shows "\<exists>out. tc_Encode (NewMessage t (Some p) (word_of_nat (length p))) c = (None, c\<lparr>tc_out := out\<rparr>) \<and>
    croom out = None \<and> cout out = cout (tc_out c) @ wire (NewMessage t (Some p) (word_of_nat (length p)))"
  using Encode_bytes [OF assms(2,3), of t] assms(1) by (auto simp: tc_Encode_def)

lemma performHealthCheck_id [simp]: "tc_id (snd (performHealthCheck c)) = tc_id c"
  by (auto simp: performHealthCheck_def tc_Decode_def tc_ReadAll_def Let_def
      split: option.splits prod.splits sum.splits if_splits dest!: tc_Encode_fields)

text \<open>On a healthy connection the check reads one message and compares its payload.\<close>

lemma performHealthCheck_healthy:
  assumes "\<not> tc_closed c" "croom (tc_out c) = None"
  shows "\<exists>out. croom out = None \<and>
    cout out = cout (tc_out c) @ wire (NewMessage TypePing (Some (bytes_of_string ''PING'')) 4) \<and>
    performHealthCheck c =
      (case Decode (tc_in c) of
         Inl e \<Rightarrow> (False, c\<lparr>tc_out := out\<rparr>)
       | Inr (m, r) \<Rightarrow>
           ((tc_eof c \<or> unat (Length m) \<le> length r) \<and> take (unat (Length m)) r = bytes_of_string ''PING'',
            c\<lparr>tc_out := out, tc_in := drop (unat (Length m)) r\<rparr>))"
proof -
  have l: "length (bytes_of_string ''PING'') = 4" by (simp add: bytes_of_string_def)
  obtain out where o: "tc_Encode (NewMessage TypePing (Some (bytes_of_string ''PING'')) 4) c = (None, c\<lparr>tc_out := out\<rparr>)"
    "croom out = None" "cout out = cout (tc_out c) @ wire (NewMessage TypePing (Some (bytes_of_string ''PING'')) 4)"
    using tc_Encode_healthy [OF assms, of "bytes_of_string ''PING''" TypePing] l by (auto simp: max_payload_def)
  have s: "string_of_bytes b = ''PING'' \<longleftrightarrow> b = bytes_of_string ''PING''" for b
    by (metis bytes_of_string_of_bytes string_of_bytes_of_string)
  show ?thesis
    using o assms(1) by (intro exI [of _ out])
      (auto simp: performHealthCheck_def SetReadDeadline_def tc_Decode_def tc_ReadAll_def s not_less Let_def split: sum.splits)
qed

section \<open>Invariants\<close>

definition ids :: "tcp_conn multiset \<Rightarrow> nat multiset" where
  "ids cs = image_mset tc_id cs"

lemma ids_simps [simp]: "ids {#} = {#}" "ids (add_mset c cs) = add_mset (tc_id c) (ids cs)" "ids (A + B) = ids A + ids B"
  by (simp_all add: ids_def)

lemma tc_close_id [simp]: "tc_id (tc_close c) = tc_id c"
  by (simp add: tc_close_def)

lemma ids_close [simp]: "ids (image_mset tc_close cs) = ids cs"
  by (simp add: ids_def multiset.map_comp comp_def)

lemma ids_got_create [simp]: "ids (got (createNewConnection dial)) = dial_ids dial"
  by (cases dial) (simp_all add: createNewConnection_def)

text \<open>Every connection that was opened has one owner, and a closed pool holds none once it is drained.\<close>

definition owners_ok :: "pool_sys \<Rightarrow> bool" where
  "owners_ok s \<longleftrightarrow>
     ps_opened s = ids (mset (tp_connections (ps_pool s))) + ids (ps_held s) + ids (ps_closed s) + ids (ps_leaked s) \<and>
     (ps_leaked s \<noteq> {#} \<longrightarrow> tp_isClosed (ps_pool s)) \<and>
     (tp_isClosed (ps_pool s) \<longrightarrow> ps_draining s \<or> tp_connections (ps_pool s) = []) \<and>
     (ps_draining s \<longrightarrow> tp_isClosed (ps_pool s)) \<and> tp_chanClosed (ps_pool s) = tp_isClosed (ps_pool s) \<and>
     length (tp_connections (ps_pool s)) \<le> tp_cap (ps_pool s)"

lemma Get_select_owners:
  assumes "Get_select dial t = (r, cl, t')"
  shows "ids (mset (tp_connections t)) + (if select_dials t then dial_ids dial else {#}) =
      ids (mset (tp_connections t')) + ids (got r) + ids (mset cl) \<and>
    tp_isClosed t' = tp_isClosed t \<and> tp_chanClosed t' = tp_chanClosed t \<and> tp_cap t' = tp_cap t \<and>
    length (tp_connections t') \<le> length (tp_connections t) \<and> (tp_connections t = [] \<longrightarrow> tp_connections t' = [])"
proof (cases "tp_connections t")
  case Nil
  with assms show ?thesis by (auto simp: Get_select_def select_dials_def split: if_splits)
next
  case (Cons c cs)
  obtain ok c' where h: "performHealthCheck c = (ok, c')" by (cases "performHealthCheck c")
  then have "tc_id c' = tc_id c" using performHealthCheck_id [of c] by simp
  with assms Cons h show ?thesis
    by (cases ok) (auto simp: Get_select_def select_dials_def Let_def)
qed

lemma owners_step: "tcp_pool_step s s' \<Longrightarrow> owners_ok s \<Longrightarrow> owners_ok s'"
proof (induction rule: tcp_pool_step.induct)
  case (Select s n dial r cl t)
  from Get_select_owners [OF Select(2)] Select(3) show ?case
    by (auto simp: owners_ok_def ac_simps)
next
  case (PutBack c s cl t)
  then obtain H where "ps_held s = add_mset c H" by (auto dest: multi_member_split)
  with PutBack show ?case by (auto simp: owners_ok_def Put_conn_def split: if_splits)
next
  case (Close s)
  then show ?case by (auto simp: owners_ok_def ClosePool_start_def)
next
  case (Drain s cl t)
  then show ?case by (auto simp: owners_ok_def drain_next_def split: list.splits)
qed (auto simp: owners_ok_def)

lemma owners_steps: "tcp_pool_step\<^sup>*\<^sup>* s s' \<Longrightarrow> owners_ok s \<Longrightarrow> owners_ok s'"
  by (induction rule: rtranclp_induct) (auto intro: owners_step)

section \<open>Dialling\<close>

definition oks :: "(go_error + tcp_conn) list \<Rightarrow> tcp_conn list" where
  "oks ds = map projr (filter (\<lambda>d. \<not> isl d) ds)"

lemma dialled_eq:
  "\<not> tp_isClosed t \<Longrightarrow>
   dialled ds e t =
     (if length (tp_connections t) + length (oks ds) \<le> tp_cap t \<or> oks ds = []
      then Returns (if e = None \<and> (\<exists>d \<in> set ds. isl d)
                    then Some (wrap ''failed to create new tcp connection'' ErrTCPAccept) else e,
                    t\<lparr>tp_connections := tp_connections t @ oks ds\<rparr>)
      else Blocks)"
proof (induction ds arbitrary: e t)
  case Nil
  then show ?case by (simp add: oks_def)
next
  case (Cons d ds)
  then show ?case by (cases d) (auto simp: oks_def createNewConnection_def)
qed

lemma owners_start:
  "\<not> tp_isClosed t \<Longrightarrow> \<not> tp_chanClosed t \<Longrightarrow> length (tp_connections t) \<le> tp_cap t \<Longrightarrow> owners_ok (pool_start t)"
  by (simp add: owners_ok_def pool_start_def ids_def)

text \<open>The options that the client gives; the capacity of the channel stays the default one.\<close>

lemma NewTCPPool_client:
  "NewTCPPool addr [WithDialTimeout d, WithMaxConn n, WithPoolShutdownTimeout s] ds =
     (let r = ds (unat n); t = defaultTCPPoolConfig\<lparr>tp_addr := addr, tp_cap := 5, tp_dialTimeout := d, tp_maxConn := n,
            tp_shutdownTimeout := s, tp_connections := oks r\<rparr>
      in if 5 < length (oks r) then Blocks
         else if \<exists>x \<in> set r. isl x then Returns (Inl (wrap ''failed to create new tcp connection'' ErrTCPAccept), map tc_close (oks r))
         else Returns (Inr t, []))"
  by (auto simp: NewTCPPool_def Let_def defaultTCPPoolConfig_def WithDialTimeout_def WithMaxConn_def
      WithPoolShutdownTimeout_def dialled_eq ClosePool_eq)

end
