(* ===== verification/Pool_Properties.thy ===== *)
theory Pool_Properties
  imports Tcp_Pool Meta_Properties Chunk_Server
begin

text \<open>
  The properties of the connection pool, with witnesses: when its construction returns, what the
  health check accepts and that both servers pass it, and who owns the connections.
\<close>

section \<open>Construction\<close>

text \<open>
  \<open>NewTCPPool\<close> with the options of the client never returns if more than five dials succeed,
  whatever \<open>maxConn\<close> was asked for. Otherwise it returns an error exactly if a dial failed, with
  the dialled connections closed again, and a pool of all of them if none did.
\<close>

lemma NewTCPPool_returns:
  "(NewTCPPool addr [WithDialTimeout d, WithMaxConn n, WithPoolShutdownTimeout s] ds = Blocks \<longleftrightarrow> 5 < length (oks (ds (unat n)))) \<and>
   ((\<exists>e. NewTCPPool addr [WithDialTimeout d, WithMaxConn n, WithPoolShutdownTimeout s] ds = Returns (Inl e, map tc_close (oks (ds (unat n))))) \<longleftrightarrow>
      length (oks (ds (unat n))) \<le> 5 \<and> (\<exists>x. x \<in> set (ds (unat n)) \<and> isl x)) \<and>
   ((\<exists>t. NewTCPPool addr [WithDialTimeout d, WithMaxConn n, WithPoolShutdownTimeout s] ds = Returns (Inr t, []) \<and>
        tp_connections t = oks (ds (unat n)) \<and> tp_cap t = 5 \<and> \<not> tp_isClosed t) \<longleftrightarrow>
      length (oks (ds (unat n))) \<le> 5 \<and> \<not> (\<exists>x. x \<in> set (ds (unat n)) \<and> isl x))"
  unfolding NewTCPPool_client Let_def by (auto simp: defaultTCPPoolConfig_def)

section \<open>The health check\<close>

text \<open>
  On an open connection the health check succeeds exactly if the next message carries the
  payload PING, of whatever type it is; a longer message cut off by the peer closing the
  connection counts too.
\<close>

lemma healthCheck_accepts:
  assumes "\<not> tc_closed c" "croom (tc_out c) = None"
  shows "fst (performHealthCheck c) \<longleftrightarrow>
    (\<exists>t n rest. tc_in c = header (NewMessage t None n) @ bytes_of_string ''PING'' @ rest \<and> n \<le> MaxPayloadLen \<and>
       (n = 4 \<or> 4 < n \<and> rest = [] \<and> tc_eof c))" (is "?l \<longleftrightarrow> ?r")
proof
  let ?P = "bytes_of_string ''PING''"
  have P: "length ?P = 4" by (simp add: bytes_of_string_def)
  from performHealthCheck_healthy [OF assms] obtain out where "performHealthCheck c =
      (case Decode (tc_in c) of Inl e \<Rightarrow> (False, c\<lparr>tc_out := out\<rparr>)
       | Inr (m, r) \<Rightarrow> ((tc_eof c \<or> unat (Length m) \<le> length r) \<and> take (unat (Length m)) r = ?P,
            c\<lparr>tc_out := out, tc_in := drop (unat (Length m)) r\<rparr>))" by blast
  then have fst: "?l \<longleftrightarrow>
    (\<exists>m r. Decode (tc_in c) = Inr (m, r) \<and> (tc_eof c \<or> unat (Length m) \<le> length r) \<and> take (unat (Length m)) r = ?P)"
    by (auto split: sum.splits)
  {
    assume ?l
    with fst obtain m r where m: "Decode (tc_in c) = Inr (m, r)" "tc_eof c \<or> unat (Length m) \<le> length r"
      "take (unat (Length m)) r = ?P" by blast
    from Decode_InrD [OF m(1)] have h: "tc_in c = header (NewMessage (Type m) None (Length m)) @ r" "Length m \<le> MaxPayloadLen"
      by (auto simp: header_def)
    define rest where "rest = drop (unat (Length m)) r"
    have r: "r = ?P @ rest" unfolding rest_def m(3) [symmetric] by simp
    have "unat (Length m) = 4 \<or> 4 < unat (Length m) \<and> length r = 4 \<and> tc_eof c"
      using m(2) arg_cong [OF m(3), of length] P by auto
    then have "Length m = 4 \<or> 4 < Length m \<and> rest = [] \<and> tc_eof c"
      using r P by (auto simp: word_unat_eq_iff word_less_nat_alt)
    with h r show ?r by blast
  next
    assume ?r
    then obtain t n rest where i: "tc_in c = header (NewMessage t None n) @ ?P @ rest" "n \<le> MaxPayloadLen"
      "n = 4 \<or> 4 < n \<and> rest = [] \<and> tc_eof c" by blast
    from i(3) have "take (unat n) (?P @ rest) = ?P \<and> (tc_eof c \<or> unat n \<le> length (?P @ rest))"
      using P by (auto simp: word_less_nat_alt)
    with Decode_header [of "NewMessage t None n" "?P @ rest"] i(1,2) fst show ?l by auto
  }
qed
lemma healthCheck_accepts_witness:
  "fst (performHealthCheck \<lparr>tc_id = 1, tc_in = header (NewMessage TypeReadResponse None 4) @ bytes_of_string ''PING'' @ [], tc_eof = False,
      tc_out = new_conn, tc_closed = False\<rparr>) \<longleftrightarrow>
    (\<exists>t n rest. header (NewMessage TypeReadResponse None 4) @ bytes_of_string ''PING'' @ [] =
       header (NewMessage t None n) @ bytes_of_string ''PING'' @ rest \<and> n \<le> MaxPayloadLen \<and>
       (n = 4 \<or> 4 < n \<and> rest = [] \<and> False))"
  using healthCheck_accepts [of "\<lparr>tc_id = 1, tc_in = header (NewMessage TypeReadResponse None 4) @ bytes_of_string ''PING'' @ [],
      tc_eof = False, tc_out = new_conn, tc_closed = False\<rparr>"] by (simp add: new_conn_def)

definition ping_message :: message where
  "ping_message = NewMessage TypePing (Some (bytes_of_string ''PING'')) 4"

lemma meta_ping_served:
  assumes "p \<noteq> []" "length p \<le> max_payload" "croom c = None"
  shows "\<exists>c'. meta_Handle H (wire (NewMessage TypePing (Some p) (word_of_nat (length p)))) c st = (Return None, c', st) \<and>
     cout c' = cout c @ wire (NewMessage TypePingResponse (Some p) (word_of_nat (length p)))"
  using meta_encode_ok [OF assms(3,2), of TypePingResponse] meta_Handle_req [of undefined "MetaPing p" H "[]" c st] assms(1,2)
  by (auto simp: meta_handlePing_def meta_req_msg_def meta_response_def)

lemma meta_ping:
  assumes "p \<noteq> []" "length p \<le> max_payload" "croom c = None"
  shows "cout (fst (snd (meta_Handle H (wire (NewMessage TypePing (Some p) (word_of_nat (length p)))) c st))) =
     cout c @ wire (NewMessage TypePingResponse (Some p) (word_of_nat (length p)))"
  using meta_ping_served [OF assms, of H st] by auto

lemma chunk_ping:
  assumes "p \<noteq> []" "length p \<le> max_payload" "croom c = None"
  shows "cout (fst (snd (chunk_Handle H (wire (NewMessage TypePing (Some p) (word_of_nat (length p)))) c s))) =
     cout c @ wire (NewMessage TypePingResponse (Some p) (word_of_nat (length p)))"
  using handlePing_refines [OF assms(3,2)] chunk_Handle_req [of sample_gob "Ping p" H "[]" c s] assms(1,2)
  by (auto simp: req_msg_def req_ok_def)

lemma ping_bytes: "bytes_of_string ''PING'' \<noteq> []" "length (bytes_of_string ''PING'') \<le> max_payload"
    "word_of_nat (length (bytes_of_string ''PING'')) = (4 :: u32)"
  by (simp_all add: bytes_of_string_def max_payload_def)

lemma servers_ping:
  "cout (fst (snd (meta_Handle M (wire ping_message) new_conn st))) =
     wire (NewMessage TypePingResponse (Some (bytes_of_string ''PING'')) 4)"
  "cout (fst (snd (chunk_Handle K (wire ping_message) new_conn s))) =
     wire (NewMessage TypePingResponse (Some (bytes_of_string ''PING'')) 4)"
  using meta_ping [OF ping_bytes(1,2), of new_conn M st] chunk_ping [OF ping_bytes(1,2), of new_conn K s]
  by (simp_all add: ping_bytes(3) ping_message_def new_conn_def)

lemma echo_passes:
  assumes "\<not> tc_closed c" "tc_out c = new_conn" "tc_in c = wire (NewMessage t (Some (bytes_of_string ''PING'')) 4)"
  shows "\<exists>c'. performHealthCheck c = (True, c') \<and> cout (tc_out c') = wire ping_message \<and> tc_in c' = [] \<and> \<not> tc_closed c' \<and>
    croom (tc_out c') = None"
proof -
  let ?P = "bytes_of_string ''PING''"
  have P: "length ?P = 4" by (simp add: bytes_of_string_def)
  have "Decode (tc_in c) = Inr (NewMessage t (Some ?P) 4, ?P)"
    using Decode_bytes [of ?P t "[]"] P assms(3) by (simp add: max_payload_def)
  moreover have "croom (tc_out c) = None" "cout (tc_out c) = []" using assms(2) by (simp_all add: new_conn_def)
  ultimately show ?thesis using performHealthCheck_healthy [OF assms(1)] P assms(1) by (auto simp: ping_message_def)
qed

text \<open>
  A fresh connection to either server passes the health check, and nothing of the exchange is
  left on it.
\<close>

lemma servers_pass_healthCheck:
  assumes "\<not> tc_closed c" "tc_out c = new_conn"
    and "tc_in c \<in> {cout (fst (snd (meta_Handle M (wire ping_message) new_conn st))),
                     cout (fst (snd (chunk_Handle K (wire ping_message) new_conn s)))}"
  shows "\<exists>c'. performHealthCheck c = (True, c') \<and> cout (tc_out c') = wire ping_message \<and> tc_in c' = [] \<and> \<not> tc_closed c'"
  using echo_passes [OF assms(1,2), of TypePingResponse] assms(3) by (auto simp: servers_ping)

definition demo_tcp :: "nat \<Rightarrow> tcp_conn" where
  "demo_tcp n = \<lparr>tc_id = n, tc_in = cout (fst (snd (chunk_Handle demo_chunk_server (wire ping_message) new_conn empty_fs))),
     tc_eof = False, tc_out = new_conn, tc_closed = False\<rparr>"

lemma servers_pass_healthCheck_witness:
  "\<exists>c'. performHealthCheck (demo_tcp 0) = (True, c') \<and> cout (tc_out c') = wire ping_message \<and> tc_in c' = [] \<and> \<not> tc_closed c'"
  by (rule servers_pass_healthCheck [where K = demo_chunk_server and s = empty_fs and
      M = "NewMetaServerHandler (file_metastore sample_entry demo_codec) demo_codec" and st = demo_store])
    (simp_all add: demo_tcp_def)

section \<open>Ownership\<close>

text \<open>
  C37: whatever its users do, every connection that was opened is in the pool, held by one user,
  closed, or lost by putting it into a closed pool; the pool never exceeds the channel. When it is
  closed its connections are closed one by one, while a \<open>Get\<close> that had passed its check can still
  receive one of them; once the goroutine that does so has ended the pool is empty, and it stays so.
\<close>

theorem pool_connections_owned:
  assumes "\<not> tp_isClosed t" "\<not> tp_chanClosed t" "length (tp_connections t) \<le> tp_cap t"
    and "tcp_pool_step\<^sup>*\<^sup>* (pool_start t) s"
  shows "ps_opened s = image_mset tc_id (mset (tp_connections (ps_pool s)) + ps_held s + ps_closed s + ps_leaked s) \<and>
    (ps_leaked s = {#} \<or> tp_isClosed (ps_pool s)) \<and>
    (tp_isClosed (ps_pool s) \<longrightarrow> ps_draining s \<or> tp_connections (ps_pool s) = []) \<and>
    length (tp_connections (ps_pool s)) \<le> tp_cap (ps_pool s)"
  using owners_steps [OF assms(4) owners_start [OF assms(1-3)]] by (auto simp: owners_ok_def ids_def)

text \<open>
  While the identities of new connections are fresh, no two users hold the same connection.
\<close>

lemma pool_connections_not_shared:
  assumes "\<not> tp_isClosed t" "\<not> tp_chanClosed t" "length (tp_connections t) \<le> tp_cap t"
    and "tcp_pool_step\<^sup>*\<^sup>* (pool_start t) s" "\<forall>i. count (ps_opened s) i \<le> 1" "c \<in># ps_held s"
  shows "tc_id c \<notin> tc_id ` set (tp_connections (ps_pool s)) \<and> tc_id c \<notin># image_mset tc_id (ps_held s - {#c#}) \<and>
    tc_id c \<notin># image_mset tc_id (ps_closed s)"
proof -
  from assms(6) obtain H where H: "ps_held s = add_mset c H" by (auto dest: multi_member_split)
  from owners_steps [OF assms(4) owners_start [OF assms(1-3)]] have
    "ps_opened s = ids (mset (tp_connections (ps_pool s))) + ids (ps_held s) + ids (ps_closed s) + ids (ps_leaked s)"
    by (simp add: owners_ok_def)
  with assms(5) [rule_format, of "tc_id c"] H have
    "count (ids (mset (tp_connections (ps_pool s)))) (tc_id c) = 0" "count (ids H) (tc_id c) = 0" "count (ids (ps_closed s)) (tc_id c) = 0"
    by simp_all
  then show ?thesis using H by (auto simp: count_eq_zero_iff ids_def)
qed

definition demo_tcp_pool :: TCPPool where
  "demo_tcp_pool = defaultTCPPoolConfig\<lparr>tp_cap := 5, tp_connections := [demo_tcp 0, demo_tcp 1]\<rparr>"

text \<open>A user gets a connection from the pool.\<close>

definition demo_held :: pool_sys where
  "demo_held = \<lparr>ps_pool = demo_tcp_pool\<lparr>tp_connections := [demo_tcp 1]\<rparr>, ps_waiting = 0,
     ps_held = {#snd (performHealthCheck (demo_tcp 0))#}, ps_closed = {#}, ps_leaked = {#}, ps_opened = {#0, 1#},
     ps_draining = False\<rparr>"

lemma demo_tcp_healthy: "fst (performHealthCheck (demo_tcp 0))"
  using echo_passes [of "demo_tcp 0" TypePingResponse] by (auto simp: demo_tcp_def servers_ping)

lemma demo_pool_run: "tcp_pool_step\<^sup>*\<^sup>* (pool_start demo_tcp_pool) demo_held"
proof -
  let ?s = "(pool_start demo_tcp_pool)\<lparr>ps_waiting := 1\<rparr>"
  have "tcp_pool_step (pool_start demo_tcp_pool) ?s"
    using Check [of "pool_start demo_tcp_pool"] by (simp add: pool_start_def demo_tcp_pool_def defaultTCPPoolConfig_def)
  moreover have "Get_select (Inl ErrIO) demo_tcp_pool =
      (Inr (snd (performHealthCheck (demo_tcp 0))), [], demo_tcp_pool\<lparr>tp_connections := [demo_tcp 1]\<rparr>)"
    using demo_tcp_healthy by (auto simp: Get_select_def demo_tcp_pool_def Let_def split: prod.splits)
  then have "tcp_pool_step ?s demo_held"
    using Select [of ?s 0 "Inl ErrIO"] demo_tcp_healthy
    by (simp add: pool_start_def demo_held_def select_dials_def demo_tcp_pool_def demo_tcp_def)
  ultimately show ?thesis by (meson converse_rtranclp_into_rtranclp r_into_rtranclp)
qed

lemma demo_tcp_pool_ok:
  "\<not> tp_isClosed demo_tcp_pool" "\<not> tp_chanClosed demo_tcp_pool" "length (tp_connections demo_tcp_pool) \<le> tp_cap demo_tcp_pool"
  by (simp_all add: demo_tcp_pool_def defaultTCPPoolConfig_def)

lemma pool_connections_owned_witness:
  "ps_opened demo_held = image_mset tc_id (mset (tp_connections (ps_pool demo_held)) + ps_held demo_held +
      ps_closed demo_held + ps_leaked demo_held) \<and>
    length (tp_connections (ps_pool demo_held)) \<le> tp_cap (ps_pool demo_held)"
  using pool_connections_owned [OF demo_tcp_pool_ok demo_pool_run] by blast

lemma pool_connections_not_shared_witness:
  "tc_id (snd (performHealthCheck (demo_tcp 0))) \<notin> tc_id ` set (tp_connections (ps_pool demo_held))"
  using pool_connections_not_shared [OF demo_tcp_pool_ok demo_pool_run, of "snd (performHealthCheck (demo_tcp 0))"]
  by (simp add: demo_held_def)

end
