(* ===== verification/Client_Config.thy ===== *)
theory Client_Config
  imports Worker_Pool Tcp_Pool File_Types Hasher
begin

text \<open>
  The configuration, construction and shutdown of the client, \<open>internal/client/client.go\<close>: the
  options, \<open>NewClient\<close> with its connection pool and its two worker pools, and \<open>Close\<close>.
\<close>

section \<open>Configuration\<close>

record readConfig =
  rc_workers :: int
  rc_readTimeout :: duration
  rc_maxRetries :: int
  rc_retryDelay :: duration
  rc_shutdownTimeout :: duration

record writeConfig =
  wr_workers :: int
  wr_writeTimeout :: duration
  wr_maxRetries :: int
  wr_retryDelay :: duration
  wr_shutdownTimeout :: duration

record transportConfig =
  tr_connections :: u16
  tr_dialTimeout :: duration
  tr_healthCheckTimeout :: duration
  tr_shutdownTimeout :: duration

record clientConfig =
  cc_shutdownTimeout :: duration
  cc_readConfig :: readConfig
  cc_writeConfig :: writeConfig
  cc_transportConfig :: transportConfig

text \<open>
  The client; the result of a job of its worker pools is a string. A nil pool or hasher is not
  reached: \<open>NewClient\<close> sets all of them.
\<close>

record Client =
  cl_hasher :: "bytes \<Rightarrow> go_error + string"
  cl_encoder :: gob
  cl_config :: clientConfig
  cl_connPool :: "TCPPool option"
  cl_readWorkerPool :: "string pool option"
  cl_writeWorkerPool :: "string pool option"

type_synonym ClientOption = "Client \<Rightarrow> Client"

definition set_read :: "(readConfig \<Rightarrow> readConfig) \<Rightarrow> ClientOption" where
  "set_read f c = c\<lparr>cl_config := (cl_config c)\<lparr>cc_readConfig := f (cc_readConfig (cl_config c))\<rparr>\<rparr>"

definition set_write :: "(writeConfig \<Rightarrow> writeConfig) \<Rightarrow> ClientOption" where
  "set_write f c = c\<lparr>cl_config := (cl_config c)\<lparr>cc_writeConfig := f (cc_writeConfig (cl_config c))\<rparr>\<rparr>"

definition set_transport :: "(transportConfig \<Rightarrow> transportConfig) \<Rightarrow> ClientOption" where
  "set_transport f c = c\<lparr>cl_config := (cl_config c)\<lparr>cc_transportConfig := f (cc_transportConfig (cl_config c))\<rparr>\<rparr>"

lemmas client_setters = set_read_def set_write_def set_transport_def

definition WithHasher :: "(bytes \<Rightarrow> go_error + string) \<Rightarrow> ClientOption" where
  "WithHasher hasher c = c\<lparr>cl_hasher := hasher\<rparr>"

definition WithEncoder :: "gob \<Rightarrow> ClientOption" where
  "WithEncoder encoder c = c\<lparr>cl_encoder := encoder\<rparr>"

definition WithReadWorkerCount :: "int \<Rightarrow> ClientOption" where
  "WithReadWorkerCount workers = set_read (\<lambda>r. r\<lparr>rc_workers := workers\<rparr>)"

definition WithReadTimeout :: "duration \<Rightarrow> ClientOption" where
  "WithReadTimeout timeout = set_read (\<lambda>r. r\<lparr>rc_readTimeout := timeout\<rparr>)"

definition WithReadMaxRetries :: "int \<Rightarrow> ClientOption" where
  "WithReadMaxRetries retries = set_read (\<lambda>r. r\<lparr>rc_maxRetries := retries\<rparr>)"

definition WithReadRetryDelay :: "duration \<Rightarrow> ClientOption" where
  "WithReadRetryDelay delay = set_read (\<lambda>r. r\<lparr>rc_retryDelay := delay\<rparr>)"

definition WithReadShutdownTimeout :: "duration \<Rightarrow> ClientOption" where
  "WithReadShutdownTimeout timeout = set_read (\<lambda>r. r\<lparr>rc_shutdownTimeout := timeout\<rparr>)"

definition WithWriteWorkerCount :: "int \<Rightarrow> ClientOption" where
  "WithWriteWorkerCount workers = set_write (\<lambda>r. r\<lparr>wr_workers := workers\<rparr>)"

definition WithWriteTimeout :: "duration \<Rightarrow> ClientOption" where
  "WithWriteTimeout timeout = set_write (\<lambda>r. r\<lparr>wr_writeTimeout := timeout\<rparr>)"

definition WithWriteMaxRetries :: "int \<Rightarrow> ClientOption" where
  "WithWriteMaxRetries retries = set_write (\<lambda>r. r\<lparr>wr_maxRetries := retries\<rparr>)"

definition WithWriteRetryDelay :: "duration \<Rightarrow> ClientOption" where
  "WithWriteRetryDelay delay = set_write (\<lambda>r. r\<lparr>wr_retryDelay := delay\<rparr>)"

definition WithWriteShutdownTimeout :: "duration \<Rightarrow> ClientOption" where
  "WithWriteShutdownTimeout timeout = set_write (\<lambda>r. r\<lparr>wr_shutdownTimeout := timeout\<rparr>)"

definition WithTransportPoolConnectionCount :: "u16 \<Rightarrow> ClientOption" where
  "WithTransportPoolConnectionCount connections = set_transport (\<lambda>r. r\<lparr>tr_connections := connections\<rparr>)"

definition WithTransportHealthCheckTimeout :: "duration \<Rightarrow> ClientOption" where
  "WithTransportHealthCheckTimeout timeout = set_transport (\<lambda>r. r\<lparr>tr_healthCheckTimeout := timeout\<rparr>)"

definition WithTransportDialTimeout :: "duration \<Rightarrow> ClientOption" where
  "WithTransportDialTimeout timeout = set_transport (\<lambda>r. r\<lparr>tr_dialTimeout := timeout\<rparr>)"

definition WithTransportShutdownTimeout_client :: "duration \<Rightarrow> ClientOption" where
  "WithTransportShutdownTimeout_client timeout = set_transport (\<lambda>r. r\<lparr>tr_shutdownTimeout := timeout\<rparr>)"

definition WithTimeoutShutdown :: "duration \<Rightarrow> ClientOption" where
  "WithTimeoutShutdown timeout c = c\<lparr>cl_config := (cl_config c)\<lparr>cc_shutdownTimeout := timeout\<rparr>\<rparr>"

text \<open>The encoder of the default client is \<open>encoding/gob\<close>, a parameter.\<close>

definition defaultClient :: "gob \<Rightarrow> Client" where
  "defaultClient G =
     \<lparr>cl_hasher = (\<lambda>b. Inr (HashContent b)), cl_encoder = G,
      cl_config = \<lparr>cc_shutdownTimeout = 10000000000,
        cc_readConfig = \<lparr>rc_workers = 6, rc_readTimeout = 5000000000, rc_maxRetries = 3,
          rc_retryDelay = 2000000000, rc_shutdownTimeout = 5000000000\<rparr>,
        cc_writeConfig = \<lparr>wr_workers = 6, wr_writeTimeout = 8000000000, wr_maxRetries = 3,
          wr_retryDelay = 2000000000, wr_shutdownTimeout = 5000000000\<rparr>,
        cc_transportConfig = \<lparr>tr_connections = 5, tr_dialTimeout = 3000000000,
          tr_healthCheckTimeout = 1000000000, tr_shutdownTimeout = 5000000000\<rparr>\<rparr>,
      cl_connPool = None, cl_readWorkerPool = None, cl_writeWorkerPool = None\<rparr>"

section \<open>Construction\<close>

definition client_pool_options :: "int \<Rightarrow> int \<Rightarrow> duration \<Rightarrow> duration \<Rightarrow> RetriablePoolOptions list" where
  "client_pool_options workers retries delay timeout =
     [WithMinWorkers (workers sdiv 2), WithMaxWorkers workers, WithBufferSize workers,
      WithRetryDelay delay, WithMaxRetries retries, WithShutdownTimeout timeout]"

text \<open>\<open>NewClient\<close>: \<open>ctxDone\<close> says whether the context is done already, \<open>dials\<close> what dialling gives.\<close>

definition NewClient ::
  "gob \<Rightarrow> bool \<Rightarrow> ClientOption list \<Rightarrow> (nat \<Rightarrow> (go_error + tcp_conn) list) \<Rightarrow> (go_error + Client) outcome" where
  "NewClient G ctxDone opts dials =
     (let c = fold (\<lambda>opt c. opt c) opts (defaultClient G);
          tc = cc_transportConfig (cl_config c); rc = cc_readConfig (cl_config c); wc = cc_writeConfig (cl_config c)
      in case NewTCPPool '':5002''
           [WithDialTimeout (tr_dialTimeout tc), WithMaxConn (tr_connections tc), WithPoolShutdownTimeout (tr_shutdownTimeout tc)] dials of
           Blocks \<Rightarrow> Blocks
         | Returns (Inl e, closed) \<Rightarrow> Returns (Inl e)
         | Returns (Inr connPool, closed) \<Rightarrow>
             (case NewRetriableWorkerPool ctxDone
                (client_pool_options (rc_workers rc) (rc_maxRetries rc) (rc_retryDelay rc) (rc_shutdownTimeout rc)) of
                Inl e \<Rightarrow> Returns (Inl e)
              | Inr rp \<Rightarrow>
                  (case NewRetriableWorkerPool ctxDone
                     (client_pool_options (wr_workers wc) (wr_maxRetries wc) (wr_retryDelay wc) (wr_shutdownTimeout wc)) of
                     Inl e \<Rightarrow> Returns (Inl e)
                   | Inr wp \<Rightarrow>
                       Returns (Inr (c\<lparr>cl_connPool := Some connPool, cl_readWorkerPool := Some rp, cl_writeWorkerPool := Some wp\<rparr>)))))"

text \<open>
  \<open>Close\<close> shuts the three pools down; with no submission under way \<open>Shutdown\<close> of a worker pool
  takes its first step at once. The first component are the connections it closes.
\<close>

definition shutdown_pool :: "'o pool \<Rightarrow> 'o pool" where
  "shutdown_pool p =
     (if rp_isClosed p then p\<lparr>rp_locked := True\<rparr>
      else p\<lparr>rp_jobsClosed := True, rp_isClosed := True, rp_stopping := True\<rparr>)"

definition Client_Close :: "Client \<Rightarrow> tcp_conn list \<times> Client" where
  "Client_Close c =
     (let (cs, t) = (case cl_connPool c of None \<Rightarrow> ([], None) | Some t \<Rightarrow> map_prod id Some (ClosePool t))
      in (cs, c\<lparr>cl_connPool := t, cl_readWorkerPool := map_option shutdown_pool (cl_readWorkerPool c),
              cl_writeWorkerPool := map_option shutdown_pool (cl_writeWorkerPool c)\<rparr>))"

text \<open>
  \<open>Close\<close> returns when its three goroutines, one for each pool, are done, or after the time-out of
  the client.
\<close>

definition Client_Close_returns :: "bool list \<Rightarrow> duration \<Rightarrow> Client \<Rightarrow> bool" where
  "Client_Close_returns finished elapsed c \<longleftrightarrow> list_all id finished \<or> cc_shutdownTimeout (cl_config c) \<le> elapsed"

lemma shutdown_pool_step:
  "\<not> rp_locked p \<Longrightarrow> rp_submitters p = {#} \<Longrightarrow> Shutdown_step p (shutdown_pool p)"
  by (simp add: shutdown_pool_def First Again)

end
