(* ===== verification/Client.thy ===== *)
theory Client
  imports Client_Config Adaptors
begin

text \<open>
  The client's operations, \<open>internal/client\<close>: splitting a file into chunks (\<open>write_file.go\<close>),
  talking to the metadata server (\<open>client.go\<close>), sending and reading chunks through the worker
  pools, \<open>SendFile\<close> and \<open>ReadFile\<close>. The rest of the system is a world \<^typ>\<open>'w\<close> that the client
  reaches over the network, a record of functions; the client's own files are an \<^typ>\<open>fs\<close>.
\<close>

section \<open>The network\<close>

text \<open>
  \<open>net_get\<close> is \<open>Get\<close> of the connection pool and \<open>net_dial\<close> a dial; they give the writing half
  of a connection on which nothing has been sent. \<open>net_meta\<close> and \<open>net_chunk\<close> take what the client
  sends on such a connection and give what comes back, whether the peer then closes, and the
  new world. \<open>net_send\<close> takes what the client sends on a connection that it closes without having
  read anything: nobody tells it what the peer does with it, or when. \<open>net_deadline\<close> is what
  setting a deadline on a connection returns.
\<close>

record 'w net =
  net_get :: "'w \<Rightarrow> (go_error + conn) \<times> 'w"
  net_meta :: "bytes \<Rightarrow> 'w \<Rightarrow> (bytes \<times> bool) \<times> 'w"
  net_dial :: "string \<Rightarrow> 'w \<Rightarrow> (go_error + conn) \<times> 'w"
  net_deadline :: "string \<Rightarrow> 'w \<Rightarrow> go_error option"
  net_chunk :: "string \<Rightarrow> bytes \<Rightarrow> 'w \<Rightarrow> (bytes \<times> bool) \<times> 'w"
  net_send :: "string \<Rightarrow> bytes \<Rightarrow> 'w \<Rightarrow> 'w"

definition requestMetaServer :: "'w net \<Rightarrow> message \<Rightarrow> 'w \<Rightarrow> (go_error + bytes) \<times> 'w" where
  "requestMetaServer N msg w =
     (case net_get N w of
        (Inl e, w1) \<Rightarrow> (Inl e, w1)
      | (Inr conn, w1) \<Rightarrow>
          (case Encode conn_Write msg conn of
             (err, left, conn') \<Rightarrow>
               (case net_meta N (cout conn') w1 of
                  ((inp, eof), w2) \<Rightarrow>
                    (case err of
                       Some e \<Rightarrow> (Inl e, w2)
                     | None \<Rightarrow>
                         (case Decode inp of
                            Inl e \<Rightarrow> (Inl (if e = EOF \<and> \<not> eof then wrap ''failed to decode header'' ErrIO else e), w2)
                          | Inr (resp, r) \<Rightarrow>
                              if length r < unat (Length resp) \<and> \<not> eof
                              then (Inl (wrap ''failed to read payload'' ErrIO), w2)
                              else (Inr (take (unat (Length resp)) r), w2))))))"

definition fetchFileMetadata :: "'w net \<Rightarrow> FileMetadata proto \<Rightarrow> string \<Rightarrow> 'w \<Rightarrow> (go_error + FileMetadata) \<times> 'w" where
  "fetchFileMetadata N Pm file w =
     (let b = bytes_of_string file in
      case requestMetaServer N (NewMessage TypeReadFile (Some b) (word_of_nat (length b))) w of
        (Inl e, w1) \<Rightarrow> (Inl e, w1)
      | (Inr payloadBytes, w1) \<Rightarrow>
          (case Unmarshal Pm payloadBytes of
             Inl e \<Rightarrow> (Inl (wrap ''failed to unmarshal payload'' e), w1)
           | Inr meta \<Rightarrow> (Inr meta, w1)))"

definition registerFileMetadata :: "'w net \<Rightarrow> FileMetadata proto \<Rightarrow> FileMetadata \<Rightarrow> 'w \<Rightarrow> (go_error + FileMetadata) \<times> 'w" where
  "registerFileMetadata N Pm meta w =
     (case Marshal Pm meta of
        Inl e \<Rightarrow> (Inl (wrap ''failed to marshal fMeta'' e), w)
      | Inr b \<Rightarrow>
          (case requestMetaServer N (NewMessage TypeAddFile (Some b) (word_of_nat (length b))) w of
             (Inl e, w1) \<Rightarrow> (Inl e, w1)
           | (Inr payloadBytes, w1) \<Rightarrow>
               (case Unmarshal Pm payloadBytes of
                  Inl e \<Rightarrow> (Inl (wrap ''failed to unmarshal recieved file metadata'' e), w1)
                | Inr updatedMeta \<Rightarrow> (Inr updatedMeta, w1))))"

definition getChunkServerConn :: "'w net \<Rightarrow> string \<Rightarrow> 'w \<Rightarrow> (go_error + conn) \<times> 'w" where
  "getChunkServerConn N addr w =
     (case net_dial N addr w of
        (Inl e, w1) \<Rightarrow> (Inl (wrap ''failed to connect to chunkserver'' e), w1)
      | (Inr conn, w1) \<Rightarrow>
          (case net_deadline N addr w1 of
             Some e \<Rightarrow> (Inl (wrap ''failed to set write deadline for connection'' e), w1)
           | None \<Rightarrow> (Inr conn, w1)))"

section \<open>Chunks\<close>

definition ChunkSize :: nat where
  "ChunkSize = 64 * 2 ^ 20"

definition MaxMetadataSizeInBytes :: u32 where
  "MaxMetadataSizeInBytes = 4"

text \<open>
  A chunk to be sent: \<open>ck_Data\<close> is what is left in its reader. The chunk info is a pointer that
  \<open>updateChunkInfo\<close> may set to nil.
\<close>

record Chunk =
  ck_Id :: string
  ck_ChunkInfo :: "ChunkInfo option"
  ck_MetadataLen :: nat
  ck_Data :: bytes

text \<open>
  One round of \<open>chunkFiles\<close> and its loop, with the chunk size \<open>cs\<close>: \<open>k\<close> rounds to go at round
  \<open>i\<close> with \<open>remain\<close> bytes left. An error of the encoder is only printed.
\<close>

definition make_chunk :: "gob \<Rightarrow> bytes \<Rightarrow> string \<Rightarrow> nat \<Rightarrow> nat \<Rightarrow> Chunk" where
  "make_chunk G f cid off n =
     (let chunkInfo = \<lparr>ci_Size = word_of_nat n, ci_Offset = int off, ci_Addr = ''''\<rparr>;
          chunkMetaDataBuffer = (case encoder_Encode G \<lparr>cm_Id = cid, cm_ChunkInfo = chunkInfo\<rparr> of Inl e \<Rightarrow> [] | Inr b \<Rightarrow> b);
          metaDataLen = length chunkMetaDataBuffer
      in \<lparr>ck_Id = cid, ck_ChunkInfo = Some chunkInfo, ck_MetadataLen = metaDataLen,
          ck_Data = put_uint32 (word_of_nat metaDataLen) @ chunkMetaDataBuffer @ take n (drop off f)\<rparr>)"

fun chunk_loop ::
  "nat \<Rightarrow> (bytes \<Rightarrow> go_error + string) \<Rightarrow> gob \<Rightarrow> bytes \<Rightarrow> nat \<Rightarrow> nat \<Rightarrow> nat \<Rightarrow> go_error + Chunk list" where
  "chunk_loop cs hasher G f 0 i remain = Inr []"
| "chunk_loop cs hasher G f (Suc k) i remain =
     (let n = min remain cs; off = i * cs in
      case hasher (take n (drop off f)) of
        Inl e \<Rightarrow> Inl (wrap ''Error occured getting checksum'' e)
      | Inr cid \<Rightarrow>
          (case chunk_loop cs hasher G f k (i + 1) (remain - n) of
             Inl e \<Rightarrow> Inl e
           | Inr chunks \<Rightarrow> Inr (make_chunk G f cid off n # chunks)))"

definition chunkCount :: "nat \<Rightarrow> nat \<Rightarrow> nat" where
  "chunkCount cs n = n div cs + (if n mod cs \<noteq> 0 then 1 else 0)"

definition chunkFiles :: "Client \<Rightarrow> bytes \<Rightarrow> nat \<Rightarrow> go_error + Chunk list" where
  "chunkFiles C f n = chunk_loop ChunkSize (cl_hasher C) (cl_encoder C) f (chunkCount ChunkSize n) 0 n"

definition buildFileMetadata :: "Chunk list \<Rightarrow> string \<Rightarrow> nat \<Rightarrow> FileMetadata" where
  "buildFileMetadata chunks name n =
     \<lparr>fm_Size = int n, fm_Name = name,
      fm_ChunkInfo = fold (\<lambda>chunk m. m(ck_Id chunk := ck_ChunkInfo chunk)) chunks Map.empty\<rparr>"

definition updateChunkInfo :: "FileMetadata \<Rightarrow> Chunk list \<Rightarrow> Chunk list" where
  "updateChunkInfo meta chunks = map (\<lambda>chunk. chunk\<lparr>ck_ChunkInfo := fm_ChunkInfo meta (ck_Id chunk)\<rparr>) chunks"

section \<open>Sending and reading a chunk\<close>

text \<open>
  One attempt. A nil chunk info, and the deferred \<open>Close\<close> of the nil connection of a failed dial,
  are nil dereferences. The attempt succeeds when all bytes have been given to the connection,
  which is then closed: there is no acknowledgement.
\<close>

definition sendChunk :: "'w net \<Rightarrow> Chunk \<times> 'w \<Rightarrow> (go_error + string) \<times> (Chunk \<times> 'w)" where
  "sendChunk N s =
     (let (chunk, w) = s in
      case ck_ChunkInfo chunk of
        None \<Rightarrow> (Inl Panic, (chunk, w))
      | Some ci \<Rightarrow>
          (case getChunkServerConn N (ci_Addr ci) w of
             (Inl e, w1) \<Rightarrow> (Inl Panic, (chunk, w1))
           | (Inr conn, w1) \<Rightarrow>
               (let len = MaxMetadataSizeInBytes + ci_Size ci + word_of_nat (ck_MetadataLen chunk) in
                case Encode conn_Write (NewMessage TypeWrite (Some (ck_Data chunk)) len) conn of
                  (err, left, conn') \<Rightarrow>
                    (let chunk' = chunk\<lparr>ck_Data := (case left of None \<Rightarrow> [] | Some l \<Rightarrow> l)\<rparr>;
                         w2 = net_send N (ci_Addr ci) (cout conn') w1
                     in case err of
                          Some e \<Rightarrow> (Inl e, (chunk', w2))
                        | None \<Rightarrow> (Inr (ck_Id chunk), (chunk', w2))))))"

text \<open>\<open>readChunk\<close> writes what it receives through the adaptor \<open>a\<close> to the client's file.\<close>

definition readChunk_client ::
  "'w net \<Rightarrow> string \<Rightarrow> ChunkInfo \<Rightarrow> WriterAtAdapter \<Rightarrow> fs \<times> 'w \<Rightarrow> go_error option \<times> (fs \<times> 'w)" where
  "readChunk_client N cid ci a s =
     (let (d, w) = s in
      case getChunkServerConn N (ci_Addr ci) w of
        (Inl e, w1) \<Rightarrow> (Some Panic, (d, w1))
      | (Inr conn, w1) \<Rightarrow>
          (case net_deadline N (ci_Addr ci) w1 of
             Some e \<Rightarrow> (Some (wrap ''failed to set read deadline'' e), (d, w1))
           | None \<Rightarrow>
               (let b = bytes_of_string cid in
                case Encode conn_Write (NewMessage TypeRead (Some b) (word_of_nat (length b))) conn of
                  (err, left, conn') \<Rightarrow>
                    (case net_chunk N (ci_Addr ci) (cout conn') w1 of
                       ((inp, eof), w2) \<Rightarrow>
                         (case err of
                            Some e \<Rightarrow> (Some e, (d, w2))
                          | None \<Rightarrow>
                              (case Decode inp of
                                 Inl e \<Rightarrow> (Some (if e = EOF \<and> \<not> eof then wrap ''failed to decode header'' ErrIO else e), (d, w2))
                               | Inr (msg, r) \<Rightarrow>
                                   (case CopyN WriterAtAdapter_Write (unat (ci_Size ci)) (take (unat (Length msg)) r) (a, d) of
                                      (Some e, rest, (a', d')) \<Rightarrow>
                                        (Some (wrap ''failed to copy chunk from connection to file'' e), (d', w2))
                                    | (None, rest, (a', d')) \<Rightarrow> (None, (d', w2)))))))))"

text \<open>The job of one chunk of \<open>processReadFile\<close>: every attempt starts with a new adaptor.\<close>

definition read_job :: "'w net \<Rightarrow> string \<Rightarrow> string \<Rightarrow> ChunkInfo \<Rightarrow> fs \<times> 'w \<Rightarrow> (go_error + string) \<times> (fs \<times> 'w)" where
  "read_job N filePath cid ci s =
     (case readChunk_client N cid ci (NewWriterAtAdapter filePath (ci_Offset ci)) s of
        (Some e, s') \<Rightarrow> (Inl e, s')
      | (None, s') \<Rightarrow> (Inr (''Read chunk '' @ cid), s'))"

section \<open>Jobs\<close>

text \<open>
  A job whose attempts change a state: what attempt \<open>i\<close> starts from and returns. \<open>run_job\<close>
  executes it with \<open>performWork\<close>. A panic is not recovered by the pool: it ends the program.
\<close>

datatype 'a run = Ret 'a | Crash | Hang

definition attempt_state :: "('s \<Rightarrow> (go_error + 'o) \<times> 's) \<Rightarrow> 's \<Rightarrow> nat \<Rightarrow> 's" where
  "attempt_state attempt s i = ((\<lambda>s. snd (attempt s)) ^^ i) s"

definition attempt_work :: "('s \<Rightarrow> (go_error + 'o) \<times> 's) \<Rightarrow> 's \<Rightarrow> nat \<Rightarrow> go_error + 'o" where
  "attempt_work attempt s i = fst (attempt (attempt_state attempt s i))"

definition attempts_made :: "'o Result \<Rightarrow> nat" where
  "attempts_made r = nat (Retries r + (if Status r = StatusCancelled then 0 else 1))"

definition panics :: "('s \<Rightarrow> (go_error + 'o) \<times> 's) \<Rightarrow> 's \<Rightarrow> nat \<Rightarrow> bool" where
  "panics attempt s n \<longleftrightarrow>
     list_ex (\<lambda>i. case attempt_work attempt s i of Inl e \<Rightarrow> e = Panic | Inr x \<Rightarrow> False) [0 ..< n]"

definition run_job ::
  "poolConfig \<Rightarrow> job_env \<Rightarrow> int \<Rightarrow> ('s \<Rightarrow> (go_error + 'o) \<times> 's) \<Rightarrow> 's \<Rightarrow> 'o Result run \<times> 's" where
  "run_job conf env jid attempt s =
     (let r = fst (performWork conf env \<lparr>job_id = jid, job_work = attempt_work attempt s, job_results = 0\<rparr>);
          n = attempts_made r
      in (if panics attempt s n then Crash else Ret r, attempt_state attempt s n))"

text \<open>
  How the pool executes the jobs of one call: \<open>sc_order n\<close> is the order in which the first \<open>n\<close> jobs
  are executed, each as a whole; \<open>sc_env i\<close> is what the execution of job \<open>i\<close> meets, \<open>sc_id i\<close> its number,
  and \<open>sc_cancelled i\<close> says that its \<open>Submit\<close> finds the context done.
\<close>

record sched =
  sc_order :: "nat \<Rightarrow> nat list"
  sc_env :: "nat \<Rightarrow> job_env"
  sc_id :: "nat \<Rightarrow> int"
  sc_cancelled :: "nat \<Rightarrow> bool"

fun run_jobs :: "('j \<Rightarrow> 's \<Rightarrow> 'o Result run \<times> 's) \<Rightarrow> 'j list \<Rightarrow> 's \<Rightarrow> 'o Result list run \<times> 's" where
  "run_jobs job [] s = (Ret [], s)"
| "run_jobs job (j # js) s =
     (case job j s of
        (Crash, s1) \<Rightarrow> (Crash, s1)
      | (Hang, s1) \<Rightarrow> (Hang, s1)
      | (Ret r, s1) \<Rightarrow>
          (case run_jobs job js s1 of
             (Ret rs, s2) \<Rightarrow> (Ret (r # rs), s2)
           | (res, s2) \<Rightarrow> (res, s2)))"

text \<open>The submissions of \<open>k\<close> jobs from job \<open>i\<close> on: the number accepted and the error that ends them.\<close>

definition Submit_returns :: "'o pool \<Rightarrow> bool \<Rightarrow> go_error option" where
  "Submit_returns p cancelled =
     (if rp_isClosed p \<or> rp_ctxDone p \<and> cancelled
      then Some (errmsg ''failed to add job: Worker pool closed already'') else None)"

fun submit_jobs :: "'o pool \<Rightarrow> (nat \<Rightarrow> bool) \<Rightarrow> nat \<Rightarrow> nat \<Rightarrow> nat \<times> go_error option" where
  "submit_jobs p cancelled 0 i = (i, None)"
| "submit_jobs p cancelled (Suc k) i =
     (case Submit_returns p (cancelled i) of
        Some e \<Rightarrow> (i, Some e)
      | None \<Rightarrow> submit_jobs p cancelled k (Suc i))"

text \<open>
  Submitting the jobs and receiving their results: with no job at all nobody sends on the
  channel of the results and it is never closed.
\<close>

definition collect_results ::
  "'o pool option \<Rightarrow> sched \<Rightarrow> (poolConfig \<Rightarrow> nat \<Rightarrow> 's \<Rightarrow> 'o Result run \<times> 's) \<Rightarrow> nat \<Rightarrow> 's \<Rightarrow>
     (go_error + 'o Result list) run \<times> 's" where
  "collect_results pool sc job n s =
     (case pool of
        None \<Rightarrow> (Crash, s)
      | Some p \<Rightarrow>
          (case submit_jobs p (sc_cancelled sc) n 0 of
             (m, err) \<Rightarrow>
               (case run_jobs (job (rp_conf p)) (sc_order sc m) s of
                  (Crash, s1) \<Rightarrow> (Crash, s1)
                | (Hang, s1) \<Rightarrow> (Hang, s1)
                | (Ret rs, s1) \<Rightarrow>
                    (case err of
                       Some e \<Rightarrow> (Ret (Inl e), s1)
                     | None \<Rightarrow> if n = 0 then (Hang, s1) else (Ret (Inr rs), s1)))))"

section \<open>Sending a file\<close>

definition write_job :: "'w net \<Rightarrow> sched \<Rightarrow> Chunk list \<Rightarrow> poolConfig \<Rightarrow> nat \<Rightarrow> 'w \<Rightarrow> string Result run \<times> 'w" where
  "write_job N sc chunks conf i w =
     (case run_job conf (sc_env sc i) (sc_id sc i) (sendChunk N) (chunks ! i, w) of
        (r, (chunk, w')) \<Rightarrow> (r, w'))"

definition sendChunks :: "'w net \<Rightarrow> Client \<Rightarrow> sched \<Rightarrow> Chunk list \<Rightarrow> 'w \<Rightarrow> (go_error + string Result list) run \<times> 'w" where
  "sendChunks N c sc chunks w =
     collect_results (cl_writeWorkerPool c) sc (write_job N sc chunks) (length chunks) w"

text \<open>The results in the order in which they arrived; a failed one always carries its error.\<close>

fun write_results :: "string Result list \<Rightarrow> go_error option" where
  "write_results [] = None"
| "write_results (r # rs) =
     (if Status r = StatusCancelled then Some ErrWriteCancelled
      else if Status r = StatusFailed then Some (Errorf ''write failed'' (Error r))
      else write_results rs)"

text \<open>
  The file is not written to while it is sent: its contents are read once. \<open>stat.Name()\<close> is the
  last element of the path.
\<close>

definition SendFile ::
  "'w net \<Rightarrow> FileMetadata proto \<Rightarrow> Client \<Rightarrow> sched \<Rightarrow> string \<Rightarrow> fs \<Rightarrow> 'w \<Rightarrow> go_error option run \<times> 'w" where
  "SendFile N Pm c sc filePath d w =
     (case fs_Open filePath d of
        Inl e \<Rightarrow> (Ret (Some (wrap ''failed to open file'' e)), w)
      | Inr f \<Rightarrow>
          if faults d OpStat filePath then (Ret (Some (wrap ''failed to get file stats'' ErrIO)), w)
          else
            (case chunkFiles c f (length f) of
               Inl e \<Rightarrow> (Ret (Some e), w)
             | Inr chunks \<Rightarrow>
                 (case registerFileMetadata N Pm (buildFileMetadata chunks (last (split_on CHR ''/'' filePath)) (length f)) w of
                    (Inl e, w1) \<Rightarrow> (Ret (Some e), w1)
                  | (Inr updatedMeta, w1) \<Rightarrow>
                      (case sendChunks N c sc (updateChunkInfo updatedMeta chunks) w1 of
                         (Crash, w2) \<Rightarrow> (Crash, w2)
                       | (Hang, w2) \<Rightarrow> (Hang, w2)
                       | (Ret (Inl e), w2) \<Rightarrow> (Ret (Some e), w2)
                       | (Ret (Inr results), w2) \<Rightarrow> (Ret (write_results results), w2)))))"

section \<open>Reading a file\<close>

text \<open>\<open>order\<close> is the order in which \<open>range\<close> goes through the map of the chunks.\<close>

definition processReadFile ::
  "'w net \<Rightarrow> Client \<Rightarrow> sched \<Rightarrow> ((string \<rightharpoonup> ChunkInfo) \<Rightarrow> string list) \<Rightarrow> FileMetadata \<Rightarrow> string \<Rightarrow> fs \<times> 'w \<Rightarrow>
     (go_error + string Result list) run \<times> (fs \<times> 'w)" where
  "processReadFile N c sc order fileMeta w s =
     (let ids = order (fm_ChunkInfo fileMeta) in
      collect_results (cl_readWorkerPool c) sc
        (\<lambda>conf i. run_job conf (sc_env sc i) (sc_id sc i)
           (read_job N w (ids ! i) (the (fm_ChunkInfo fileMeta (ids ! i)))))
        (length ids) s)"

fun read_results :: "string \<Rightarrow> string Result list \<Rightarrow> fs \<Rightarrow> go_error option \<times> fs" where
  "read_results filePath [] d = (None, d)"
| "read_results filePath (r # rs) d =
     (if Status r = StatusCancelled then (Some ErrReadCancelled, snd (fs_Remove filePath d))
      else if Status r = StatusFailed then (Some (Errorf ''read failed'' (Error r)), snd (fs_Remove filePath d))
      else read_results filePath rs d)"

definition ReadFile ::
  "'w net \<Rightarrow> FileMetadata proto \<Rightarrow> Client \<Rightarrow> sched \<Rightarrow> ((string \<rightharpoonup> ChunkInfo) \<Rightarrow> string list) \<Rightarrow> string \<Rightarrow> string \<Rightarrow> fs \<Rightarrow> 'w \<Rightarrow>
     go_error option run \<times> (fs \<times> 'w)" where
  "ReadFile N Pm c sc order name filePath d w =
     (case fs_Create filePath d of
        (Some e, d1) \<Rightarrow> (Ret (Some e), (d1, w))
      | (None, d1) \<Rightarrow>
          (case fetchFileMetadata N Pm name w of
             (Inl e, w1) \<Rightarrow> (Ret (Some e), (d1, w1))
           | (Inr meta, w1) \<Rightarrow>
               (case processReadFile N c sc order meta filePath (d1, w1) of
                  (Crash, s2) \<Rightarrow> (Crash, s2)
                | (Hang, s2) \<Rightarrow> (Hang, s2)
                | (Ret (Inl e), s2) \<Rightarrow> (Ret (Some e), s2)
                | (Ret (Inr results), (d2, w2)) \<Rightarrow>
                    (case read_results filePath results d2 of (e, d3) \<Rightarrow> (Ret e, (d3, w2))))))"

end
