(* ===== verification/Client_Chunks.thy ===== *)
theory Client_Chunks
  imports Client Sample_Codecs
begin

text \<open>
  How the client splits a file: lemmas on pieces of a byte list, what \<open>chunkFiles\<close> returns, what
  \<open>buildFileMetadata\<close> records of it, and the properties of both.
\<close>

section \<open>Pieces\<close>

definition piece :: "nat \<Rightarrow> bytes \<Rightarrow> nat \<Rightarrow> bytes" where
  "piece cs f i = take cs (drop (i * cs) f)"

lemma concat_pieces: "concat (map (piece cs f) [0 ..< k]) = take (k * cs) f"
proof (induction k)
  case (Suc k)
  have "take (Suc k * cs) f = take (k * cs) f @ take cs (drop (k * cs) f)"
    using take_add [of "k * cs" cs f] by (simp add: add.commute)
  with Suc show ?case by (simp add: piece_def)
qed simp

lemma chunkCount_covers: "0 < cs \<Longrightarrow> n \<le> chunkCount cs n * cs"
proof -
  assume "0 < cs"
  have n: "n = n div cs * cs + n mod cs" by simp
  show ?thesis
  proof (cases "n mod cs = 0")
    case True
    with n show ?thesis by (simp add: chunkCount_def)
  next
    case False
    moreover have "n mod cs < cs" using \<open>0 < cs\<close> by simp
    then have "n \<le> n div cs * cs + cs" using n by linarith
    ultimately show ?thesis by (simp add: chunkCount_def)
  qed
qed

lemma chunkCount_less: "0 < cs \<Longrightarrow> i < chunkCount cs n \<longleftrightarrow> i * cs < n"
proof -
  assume cs: "0 < cs"
  show ?thesis
  proof
    assume "i < chunkCount cs n"
    then have "i < n div cs \<or> i = n div cs \<and> n mod cs \<noteq> 0" by (auto simp: chunkCount_def split: if_splits)
    then show "i * cs < n"
    proof
      assume "i < n div cs"
      then have "i * cs < n div cs * cs" using cs by simp
      also have "\<dots> \<le> n" by simp
      finally show ?thesis .
    next
      assume i: "i = n div cs \<and> n mod cs \<noteq> 0"
      have "n = n div cs * cs + n mod cs" by simp
      then have "n = i * cs + n mod cs" using i by simp
      with i show ?thesis by linarith
    qed
  next
    assume "i * cs < n"
    also have "n \<le> chunkCount cs n * cs" by (rule chunkCount_covers [OF cs])
    finally show "i < chunkCount cs n" using cs by simp
  qed
qed

lemma chunkCount_0 [simp]: "chunkCount cs 0 = 0"
  by (simp add: chunkCount_def)

lemma ChunkSize_pos [simp]: "0 < ChunkSize"
  by (simp add: ChunkSize_def)

lemma concat_all_pieces: "0 < cs \<Longrightarrow> concat (map (piece cs f) [0 ..< chunkCount cs (length f)]) = f"
  by (simp add: concat_pieces chunkCount_covers)

lemma length_piece: "length (piece cs f i) = min cs (length f - i * cs)"
  by (simp add: piece_def)

lemma piece_nonempty: "0 < cs \<Longrightarrow> i < chunkCount cs (length f) \<Longrightarrow> piece cs f i \<noteq> []"
  by (simp add: chunkCount_less piece_def)

lemma piece_full: "0 < cs \<Longrightarrow> i < j \<Longrightarrow> j < chunkCount cs (length f) \<Longrightarrow> length (piece cs f i) = cs"
proof -
  assume a: "0 < cs" "i < j" "j < chunkCount cs (length f)"
  then have "j * cs < length f" by (simp add: chunkCount_less)
  moreover have "Suc i * cs \<le> j * cs" using a(2) by (intro mult_le_mono1) simp
  ultimately show ?thesis by (simp add: length_piece min_def)
qed

lemma piece_write:
  assumes "0 < cs" "j < chunkCount cs (length f)" "length x \<le> length f"
  defines "x' \<equiv> write_at (j * cs) (piece cs f j) x"
  shows "length x' \<le> length f" "piece cs x' j = piece cs f j"
    and "i < chunkCount cs (length f) \<Longrightarrow> i \<noteq> j \<Longrightarrow> piece cs x i = piece cs f i \<Longrightarrow> piece cs x' i = piece cs f i"
proof -
  let ?p = "piece cs f j" and ?z = "take (j * cs) (x @ replicate (j * cs - length x) 0)"
  have j: "j * cs < length f" using assms(1,2) by (simp add: chunkCount_less)
  have p: "length ?p = min cs (length f - j * cs)" by (rule length_piece)
  have z: "length ?z = j * cs" by simp
  have x': "x' = ?z @ ?p @ drop (j * cs + length ?p) x" by (simp add: x'_def write_at_def)
  show "length x' \<le> length f" using j p assms(3) by (simp add: x'_def length_write_at)
  have "take cs (?p @ drop (j * cs + length ?p) x) = ?p"
  proof (cases "cs \<le> length f - j * cs")
    case True
    with p show ?thesis by simp
  next
    case False
    with p j assms(3) have "drop (j * cs + length ?p) x = []" by simp
    with p show ?thesis by simp
  qed
  moreover have dj: "drop (j * cs) x' = ?p @ drop (j * cs + length ?p) x" unfolding x' by (rule drop_append_exact [OF z])
  ultimately show "piece cs x' j = ?p" by (simp only: piece_def [of cs x' j])
  assume i: "i < chunkCount cs (length f)" "i \<noteq> j" "piece cs x i = piece cs f i"
  show "piece cs x' i = piece cs f i"
  proof (cases "i < j")
    case True
    have "length (piece cs x i) = cs" using piece_full [OF assms(1) True assms(2)] i(3) by simp
    then have l: "i * cs + cs \<le> length x" by (simp add: length_piece min_def split: if_splits) (use assms(1) in linarith)
    have ij: "i * cs + cs \<le> j * cs" using mult_le_mono1 [of "Suc i" j cs] True by simp
    have "piece cs x' i = take cs (drop (i * cs) (take (i * cs + cs) x'))" by (simp add: piece_def take_drop add.commute)
    also have "take (i * cs + cs) x' = take (i * cs + cs) x"
      using l ij by (simp add: x' min_absorb1)
    also have "take cs (drop (i * cs) (take (i * cs + cs) x)) = piece cs x i" by (simp add: piece_def take_drop add.commute)
    finally show ?thesis using i(3) by simp
  next
    case False
    then have "Suc j \<le> i" using i(2) by simp
    from mult_le_mono1 [OF this, of cs] have ij: "j * cs + cs \<le> i * cs" by (simp add: add.commute)
    have "i * cs - j * cs + j * cs = i * cs" using ij by linarith
    then have "drop (i * cs) x' = drop (i * cs - j * cs) (drop (j * cs) x')" by simp
    also have "\<dots> = drop (i * cs) x" unfolding dj using p ij by simp
    finally have "drop (i * cs) x' = drop (i * cs) x" .
    with i(3) show ?thesis by (simp add: piece_def)
  qed
qed

lemma pieces_eq:
  assumes "0 < cs" "length x \<le> length f" "\<forall>i < chunkCount cs (length f). piece cs x i = piece cs f i"
  shows "x = f"
proof -
  have "concat (map (piece cs x) [0 ..< chunkCount cs (length f)]) = concat (map (piece cs f) [0 ..< chunkCount cs (length f)])"
    using assms(3) by (intro arg_cong [where f = concat] map_cong) simp_all
  then show ?thesis using assms(1,2) le_trans [OF assms(2) chunkCount_covers [OF assms(1)]]
    by (simp add: concat_pieces chunkCount_covers)
qed

section \<open>The chunks of a file\<close>

definition chunk_at :: "(bytes \<Rightarrow> string) \<Rightarrow> gob \<Rightarrow> nat \<Rightarrow> bytes \<Rightarrow> nat \<Rightarrow> Chunk" where
  "chunk_at h G cs f i = make_chunk G f (h (piece cs f i)) (i * cs) (length (piece cs f i))"

lemma take_length_piece: "take (length (piece cs f i)) (drop (i * cs) f) = piece cs f i"
  by (simp add: piece_def min_def)

lemma chunk_loop_eq:
  assumes "\<forall>b. hasher b = Inr (h b)"
  shows "chunk_loop cs hasher G f k i (length f - i * cs) = Inr (map (chunk_at h G cs f) [i ..< i + k])"
proof (induction k arbitrary: i)
  case (Suc k)
  have n: "min (length f - i * cs) cs = length (piece cs f i)" by (simp add: length_piece)
  have r: "length f - i * cs - length (piece cs f i) = length f - (i + 1) * cs" by (simp add: length_piece)
  have u: "[i ..< i + Suc k] = i # [i + 1 ..< (i + 1) + k]" by (simp add: upt_conv_Cons del: upt_Suc)
  show ?case
    unfolding u chunk_loop.simps Let_def n r Suc.IH list.map
    using assms by (simp add: take_length_piece chunk_at_def del: upt_Suc)
qed simp

definition file_chunks :: "(bytes \<Rightarrow> string) \<Rightarrow> gob \<Rightarrow> bytes \<Rightarrow> Chunk list" where
  "file_chunks h G f = map (chunk_at h G ChunkSize f) [0 ..< chunkCount ChunkSize (length f)]"

lemma chunkFiles_eq:
  "\<forall>b. cl_hasher c b = Inr (h b) \<Longrightarrow> chunkFiles c f (length f) = Inr (file_chunks h (cl_encoder c) f)"
  using chunk_loop_eq [of "cl_hasher c" h ChunkSize "cl_encoder c" f "chunkCount ChunkSize (length f)" 0]
  by (simp add: chunkFiles_def file_chunks_def)

text \<open>The contents of a chunk: what its reader gives behind the encoded metadata.\<close>

definition chunk_content :: "Chunk \<Rightarrow> bytes" where
  "chunk_content ch = drop (4 + ck_MetadataLen ch) (ck_Data ch)"

lemma chunk_at_fields [simp]:
  "ck_Id (chunk_at h G cs f i) = h (piece cs f i)"
  "ck_ChunkInfo (chunk_at h G cs f i) = Some \<lparr>ci_Size = word_of_nat (length (piece cs f i)), ci_Offset = int (i * cs), ci_Addr = ''''\<rparr>"
  "chunk_content (chunk_at h G cs f i) = piece cs f i"
  by (simp_all add: chunk_at_def make_chunk_def chunk_content_def Let_def take_length_piece)

section \<open>The record of a file\<close>

lemma fold_chunk_info:
  "fold (\<lambda>chunk m. m(ck_Id chunk := ck_ChunkInfo chunk)) chunks m k =
     (case find (\<lambda>ch. ck_Id ch = k) (rev chunks) of None \<Rightarrow> m k | Some ch \<Rightarrow> ck_ChunkInfo ch)"
  by (induction chunks rule: rev_induct) simp_all

lemma find_distinct:
  "distinct (map key xs) \<Longrightarrow> x \<in> set xs \<Longrightarrow> find (\<lambda>y. key y = key x) xs = Some x"
  by (induction xs) (auto simp: image_iff)

lemma build_lookup:
  assumes "distinct (map ck_Id chunks)" "ch \<in> set chunks"
  shows "fm_ChunkInfo (buildFileMetadata chunks name n) (ck_Id ch) = ck_ChunkInfo ch"
  using find_distinct [of ck_Id "rev chunks" ch] assms
  by (simp add: buildFileMetadata_def fold_chunk_info rev_map [symmetric])

lemma build_dom:
  assumes "\<forall>ch \<in> set chunks. ck_ChunkInfo ch \<noteq> None"
  shows "dom (fm_ChunkInfo (buildFileMetadata chunks name n)) = ck_Id ` set chunks"
proof -
  have "find (\<lambda>ch. ck_Id ch = k) (rev chunks) = None \<longleftrightarrow> k \<notin> ck_Id ` set chunks" for k
    by (auto simp: find_None_iff)
  moreover have "find (\<lambda>ch. ck_Id ch = k) (rev chunks) = Some ch \<Longrightarrow> ck_ChunkInfo ch \<noteq> None" for k ch
    using assms by (metis (no_types, lifting) find_Some_iff nth_mem set_rev)
  ultimately show ?thesis
    by (auto simp: buildFileMetadata_def fold_chunk_info dom_def split: option.splits)
qed

section \<open>Properties\<close>

text \<open>
  C18: \<open>chunkFiles\<close> splits the file without loss: the contents of the chunks in order are the file,
  none is empty or longer than \<open>ChunkSize\<close>, each has the hash of its content as its id, and its
  recorded offset is where its content starts.
\<close>

theorem chunkFiles_partition:
  assumes "\<forall>b. cl_hasher c b = Inr (h b)"
  shows "\<exists>chunks. chunkFiles c f (length f) = Inr chunks \<and> concat (map chunk_content chunks) = f \<and>
    list_all (\<lambda>ch. chunk_content ch \<noteq> [] \<and> length (chunk_content ch) \<le> ChunkSize \<and> ck_Id ch = h (chunk_content ch)) chunks \<and>
    map ck_ChunkInfo chunks = map (\<lambda>i. Some \<lparr>ci_Size = word_of_nat (length (chunk_content (chunks ! i))),
       ci_Offset = int (length (concat (map chunk_content (take i chunks)))), ci_Addr = ''''\<rparr>) [0 ..< length chunks]"
proof -
  let ?n = "chunkCount ChunkSize (length f)" and ?c = "file_chunks h (cl_encoder c) f"
  have con: "map chunk_content ?c = map (piece ChunkSize f) [0 ..< ?n]" by (simp add: file_chunks_def)
  have off: "length (concat (map chunk_content (take i ?c))) = i * ChunkSize" if "i < ?n" for i
  proof -
    have "map chunk_content (take i ?c) = map (piece ChunkSize f) [0 ..< i]"
      unfolding take_map [symmetric] con using that by (simp add: take_map)
    moreover have "i * ChunkSize \<le> length f" using that by (simp add: chunkCount_less less_imp_le)
    ultimately show ?thesis by (simp add: concat_pieces)
  qed
  have len: "length ?c = ?n" by (simp add: file_chunks_def)
  have at: "ck_ChunkInfo (?c ! i) = Some \<lparr>ci_Size = word_of_nat (length (piece ChunkSize f i)), ci_Offset = int (i * ChunkSize), ci_Addr = []\<rparr>"
    "chunk_content (?c ! i) = piece ChunkSize f i" if "i < ?n" for i
    using that by (simp_all add: file_chunks_def)
  have "map ck_ChunkInfo ?c = map (\<lambda>i. Some \<lparr>ci_Size = word_of_nat (length (chunk_content (?c ! i))),
       ci_Offset = int (length (concat (map chunk_content (take i ?c)))), ci_Addr = ''''\<rparr>) [0 ..< length ?c]"
    by (rule nth_equalityI) (simp_all add: len at off)
  moreover have "list_all (\<lambda>ch. chunk_content ch \<noteq> [] \<and> length (chunk_content ch) \<le> ChunkSize \<and> ck_Id ch = h (chunk_content ch)) ?c"
    by (auto simp: file_chunks_def list_all_iff piece_nonempty length_piece)
  ultimately show ?thesis
    using chunkFiles_eq [OF assms] con concat_all_pieces [of ChunkSize f] by auto
qed

text \<open>
  C24: chunks with equal contents collide in the record of a file, whose map has one place for each
  id: two files of three chunks that differ in the first one only, equal to the third in one file and
  to the second in the other, are split into chunks with the same contents and ids and get the same
  record. So what the two servers have of them is the same, and no reader can return both.
\<close>

theorem equal_chunks_lose_their_place:
  assumes "\<forall>b. cl_hasher cl b = Inr (h b)" "length c = ChunkSize" "length d = ChunkSize" "c \<noteq> d"
  shows "\<exists>xs ys. chunkFiles cl (c @ d @ c) (length (c @ d @ c)) = Inr xs \<and>
    chunkFiles cl (d @ d @ c) (length (d @ d @ c)) = Inr ys \<and> c @ d @ c \<noteq> d @ d @ c \<and>
    (\<lambda>ch. (ck_Id ch, chunk_content ch)) ` set xs = (\<lambda>ch. (ck_Id ch, chunk_content ch)) ` set ys \<and>
    buildFileMetadata xs name (length (c @ d @ c)) = buildFileMetadata ys name (length (d @ d @ c))"
proof (intro exI conjI)
  let ?G = "cl_encoder cl"
  show "chunkFiles cl (c @ d @ c) (length (c @ d @ c)) = Inr (file_chunks h ?G (c @ d @ c))"
    "chunkFiles cl (d @ d @ c) (length (d @ d @ c)) = Inr (file_chunks h ?G (d @ d @ c))"
    by (rule chunkFiles_eq [OF assms(1)])+
  show "c @ d @ c \<noteq> d @ d @ c" using assms(4) by simp
  have three: "file_chunks h ?G (x @ y @ z) = map (chunk_at h ?G ChunkSize (x @ y @ z)) [0, 1, 2]"
    "piece ChunkSize (x @ y @ z) 0 = x" "piece ChunkSize (x @ y @ z) 1 = y" "piece ChunkSize (x @ y @ z) 2 = z"
    if "length x = ChunkSize" "length y = ChunkSize" "length z = ChunkSize" for x y z
  proof -
    have "chunkCount ChunkSize (length (x @ y @ z)) = 3" using that ChunkSize_pos by (simp add: chunkCount_def)
    then show "file_chunks h ?G (x @ y @ z) = map (chunk_at h ?G ChunkSize (x @ y @ z)) [0, 1, 2]"
      by (simp add: file_chunks_def upt_rec numeral_2_eq_2)
  qed (use that in \<open>simp_all add: piece_def\<close>)
  note x = three [OF assms(2,3,2), unfolded One_nat_def] and y = three [OF assms(3,3,2), unfolded One_nat_def]
  show "(\<lambda>ch. (ck_Id ch, chunk_content ch)) ` set (file_chunks h ?G (c @ d @ c)) =
      (\<lambda>ch. (ck_Id ch, chunk_content ch)) ` set (file_chunks h ?G (d @ d @ c))"
    unfolding x(1) y(1) by (auto simp: x(2-4) y(2-4))
  show "buildFileMetadata (file_chunks h ?G (c @ d @ c)) name (length (c @ d @ c)) =
      buildFileMetadata (file_chunks h ?G (d @ d @ c)) name (length (d @ d @ c))"
    unfolding x(1) y(1) by (auto simp: buildFileMetadata_def x(2-4) y(2-4) assms(2,3) fun_eq_iff)
qed

lemma chunkFiles_partition_witness:
  "\<exists>chunks. chunkFiles (defaultClient sample_gob) [1, 2, 3] (length ([1, 2, 3] :: bytes)) = Inr chunks \<and>
    concat (map chunk_content chunks) = [1, 2, 3] \<and>
    list_all (\<lambda>ch. chunk_content ch \<noteq> [] \<and> length (chunk_content ch) \<le> ChunkSize \<and> ck_Id ch = HashContent (chunk_content ch)) chunks"
  using chunkFiles_partition [of "defaultClient sample_gob" HashContent "[1, 2, 3]"] by (auto simp: defaultClient_def)

lemma equal_chunks_lose_their_place_witness:
  "\<exists>xs ys. chunkFiles (defaultClient sample_gob)
       (replicate ChunkSize 1 @ replicate ChunkSize 0 @ replicate ChunkSize 1)
       (length (replicate ChunkSize (1 :: byte) @ replicate ChunkSize 0 @ replicate ChunkSize 1)) = Inr xs \<and>
     chunkFiles (defaultClient sample_gob)
       (replicate ChunkSize 0 @ replicate ChunkSize 0 @ replicate ChunkSize 1)
       (length (replicate ChunkSize (0 :: byte) @ replicate ChunkSize 0 @ replicate ChunkSize 1)) = Inr ys \<and>
     buildFileMetadata xs ''f'' (length (replicate ChunkSize (1 :: byte) @ replicate ChunkSize 0 @ replicate ChunkSize 1)) =
       buildFileMetadata ys ''f'' (length (replicate ChunkSize (0 :: byte) @ replicate ChunkSize 0 @ replicate ChunkSize 1))"
proof -
  have h: "\<forall>b. cl_hasher (defaultClient sample_gob) b = Inr (HashContent b)" by (simp add: defaultClient_def)
  have ne: "replicate ChunkSize (1 :: byte) \<noteq> replicate ChunkSize 0" using ChunkSize_pos by (simp add: replicate_eq_replicate)
  from equal_chunks_lose_their_place [OF h length_replicate length_replicate ne] show ?thesis by blast
qed

end
