(* ===== verification/Client_Jobs.thy ===== *)
theory Client_Jobs
  imports Client Worker_Properties
begin

text \<open>
  Lemmas on the jobs of the client: an attempt that succeeds at once, attempts that keep failing,
  the jobs of one call in any order, and the results that are collected.
\<close>

section \<open>One job\<close>

lemma attempt_state_0 [simp]: "attempt_state attempt s 0 = s"
  by (simp add: attempt_state_def)

lemma attempt_state_Suc: "attempt_state attempt s (Suc i) = snd (attempt (attempt_state attempt s i))"
  by (simp add: attempt_state_def)

lemma run_job_first:
  assumes "\<not> je_done env 0" "0 \<le> maxRetries conf" "attempt s = (Inr x, s')"
  shows "run_job conf env jid attempt s =
    (Ret \<lparr>Output = Some x, Error = None, JobId = jid, Retries = 0, Duration = je_since env 0, Status = StatusSuccess\<rparr>, s')"
proof -
  obtain k where k: "nat (maxRetries conf + 1) = Suc k" using assms(2) by (cases "nat (maxRetries conf + 1)") auto
  have w: "attempt_work attempt s 0 = Inr x" using assms(3) by (simp add: attempt_work_def)
  have "fst (performWork conf env \<lparr>job_id = jid, job_work = attempt_work attempt s, job_results = 0\<rparr>) =
    \<lparr>Output = Some x, Error = None, JobId = jid, Retries = 0, Duration = je_since env 0, Status = StatusSuccess\<rparr>"
    unfolding performWork_def k using assms(1) w by (simp add: Let_def)
  then show ?thesis
    using assms(3) w by (simp add: run_job_def attempts_made_def panics_def attempt_state_def)
qed

section \<open>The jobs of a call\<close>

lemma run_jobs_steps:
  assumes "\<And>j s done. j \<in> set js \<Longrightarrow> P done s \<Longrightarrow> \<exists>r s'. job j s = (Ret r, s') \<and> Q r \<and> P (insert j done) s'"
  shows "P done s \<Longrightarrow> \<exists>rs s'. run_jobs job js s = (Ret rs, s') \<and> list_all Q rs \<and> length rs = length js \<and> P (set js \<union> done) s'"
  using assms
proof (induction js arbitrary: s "done")
  case (Cons j js)
  from Cons.prems(2) [of j, OF _ Cons.prems(1)] obtain r s1 where
    r: "job j s = (Ret r, s1)" "Q r" "P (insert j done) s1" by auto
  from Cons.IH [OF r(3)] Cons.prems(2) obtain rs s2 where
    "run_jobs job js s1 = (Ret rs, s2)" "list_all Q rs" "length rs = length js" "P (set js \<union> insert j done) s2"
    by (metis list.set_intros(2))
  with r(1,2) show ?case by auto
qed auto

definition pool_open :: "'o pool \<Rightarrow> bool" where
  "pool_open p \<longleftrightarrow> \<not> rp_isClosed p \<and> \<not> rp_ctxDone p \<and> 0 \<le> maxRetries (rp_conf p)"

text \<open>A schedule of \<open>n\<close> jobs: each of them is executed, and none is cancelled before its first attempt.\<close>

definition sched_ok :: "sched \<Rightarrow> nat \<Rightarrow> bool" where
  "sched_ok sc n \<longleftrightarrow> set (sc_order sc n) = {..<n} \<and> (\<forall>i. \<not> je_done (sc_env sc i) 0)"

lemma submit_jobs_open: "pool_open p \<Longrightarrow> submit_jobs p cancelled k i = (i + k, None)"
  by (induction k arbitrary: i) (simp_all add: Submit_returns_def pool_open_def)

lemma collect_results_steps:
  assumes "pool_open p" "sched_ok sc n" "0 < n" "P {} s"
    and "\<And>j s done. j < n \<Longrightarrow> P done s \<Longrightarrow> \<exists>r s'. job (rp_conf p) j s = (Ret r, s') \<and> Q r \<and> P (insert j done) s'"
  shows "\<exists>rs s'. collect_results (Some p) sc job n s = (Ret (Inr rs), s') \<and> list_all Q rs \<and> P {..<n} s'"
proof -
  have o: "set (sc_order sc n) = {..<n}" using assms(2) by (simp add: sched_ok_def)
  have "\<exists>rs s'. run_jobs (job (rp_conf p)) (sc_order sc n) s = (Ret rs, s') \<and> list_all Q rs \<and>
      length rs = length (sc_order sc n) \<and> P (set (sc_order sc n) \<union> {}) s'"
    by (rule run_jobs_steps [where P = P, OF _ assms(4)]) (use assms(5) o in auto)
  with o assms(1,3) show ?thesis by (auto simp: collect_results_def submit_jobs_open)
qed

lemma write_results_success: "list_all (\<lambda>r. Status r = StatusSuccess) rs \<Longrightarrow> write_results rs = None"
  by (induction rs) auto

lemma read_results_success: "list_all (\<lambda>r. Status r = StatusSuccess) rs \<Longrightarrow> read_results q rs d = (None, d)"
  by (induction rs) auto

text \<open>Without a job the call never returns.\<close>

lemma collect_results_none:
  "sc_order sc 0 = [] \<Longrightarrow> collect_results (Some p) sc job 0 s = (Hang, s)"
  by (simp add: collect_results_def)

end
