(* ===== verification/Client_Files.thy ===== *)
theory Client_Files
  imports Client_Chunks Client_Jobs Meta_Server Chunk_Server
begin

text \<open>
  The client above the servers: \<open>file_service\<close> is the contract it relies on, that a record can be
  registered and fetched, and that a chunk can be put and got; \<open>file_sender\<close> is the part of it that
  sending needs. Under this contract \<open>SendFile\<close> and
  \<open>ReadFile\<close> are proved, and any sequence of them is shown to implement a map from names to
  contents. \<open>Client_System\<close> interprets the contract on the handlers of both servers.
\<close>

section \<open>What the client stores\<close>

text \<open>A client with the default hasher whose worker pools are open.\<close>

definition client_ok :: "gob \<Rightarrow> Client \<Rightarrow> bool" where
  "client_ok G c \<longleftrightarrow> (\<forall>b. cl_hasher c b = Inr (HashContent b)) \<and> cl_encoder c = G \<and>
     (\<exists>p. cl_readWorkerPool c = Some p \<and> pool_open p) \<and> (\<exists>p. cl_writeWorkerPool c = Some p \<and> pool_open p)"

text \<open>The encoded metadata of a chunk leaves room for 64 MiB in a message.\<close>

definition gob_small :: "gob \<Rightarrow> bool" where
  "gob_small G \<longleftrightarrow> gob_ok G \<and>
     (\<forall>md. length (cm_Id md) = 32 \<and> ci_Addr (cm_ChunkInfo md) = '''' \<and> 0 \<le> ci_Offset (cm_ChunkInfo md) \<and>
        ci_Offset (cm_ChunkInfo md) < 2 ^ 63 \<longrightarrow> (\<exists>b. gob_Encode G md = Inr b \<and> length b \<le> 2 ^ 20 - 4))"

definition file_record :: "gob \<Rightarrow> string \<Rightarrow> bytes \<Rightarrow> FileMetadata" where
  "file_record G name f = buildFileMetadata (file_chunks HashContent G f) name (length f)"

definition chunk_id :: "bytes \<Rightarrow> nat \<Rightarrow> string" where
  "chunk_id f i = HashContent (piece ChunkSize f i)"

definition chunk_md :: "bytes \<Rightarrow> nat \<Rightarrow> ChunkMetaData" where
  "chunk_md f i = \<lparr>cm_Id = chunk_id f i, cm_ChunkInfo = \<lparr>ci_Size = word_of_nat (length (piece ChunkSize f i)),
     ci_Offset = int (i * ChunkSize), ci_Addr = ''''\<rparr>\<rparr>"

lemma chunk_id_ok: "CHR ''.'' \<notin> set (chunk_id f i)" "chunk_id f i \<noteq> []" "length (chunk_id f i) = 32"
  using HashContent_chars [of "CHR ''.''"] HashContent_length [of "piece ChunkSize f i"]
  by (auto simp: chunk_id_def simp del: HashContent_length)

lemma piece_le: "length (piece ChunkSize f i) \<le> ChunkSize"
  by (simp add: length_piece)

lemma ChunkSize_le: "n \<le> ChunkSize \<Longrightarrow> n \<le> 64 * 2 ^ 20"
  by (simp add: ChunkSize_def)

lemma chunk_at_put:
  assumes G: "gob_small G" and i: "i < chunkCount ChunkSize (length f)" and f: "length f < 2 ^ 63"
  shows "ck_Data (chunk_at HashContent G ChunkSize f i) = req_payload G (Put (chunk_md f i) (piece ChunkSize f i)) \<and>
    req_ok G (Put (chunk_md f i) (piece ChunkSize f i)) \<and>
    MaxMetadataSizeInBytes + word_of_nat (length (piece ChunkSize f i)) +
      word_of_nat (ck_MetadataLen (chunk_at HashContent G ChunkSize f i)) =
      word_of_nat (length (ck_Data (chunk_at HashContent G ChunkSize f i)))"
proof -
  have "i * ChunkSize < length f" using i by (simp add: chunkCount_less)
  with f have "i * ChunkSize < 2 ^ 63" by (rule order.strict_trans [rotated])
  then have "int (i * ChunkSize) < int (2 ^ 63)" by (simp only: of_nat_less_iff)
  then have "int (i * ChunkSize) < 2 ^ 63" by simp
  then have "length (cm_Id (chunk_md f i)) = 32 \<and> ci_Addr (cm_ChunkInfo (chunk_md f i)) = [] \<and>
      0 \<le> ci_Offset (cm_ChunkInfo (chunk_md f i)) \<and> ci_Offset (cm_ChunkInfo (chunk_md f i)) < 2 ^ 63"
    using chunk_id_ok(3) [of f i] by (simp add: chunk_md_def)
  then obtain b where b: "gob_Encode G (chunk_md f i) = Inr b" "length b \<le> 2 ^ 20 - 4"
    using G unfolding gob_small_def by blast
  have e: "encoder_Encode G (chunk_md f i) = Inr b" using b(1) by (simp add: encoder_Encode_def)
  have d: "ck_Data (chunk_at HashContent G ChunkSize f i) = put_uint32 (word_of_nat (length b)) @ b @ piece ChunkSize f i"
    "ck_MetadataLen (chunk_at HashContent G ChunkSize f i) = length b"
    using e by (simp_all add: chunk_at_def make_chunk_def chunk_md_def chunk_id_def take_length_piece Let_def)
  have l: "4 + length b + length (piece ChunkSize f i) \<le> max_payload"
    using b(2) ChunkSize_le [OF piece_le [of f i]] by (simp add: max_payload_def)
  have "req_ok G (Put (chunk_md f i) (piece ChunkSize f i))"
    using b(1) l chunk_id_ok(1) [of f i] by (simp add: req_ok_def chunk_md_def)
  with d b(1) show ?thesis by (simp add: MaxMetadataSizeInBytes_def)
qed

text \<open>The chunks as they are sent, with the addresses of the registered record.\<close>

lemma sent_chunk:
  assumes "distinct (map (chunk_id f) [0 ..< chunkCount ChunkSize (length f)])" "i < chunkCount ChunkSize (length f)"
  shows "updateChunkInfo (assign_addr (file_record G name f)) (file_chunks HashContent G f) ! i =
    (chunk_at HashContent G ChunkSize f i)\<lparr>ck_ChunkInfo :=
       Some \<lparr>ci_Size = word_of_nat (length (piece ChunkSize f i)), ci_Offset = int (i * ChunkSize), ci_Addr = '':5001''\<rparr>\<rparr>"
    and "fm_ChunkInfo (assign_addr (file_record G name f)) (chunk_id f i) =
       Some \<lparr>ci_Size = word_of_nat (length (piece ChunkSize f i)), ci_Offset = int (i * ChunkSize), ci_Addr = '':5001''\<rparr>"
proof -
  let ?ch = "chunk_at HashContent G ChunkSize f i"
  have "map ck_Id (file_chunks HashContent G f) = map (chunk_id f) [0 ..< chunkCount ChunkSize (length f)]"
    by (simp add: file_chunks_def chunk_id_def)
  moreover have "?ch \<in> set (file_chunks HashContent G f)" using assms(2) by (simp add: file_chunks_def)
  ultimately have "fm_ChunkInfo (file_record G name f) (ck_Id ?ch) = ck_ChunkInfo ?ch"
    using build_lookup [of "file_chunks HashContent G f" ?ch] assms(1) unfolding file_record_def by simp
  then show r: "fm_ChunkInfo (assign_addr (file_record G name f)) (chunk_id f i) =
       Some \<lparr>ci_Size = word_of_nat (length (piece ChunkSize f i)), ci_Offset = int (i * ChunkSize), ci_Addr = '':5001''\<rparr>"
    by (simp add: assign_addr_def chunk_id_def)
  show "updateChunkInfo (assign_addr (file_record G name f)) (file_chunks HashContent G f) ! i = ?ch\<lparr>ck_ChunkInfo :=
       Some \<lparr>ci_Size = word_of_nat (length (piece ChunkSize f i)), ci_Offset = int (i * ChunkSize), ci_Addr = '':5001''\<rparr>\<rparr>"
    using r assms(2) by (simp add: updateChunkInfo_def file_chunks_def chunk_id_def)
qed

lemma dom_file_record:
  "dom (fm_ChunkInfo (assign_addr (file_record G name f))) = chunk_id f ` {..<chunkCount ChunkSize (length f)}"
proof -
  have "dom (fm_ChunkInfo (file_record G name f)) = ck_Id ` set (file_chunks HashContent G f)"
    unfolding file_record_def by (rule build_dom) (auto simp: file_chunks_def)
  also have "\<dots> = chunk_id f ` {..<chunkCount ChunkSize (length f)}"
    by (simp add: file_chunks_def image_image chunk_id_def [symmetric] atLeast0LessThan)
  finally show ?thesis by (auto simp: assign_addr_def dom_def)
qed

text \<open>A file that can be sent: no two of its chunks have the same id.\<close>

definition sendable_file :: "string \<Rightarrow> fs \<Rightarrow> bytes \<Rightarrow> bool" where
  "sendable_file p d f \<longleftrightarrow> fs_Open p d = Inr f \<and> \<not> faults d OpStat p \<and> f \<noteq> [] \<and> length f < 2 ^ 63 \<and>
     distinct (map (chunk_id f) [0 ..< chunkCount ChunkSize (length f)])"

definition writable :: "string \<Rightarrow> fs \<Rightarrow> bool" where
  "writable q d \<longleftrightarrow> \<not> faults d OpCreate q \<and> \<not> faults d OpOpen q \<and> fs_node d q \<noteq> Some Dir \<and> room d q = None"

definition range_ok :: "((string \<rightharpoonup> ChunkInfo) \<Rightarrow> string list) \<Rightarrow> bool" where
  "range_ok order \<longleftrightarrow> (\<forall>M. finite (dom M) \<longrightarrow> distinct (order M) \<and> set (order M) = dom M)"

text \<open>
  The client's file \<open>q\<close> while the pieces of \<open>f\<close> with the indices in \<open>I\<close> have been written to it.
\<close>

definition pieces_written :: "bytes \<Rightarrow> nat set \<Rightarrow> string \<Rightarrow> fs \<Rightarrow> fs \<Rightarrow> bool" where
  "pieces_written f I q d0 d \<longleftrightarrow> faults d = faults d0 \<and> room d q = None \<and> (\<forall>x. x \<noteq> q \<longrightarrow> fs_node d x = fs_node d0 x) \<and>
     (\<exists>x. fs_node d q = Some (File x []) \<and> length x \<le> length f \<and> (\<forall>i \<in> I. piece ChunkSize x i = piece ChunkSize f i))"

lemma pieces_written_step:
  assumes "pieces_written f I q d0 d" "I \<subseteq> {..<chunkCount ChunkSize (length f)}" "j < chunkCount ChunkSize (length f)"
    and "fs_node d q = Some (File x [])"
  shows "pieces_written f (insert j I) q d0 (fs_put q (File (write_at (j * ChunkSize) (piece ChunkSize f j) x) []) d)"
proof -
  let ?x = "write_at (j * ChunkSize) (piece ChunkSize f j) x"
  from assms(1,4) have x: "length x \<le> length f" "\<forall>i \<in> I. piece ChunkSize x i = piece ChunkSize f i"
    by (auto simp: pieces_written_def)
  note w = piece_write [OF ChunkSize_pos assms(3) x(1)]
  have "piece ChunkSize ?x i = piece ChunkSize f i" if "i \<in> insert j I" for i
    using that w(2) w(3) [of i] x(2) assms(2) by (cases "i = j") auto
  with w(1) assms(1) show ?thesis by (auto simp: pieces_written_def)
qed

lemma pieces_written_all:
  assumes "pieces_written f {..<chunkCount ChunkSize (length f)} q d0 d"
  shows "fs_node d q = Some (File f [])"
proof -
  from assms obtain x where x: "fs_node d q = Some (File x [])" "length x \<le> length f"
    "\<forall>i < chunkCount ChunkSize (length f). piece ChunkSize x i = piece ChunkSize f i" by (auto simp: pieces_written_def)
  from pieces_eq [OF ChunkSize_pos x(2,3)] x(1) show ?thesis by simp
qed

text \<open>The chunk store \<open>\<sigma>'\<close> has the chunks of \<open>f\<close> with the indices in \<open>I\<close>, and all else as \<open>\<sigma>\<close>.\<close>

definition chunks_stored :: "bytes \<Rightarrow> nat set \<Rightarrow> (string \<rightharpoonup> bytes) \<Rightarrow> (string \<rightharpoonup> bytes) \<Rightarrow> bool" where
  "chunks_stored f I \<sigma> \<sigma>' \<longleftrightarrow>
     (\<forall>i \<in> I. \<sigma>' (chunk_id f i) = Some (piece ChunkSize f i)) \<and> (\<forall>k. k \<notin> chunk_id f ` I \<longrightarrow> \<sigma>' k = \<sigma> k)"

definition chunks_held :: "bytes \<Rightarrow> (string \<rightharpoonup> bytes) \<Rightarrow> bool" where
  "chunks_held f \<sigma> \<longleftrightarrow> (\<forall>i < chunkCount ChunkSize (length f). \<sigma> (chunk_id f i) = Some (piece ChunkSize f i))"

lemma chunks_stored_step:
  assumes "chunks_stored f I \<sigma> \<sigma>'" "distinct (map (chunk_id f) [0 ..< chunkCount ChunkSize (length f)])"
    and "I \<subseteq> {..<chunkCount ChunkSize (length f)}" "i < chunkCount ChunkSize (length f)"
  shows "chunks_stored f (insert i I) \<sigma> (\<sigma>'(chunk_id f i \<mapsto> piece ChunkSize f i))"
proof -
  have "(\<sigma>'(chunk_id f i \<mapsto> piece ChunkSize f i)) (chunk_id f m) = Some (piece ChunkSize f m)" if "m \<in> insert i I" for m
  proof (cases "m = i")
    case False
    with that assms(2-4) have "chunk_id f m \<noteq> chunk_id f i" "m \<in> I" by (auto simp: distinct_map inj_on_def)
    with assms(1) show ?thesis by (simp add: chunks_stored_def)
  qed simp
  with assms(1) show ?thesis by (auto simp: chunks_stored_def)
qed

lemma chunks_stored_held: "chunks_stored f {..<chunkCount ChunkSize (length f)} \<sigma> \<sigma>' \<Longrightarrow> chunks_held f \<sigma>'"
  by (auto simp: chunks_stored_def chunks_held_def)

section \<open>Sequences of calls\<close>

text \<open>
  A call of the client with the client's disk at that moment. A run stops where a call crashes or never
  returns; the output of a read is the file it leaves.
\<close>

datatype dfs_call = SendCall sched string fs | ReadCall sched string string fs

definition base_name :: "string \<Rightarrow> string" where
  "base_name p = last (split_on CHR ''/'' p)"

definition file_at :: "string \<Rightarrow> fs \<Rightarrow> bytes" where
  "file_at p d = (case fs_Open p d of Inl e \<Rightarrow> [] | Inr f \<Rightarrow> f)"

fun dfs_run ::
  "'w net \<Rightarrow> FileMetadata proto \<Rightarrow> Client \<Rightarrow> ((string \<rightharpoonup> ChunkInfo) \<Rightarrow> string list) \<Rightarrow> dfs_call list \<Rightarrow> 'w \<Rightarrow>
     (go_error option run \<times> bytes option) list \<times> 'w" where
  "dfs_run N Pm c order [] w = ([], w)"
| "dfs_run N Pm c order (SendCall sc p d # cs) w =
     (case SendFile N Pm c sc p d w of
        (Ret e, w1) \<Rightarrow> (case dfs_run N Pm c order cs w1 of (rs, w2) \<Rightarrow> ((Ret e, None) # rs, w2))
      | (r, w1) \<Rightarrow> ([(r, None)], w1))"
| "dfs_run N Pm c order (ReadCall sc n q d # cs) w =
     (case ReadFile N Pm c sc order n q d w of
        (Ret e, (d1, w1)) \<Rightarrow> (case dfs_run N Pm c order cs w1 of (rs, w2) \<Rightarrow> ((Ret e, Some (file_at q d1)) # rs, w2))
      | (r, (d1, w1)) \<Rightarrow> ([(r, None)], w1))"

text \<open>The abstract service: a map from names to contents.\<close>

fun dfs_spec :: "dfs_call list \<Rightarrow> (string \<rightharpoonup> bytes) \<Rightarrow> bytes option list \<times> (string \<rightharpoonup> bytes)" where
  "dfs_spec [] \<phi> = ([], \<phi>)"
| "dfs_spec (SendCall sc p d # cs) \<phi> = (case dfs_spec cs (\<phi>(base_name p \<mapsto> file_at p d)) of (out, \<phi>') \<Rightarrow> (None # out, \<phi>'))"
| "dfs_spec (ReadCall sc n q d # cs) \<phi> = (case dfs_spec cs \<phi> of (out, \<phi>') \<Rightarrow> (\<phi> n # out, \<phi>'))"

fun sent_files :: "dfs_call list \<Rightarrow> bytes list" where
  "sent_files [] = []"
| "sent_files (SendCall sc p d # cs) = file_at p d # sent_files cs"
| "sent_files (ReadCall sc n q d # cs) = sent_files cs"

text \<open>Calls the service is meant for: readable files with records that fit, and reads of known names.\<close>

definition name_ok :: "string \<Rightarrow> bool" where
  "name_ok n \<longleftrightarrow> n \<noteq> [] \<and> length n \<le> max_payload"

fun calls_ok :: "gob \<Rightarrow> FileMetadata proto \<Rightarrow> (FileMetadata \<Rightarrow> bool) \<Rightarrow> dfs_call list \<Rightarrow> (string \<rightharpoonup> bytes) \<Rightarrow> bool" where
  "calls_ok G Pm storable [] \<phi> = True"
| "calls_ok G Pm storable (SendCall sc p d # cs) \<phi> =
     (sendable_file p d (file_at p d) \<and> sched_ok sc (chunkCount ChunkSize (length (file_at p d))) \<and>
      meta_req_ok Pm storable (AddFile (file_record G (base_name p) (file_at p d))) \<and>
      calls_ok G Pm storable cs (\<phi>(base_name p \<mapsto> file_at p d)))"
| "calls_ok G Pm storable (ReadCall sc n q d # cs) \<phi> =
     ((case \<phi> n of None \<Rightarrow> False | Some f \<Rightarrow> sched_ok sc (chunkCount ChunkSize (length f))) \<and> name_ok n \<and> writable q d \<and>
      calls_ok G Pm storable cs \<phi>)"

text \<open>No two different chunks of the files in \<open>F\<close> have the same MD5.\<close>

definition chunks_apart :: "bytes set \<Rightarrow> bool" where
  "chunks_apart F \<longleftrightarrow> (\<forall>f \<in> F. \<forall>g \<in> F. \<forall>i < chunkCount ChunkSize (length f). \<forall>j < chunkCount ChunkSize (length g).
     chunk_id f i = chunk_id g j \<longrightarrow> piece ChunkSize f i = piece ChunkSize g j)"

text \<open>The records and the chunks hold the files of \<open>\<phi>\<close>.\<close>

definition dfs_holds :: "gob \<Rightarrow> (string \<rightharpoonup> bytes) \<Rightarrow> files \<Rightarrow> (string \<rightharpoonup> bytes) \<Rightarrow> bool" where
  "dfs_holds G \<phi> \<mu> \<sigma> \<longleftrightarrow> (\<forall>n f. \<phi> n = Some f \<longrightarrow> \<mu> n = Some (assign_addr (file_record G n f)) \<and> chunks_held f \<sigma> \<and>
     f \<noteq> [] \<and> distinct (map (chunk_id f) [0 ..< chunkCount ChunkSize (length f)]))"

lemma chunks_held_kept:
  assumes "chunks_held g \<sigma>" "chunks_stored f {..<chunkCount ChunkSize (length f)} \<sigma> \<sigma>'"
    and "chunks_apart F" "f \<in> F" "g \<in> F"
  shows "chunks_held g \<sigma>'"
  unfolding chunks_held_def
proof (intro allI impI)
  fix j assume j: "j < chunkCount ChunkSize (length g)"
  show "\<sigma>' (chunk_id g j) = Some (piece ChunkSize g j)"
  proof (cases "chunk_id g j \<in> chunk_id f ` {..<chunkCount ChunkSize (length f)}")
    case True
    then obtain i where i: "i < chunkCount ChunkSize (length f)" "chunk_id f i = chunk_id g j" by auto
    with assms(3-5) j have "piece ChunkSize f i = piece ChunkSize g j" unfolding chunks_apart_def by blast
    with i assms(2) show ?thesis by (metis chunks_stored_def lessThan_iff)
  next
    case False
    with assms(1,2) j show ?thesis by (simp add: chunks_stored_def chunks_held_def)
  qed
qed

lemma dfs_holds_send:
  assumes "dfs_holds G \<phi> \<mu> \<sigma>" "chunks_stored f {..<chunkCount ChunkSize (length f)} \<sigma> \<sigma>'" "sendable_file p d f"
    and "chunks_apart F" "f \<in> F" "ran \<phi> \<subseteq> F"
  shows "dfs_holds G (\<phi>(n \<mapsto> f)) (\<mu>(n \<mapsto> assign_addr (file_record G n f))) \<sigma>'"
proof -
  have "chunks_held g \<sigma>'" if "\<phi> m = Some g" for m g
    using chunks_held_kept [OF _ assms(2,4,5)] assms(1,6) that by (auto simp: dfs_holds_def ran_def)
  with assms(1) chunks_stored_held [OF assms(2)] assms(3) show ?thesis by (auto simp: dfs_holds_def sendable_file_def)
qed

text \<open>Nothing else is stored under the ids of the chunks of \<open>f\<close>.\<close>

definition stored_apart :: "bytes \<Rightarrow> (string \<rightharpoonup> bytes) \<Rightarrow> bool" where
  "stored_apart f \<sigma> \<longleftrightarrow>
     (\<forall>i < chunkCount ChunkSize (length f). \<sigma> (chunk_id f i) = None \<or> \<sigma> (chunk_id f i) = Some (piece ChunkSize f i))"

lemma stored_apart_kept:
  assumes "stored_apart g \<sigma>" "chunks_stored f {..<chunkCount ChunkSize (length f)} \<sigma> \<sigma>'"
    and "chunks_apart F" "f \<in> F" "g \<in> F"
  shows "stored_apart g \<sigma>'"
  unfolding stored_apart_def
proof (intro allI impI)
  fix j assume j: "j < chunkCount ChunkSize (length g)"
  show "\<sigma>' (chunk_id g j) = None \<or> \<sigma>' (chunk_id g j) = Some (piece ChunkSize g j)"
  proof (cases "chunk_id g j \<in> chunk_id f ` {..<chunkCount ChunkSize (length f)}")
    case True
    then obtain i where i: "i < chunkCount ChunkSize (length f)" "chunk_id f i = chunk_id g j" by auto
    with assms(3-5) j have "piece ChunkSize f i = piece ChunkSize g j" unfolding chunks_apart_def by blast
    with i assms(2) show ?thesis by (metis chunks_stored_def lessThan_iff)
  next
    case False
    with assms(1,2) j show ?thesis by (simp add: chunks_stored_def stored_apart_def)
  qed
qed

section \<open>The contract\<close>

text \<open>
  \<open>rep k w \<mu> \<sigma>\<close>: behind the network in state \<open>w\<close> the records are \<open>\<mu>\<close>, the chunks are \<open>\<sigma>\<close> or will be
  when all that has been sent has been handled, and there is room for \<open>k\<close> more registrations. Sending
  files needs only that records can be registered and chunks put; reading them also that records
  can be fetched and chunks got.
\<close>

locale file_sender =
  fixes N :: "'w net"
    and Pm :: "FileMetadata proto"
    and G :: gob
    and storable :: "FileMetadata \<Rightarrow> bool"
    and rep :: "nat \<Rightarrow> 'w \<Rightarrow> files \<Rightarrow> (string \<rightharpoonup> bytes) \<Rightarrow> bool"
  assumes register: "rep (Suc k) w \<mu> \<sigma> \<Longrightarrow> meta_req_ok Pm storable (AddFile m) \<Longrightarrow>
      \<exists>w'. registerFileMetadata N Pm m w = (Inr (assign_addr m), w') \<and> rep k w' (\<mu>(fm_Name m \<mapsto> assign_addr m)) \<sigma>"
    and put: "rep k w \<mu> \<sigma> \<Longrightarrow> req_ok G (Put md b) \<Longrightarrow> HashContent b = cm_Id md \<Longrightarrow>
      \<sigma> (cm_Id md) = None \<or> \<sigma> (cm_Id md) = Some b \<Longrightarrow>
      ck_Data ch = req_payload G (Put md b) \<Longrightarrow> ck_ChunkInfo ch = Some ci \<Longrightarrow> ci_Addr ci = '':5001'' \<Longrightarrow>
      MaxMetadataSizeInBytes + ci_Size ci + word_of_nat (ck_MetadataLen ch) = word_of_nat (length (ck_Data ch)) \<Longrightarrow>
      \<exists>ch' w'. sendChunk N (ch, w) = (Inr (ck_Id ch), (ch', w')) \<and> rep k w' \<mu> (\<sigma>(cm_Id md \<mapsto> b))"
begin

lemma write_job_ok:
  assumes G: "gob_small G" and f: "length f < 2 ^ 63" "i < chunkCount ChunkSize (length f)"
    and dist: "distinct (map (chunk_id f) [0 ..< chunkCount ChunkSize (length f)])"
    and I: "I \<subseteq> {..<chunkCount ChunkSize (length f)}" and conf: "0 \<le> maxRetries conf" "\<not> je_done (sc_env sc i) 0"
    and w: "rep k w \<mu> \<sigma>'" "chunks_stored f I \<sigma> \<sigma>'" "stored_apart f \<sigma>"
  shows "\<exists>r w' \<sigma>''. write_job N sc (updateChunkInfo (assign_addr (file_record G name f)) (file_chunks HashContent G f)) conf i w =
      (Ret r, w') \<and> Status r = StatusSuccess \<and> rep k w' \<mu> \<sigma>'' \<and> chunks_stored f (insert i I) \<sigma> \<sigma>''"
proof -
  let ?c = "updateChunkInfo (assign_addr (file_record G name f)) (file_chunks HashContent G f) ! i" and ?p = "piece ChunkSize f i"
  note c = sent_chunk(1) [OF dist f(2), of G name]
  note put_ok = chunk_at_put [OF G f(2,1)]
  have "\<sigma>' (chunk_id f i) = None \<or> \<sigma>' (chunk_id f i) = Some ?p"
  proof (cases "chunk_id f i \<in> chunk_id f ` I")
    case True
    then obtain m where m: "m \<in> I" "chunk_id f i = chunk_id f m" by blast
    with I have "m < chunkCount ChunkSize (length f)" by blast
    with m(2) dist f(2) have "i = m" by (auto simp: distinct_map inj_on_def)
    with m(1) have "i \<in> I" by simp
    with w(2) show ?thesis by (simp add: chunks_stored_def)
  next
    case False
    with w(2,3) f(2) show ?thesis by (simp add: chunks_stored_def stored_apart_def)
  qed
  with put [OF w(1), of "chunk_md f i" ?p ?c] put_ok c obtain c' w' where
    send: "sendChunk N (?c, w) = (Inr (ck_Id ?c), (c', w'))" and rep: "rep k w' \<mu> (\<sigma>'(chunk_id f i \<mapsto> ?p))"
    by (fastforce simp: chunk_md_def chunk_id_def)
  from run_job_first [of "sc_env sc i" conf "sendChunk N", OF conf(2,1) send] rep chunks_stored_step [OF w(2) dist I f(2)]
  show ?thesis by (auto simp: write_job_def simp del: fun_upd_apply)
qed

lemma SendFile_ok:
  assumes c: "client_ok G c" "gob_small G" and f: "sendable_file p d f"
    and w: "rep (Suc k) w \<mu> \<sigma>" "meta_req_ok Pm storable (AddFile (file_record G (last (split_on CHR ''/'' p)) f))"
    and sc: "sched_ok sc (chunkCount ChunkSize (length f))" and apart: "stored_apart f \<sigma>"
  shows "\<exists>w' \<sigma>'. SendFile N Pm c sc p d w = (Ret None, w') \<and>
    rep k w' (\<mu>(last (split_on CHR ''/'' p) \<mapsto> assign_addr (file_record G (last (split_on CHR ''/'' p)) f))) \<sigma>' \<and>
    chunks_stored f {..<chunkCount ChunkSize (length f)} \<sigma> \<sigma>'"
proof -
  let ?n = "chunkCount ChunkSize (length f)" and ?name = "last (split_on CHR ''/'' p)"
  let ?r = "file_record G ?name f" and ?cs = "file_chunks HashContent G f"
  let ?\<mu> = "\<mu>(?name \<mapsto> assign_addr ?r)"
  from f have f': "fs_Open p d = Inr f" "\<not> faults d OpStat p" "f \<noteq> []" "length f < 2 ^ 63"
    and dist: "distinct (map (chunk_id f) [0 ..< ?n])" by (simp_all add: sendable_file_def)
  from c(1) obtain wp where cl: "\<forall>b. cl_hasher c b = Inr (HashContent b)" "cl_encoder c = G"
    "cl_writeWorkerPool c = Some wp" "pool_open wp" by (auto simp: client_ok_def)
  have name: "fm_Name ?r = ?name" by (simp add: file_record_def buildFileMetadata_def)
  from register [OF w] obtain w1 where
    reg: "registerFileMetadata N Pm ?r w = (Inr (assign_addr ?r), w1)" "rep k w1 ?\<mu> \<sigma>" unfolding name by blast
  have n: "0 < ?n" using f'(3) chunkCount_less [of ChunkSize 0 "length f"] by simp
  define P where "P I w \<longleftrightarrow> I \<subseteq> {..<?n} \<and> (\<exists>\<sigma>'. rep k w ?\<mu> \<sigma>' \<and> chunks_stored f I \<sigma> \<sigma>')" for I w
  have P0: "P {} w1" using reg(2) by (auto simp: P_def chunks_stored_def)
  have len: "length (updateChunkInfo (assign_addr ?r) ?cs) = ?n" by (simp add: updateChunkInfo_def file_chunks_def)
  have "\<exists>rs w. collect_results (Some wp) sc (write_job N sc (updateChunkInfo (assign_addr ?r) ?cs)) ?n w1 =
      (Ret (Inr rs), w) \<and> list_all (\<lambda>r. Status r = StatusSuccess) rs \<and> P {..<?n} w"
  proof (rule collect_results_steps [where P = P, OF cl(4) sc n P0])
    fix j w I
    assume j: "j < ?n" and "P I w"
    then obtain \<sigma>' where I: "I \<subseteq> {..<?n}" "rep k w ?\<mu> \<sigma>'" "chunks_stored f I \<sigma> \<sigma>'" by (auto simp: P_def)
    have "0 \<le> maxRetries (rp_conf wp)" "\<not> je_done (sc_env sc j) 0" using cl(4) sc by (simp_all add: pool_open_def sched_ok_def)
    from write_job_ok [OF c(2) f'(4) j dist I(1) this I(2,3) apart, of ?name] I(1) j
    show "\<exists>r w'. write_job N sc (updateChunkInfo (assign_addr ?r) ?cs) (rp_conf wp) j w = (Ret r, w') \<and>
        Status r = StatusSuccess \<and> P (insert j I) w'" unfolding P_def by blast
  qed
  then obtain rs w' where send: "sendChunks N c sc (updateChunkInfo (assign_addr ?r) ?cs) w1 = (Ret (Inr rs), w')"
    and rs: "list_all (\<lambda>r. Status r = StatusSuccess) rs" and P: "P {..<?n} w'"
    by (auto simp: sendChunks_def cl(3) len)
  have "SendFile N Pm c sc p d w = (Ret None, w')"
    using f'(1,2) chunkFiles_eq [OF cl(1), of f] reg(1) send write_results_success [OF rs] cl(2)
    by (simp add: SendFile_def file_record_def)
  with P show ?thesis unfolding P_def by blast
qed

end

locale file_service = file_sender +
  assumes fetch: "rep k w \<mu> \<sigma> \<Longrightarrow> \<mu> n = Some m \<Longrightarrow> n \<noteq> [] \<Longrightarrow> length n \<le> max_payload \<Longrightarrow>
      \<exists>w'. fetchFileMetadata N Pm n w = (Inr m, w') \<and> rep k w' \<mu> \<sigma>"
    and get: "rep k w \<mu> \<sigma> \<Longrightarrow> req_ok G (Get cid) \<Longrightarrow> \<sigma> cid = Some b \<Longrightarrow> b \<noteq> [] \<Longrightarrow>
      ci_Addr ci = '':5001'' \<Longrightarrow> ci_Size ci = word_of_nat (length b) \<Longrightarrow> ci_Offset ci = int off \<Longrightarrow>
      fs_node d q = Some (File x y) \<Longrightarrow> room d q = None \<Longrightarrow>
      \<exists>w'. read_job N q cid ci (d, w) =
        (Inr (''Read chunk '' @ cid), (fs_put q (File (write_at off b x) y) d, w')) \<and> rep k w' \<mu> \<sigma>"
begin

lemma read_chunk_job_ok:
  assumes G: "gob_ok G" and i: "i < chunkCount ChunkSize (length f)"
    and dist: "distinct (map (chunk_id f) [0 ..< chunkCount ChunkSize (length f)])"
    and I: "I \<subseteq> {..<chunkCount ChunkSize (length f)}" and conf: "0 \<le> maxRetries conf" "\<not> je_done env 0"
    and w: "rep k w \<mu> \<sigma>" "chunks_held f \<sigma>" and d: "pieces_written f I q d0 d"
  shows "\<exists>r d' w'. run_job conf env jid (read_job N q (chunk_id f i)
        (the (fm_ChunkInfo (assign_addr (file_record G name f)) (chunk_id f i)))) (d, w) = (Ret r, (d', w')) \<and>
      Status r = StatusSuccess \<and> rep k w' \<mu> \<sigma> \<and> pieces_written f (insert i I) q d0 d'"
proof -
  let ?ci = "the (fm_ChunkInfo (assign_addr (file_record G name f)) (chunk_id f i))" and ?p = "piece ChunkSize f i"
  from w(2) i have \<sigma>: "\<sigma> (chunk_id f i) = Some ?p" by (simp add: chunks_held_def)
  from d obtain x where x: "fs_node d q = Some (File x [])" "room d q = None" by (auto simp: pieces_written_def)
  have g: "req_ok G (Get (chunk_id f i))"
    using chunk_id_ok [of f i] by (simp add: req_ok_def bytes_of_string_def max_payload_def)
  have ci: "ci_Addr ?ci = '':5001''" "ci_Size ?ci = word_of_nat (length ?p)" "ci_Offset ?ci = int (i * ChunkSize)"
    using sent_chunk(2) [OF dist i, of G name] by simp_all
  from get [OF w(1) g \<sigma> piece_nonempty [OF ChunkSize_pos i] ci x] obtain w' where
    rd: "read_job N q (chunk_id f i) ?ci (d, w) =
      (Inr (''Read chunk '' @ chunk_id f i), (fs_put q (File (write_at (i * ChunkSize) ?p x) []) d, w'))" "rep k w' \<mu> \<sigma>"
    by (elim exE conjE)
  from run_job_first [of env conf "read_job N q (chunk_id f i) ?ci", OF conf(2,1) rd(1), of jid]
    rd(2) pieces_written_step [OF d I i x(1)]
  show ?thesis by (intro exI conjI) (assumption | simp)+
qed

lemma ReadFile_ok:
  assumes c: "client_ok G c" "gob_ok G" and f: "f \<noteq> []"
    and dist: "distinct (map (chunk_id f) [0 ..< chunkCount ChunkSize (length f)])"
    and w: "rep k w \<mu> \<sigma>" "chunks_held f \<sigma>" "\<mu> name = Some (assign_addr (file_record G name' f))"
    and name: "name \<noteq> []" "length name \<le> max_payload"
    and sc: "sched_ok sc (chunkCount ChunkSize (length f))" and d: "writable q d" and order: "range_ok order"
  shows "\<exists>d' w'. ReadFile N Pm c sc order name q d w = (Ret None, (d', w')) \<and> rep k w' \<mu> \<sigma> \<and>
    fs_Open q d' = Inr f \<and> (\<forall>x. x \<noteq> q \<longrightarrow> fs_node d' x = fs_node d x)"
proof -
  let ?n = "chunkCount ChunkSize (length f)" and ?m = "assign_addr (file_record G name' f)"
  let ?ids = "order (fm_ChunkInfo ?m)"
  from d have q: "\<not> faults d OpCreate q" "\<not> faults d OpOpen q" "fs_node d q \<noteq> Some Dir" "room d q = None"
    by (simp_all add: writable_def)
  from c(1) obtain rp where rp: "cl_readWorkerPool c = Some rp" "pool_open rp" by (auto simp: client_ok_def)
  have ids: "distinct ?ids" "set ?ids = chunk_id f ` {..<?n}"
    using order by (simp_all add: range_ok_def dom_file_record)
  have inj: "inj_on (chunk_id f) {..<?n}" using dist by (simp add: distinct_map atLeast0LessThan)
  then have len: "length ?ids = ?n" using distinct_card [OF ids(1)] by (simp add: ids(2) card_image)
  have n: "0 < ?n" using f chunkCount_less [of ChunkSize 0 "length f"] by simp
  from fetch [OF w(1,3) name] obtain w0 where
    fetched: "fetchFileMetadata N Pm name w = (Inr ?m, w0)" "rep k w0 \<mu> \<sigma>" by blast
  define d1 where "d1 = fs_put q (File [] []) d"
  have create: "fs_Create q d = (None, d1)" using q by (simp add: fs_Create_def d1_def)
  define J where "J I = {i. i < ?n \<and> chunk_id f i \<in> (!) ?ids ` I}" for I
  define P where "P I s \<longleftrightarrow> rep k (snd s) \<mu> \<sigma> \<and> pieces_written f (J I) q d (fst s)" for I s
  have P0: "P {} (d1, w0)" using fetched(2) q by (auto simp: P_def J_def pieces_written_def d1_def)
  let ?job = "\<lambda>conf i. run_job conf (sc_env sc i) (sc_id sc i) (read_job N q (?ids ! i) (the (fm_ChunkInfo ?m (?ids ! i))))"
  have "\<exists>rs s. collect_results (Some rp) sc ?job ?n (d1, w0) = (Ret (Inr rs), s) \<and>
      list_all (\<lambda>r. Status r = StatusSuccess) rs \<and> P {..<?n} s"
  proof (rule collect_results_steps [where P = P, OF rp(2) sc n P0])
    fix j s I
    assume j: "j < ?n" and P: "P I s"
    have "?ids ! j \<in> set ?ids" using j len by simp
    then obtain i where i: "?ids ! j = chunk_id f i" "i < ?n" using ids(2) by auto
    have JI: "J I \<subseteq> {..<?n}" "J (insert j I) = insert i (J I)" using i inj by (auto simp: J_def dest: inj_onD)
    have conf: "0 \<le> maxRetries (rp_conf rp)" "\<not> je_done (sc_env sc j) 0" using rp(2) sc by (simp_all add: pool_open_def sched_ok_def)
    obtain d2 w2 where s: "s = (d2, w2)" by (cases s)
    from P have "rep k w2 \<mu> \<sigma>" "pieces_written f (J I) q d d2" by (simp_all add: P_def s)
    from read_chunk_job_ok [OF c(2) i(2) dist JI(1) conf this(1) w(2) this(2), of "sc_id sc j" name'] JI(2)
    show "\<exists>r s'. ?job (rp_conf rp) j s = (Ret r, s') \<and> Status r = StatusSuccess \<and> P (insert j I) s'"
      unfolding s i(1) by (auto simp: P_def)
  qed
  then obtain rs s where rs: "processReadFile N c sc order ?m q (d1, w0) = (Ret (Inr rs), s)"
    "list_all (\<lambda>r. Status r = StatusSuccess) rs" "P {..<?n} s" by (auto simp: processReadFile_def Let_def len rp(1))
  have "(!) ?ids ` {..<?n} = chunk_id f ` {..<?n}" unfolding ids(2) [symmetric] using len by (auto simp: set_conv_nth)
  then have "J {..<?n} = {..<?n}" by (auto simp: J_def)
  with rs(3) have W: "rep k (snd s) \<mu> \<sigma>" "pieces_written f {..<?n} q d (fst s)" by (simp_all add: P_def)
  have "ReadFile N Pm c sc order name q d w = (Ret None, s)"
    using create fetched(1) rs(1) read_results_success [OF rs(2)] by (cases s) (simp add: ReadFile_def)
  with pieces_written_all [OF W(2)] W q(2) show ?thesis
    by (cases s) (auto simp: pieces_written_def fs_Open_def)
qed

theorem dfs_run_implements:
  assumes "client_ok G c" "gob_small G" "range_ok order"
  shows "calls_ok G Pm storable calls \<phi> \<Longrightarrow> chunks_apart F \<Longrightarrow> ran \<phi> \<union> set (sent_files calls) \<subseteq> F \<Longrightarrow>
    rep (length (sent_files calls) + k) w \<mu> \<sigma> \<Longrightarrow> dfs_holds G \<phi> \<mu> \<sigma> \<Longrightarrow> \<forall>f \<in> F. stored_apart f \<sigma> \<Longrightarrow>
    \<exists>w' \<mu>' \<sigma>'. dfs_run N Pm c order calls w = (map (\<lambda>out. (Ret None, out)) (fst (dfs_spec calls \<phi>)), w') \<and>
      rep k w' \<mu>' \<sigma>' \<and> dfs_holds G (snd (dfs_spec calls \<phi>)) \<mu>' \<sigma>'"
proof (induction calls arbitrary: \<phi> w \<mu> \<sigma>)
  case Nil
  then show ?case by auto
next
  case (Cons call calls)
  show ?case
  proof (cases call)
    case (SendCall sc p d)
    let ?f = "file_at p d" and ?k = "length (sent_files calls) + k"
    let ?\<phi> = "\<phi>(base_name p \<mapsto> ?f)" and ?\<mu> = "\<mu>(base_name p \<mapsto> assign_addr (file_record G (base_name p) ?f))"
    from Cons.prems(1,3,4) SendCall have ok: "sendable_file p d ?f" "sched_ok sc (chunkCount ChunkSize (length ?f))"
      "meta_req_ok Pm storable (AddFile (file_record G (base_name p) ?f))" "calls_ok G Pm storable calls ?\<phi>"
      and r: "rep (Suc ?k) w \<mu> \<sigma>" and F: "?f \<in> F" "ran \<phi> \<subseteq> F" by auto
    have "stored_apart ?f \<sigma>" using Cons.prems(6) F(1) by blast
    from SendFile_ok [OF assms(1,2) ok(1) r ok(3) [unfolded base_name_def] ok(2) this] obtain w1 \<sigma>1 where
      w1: "SendFile N Pm c sc p d w = (Ret None, w1)" "rep ?k w1 ?\<mu> \<sigma>1"
      and st: "chunks_stored ?f {..<chunkCount ChunkSize (length ?f)} \<sigma> \<sigma>1" unfolding base_name_def by blast
    have "ran ?\<phi> \<union> set (sent_files calls) \<subseteq> F" using Cons.prems(3) SendCall by (auto simp: ran_def)
    note IH = Cons.IH [OF ok(4) Cons.prems(2) this w1(2) dfs_holds_send [OF Cons.prems(5) st ok(1) Cons.prems(2) F]]
    have "\<forall>g \<in> F. stored_apart g \<sigma>1" using stored_apart_kept [OF _ st Cons.prems(2) F(1)] Cons.prems(6) by blast
    from IH [OF this]
    obtain w' \<mu>' \<sigma>' where "dfs_run N Pm c order calls w1 = (map (\<lambda>out. (Ret None, out)) (fst (dfs_spec calls ?\<phi>)), w')"
      "rep k w' \<mu>' \<sigma>'" "dfs_holds G (snd (dfs_spec calls ?\<phi>)) \<mu>' \<sigma>'" by (elim exE conjE)
    with w1(1) SendCall show ?thesis
      by (intro exI [of _ w'] exI [of _ \<mu>'] exI [of _ \<sigma>']) (simp add: split_beta del: fun_upd_apply)
  next
    case (ReadCall sc n q d)
    with Cons.prems(1,4) obtain f where f: "\<phi> n = Some f" "sched_ok sc (chunkCount ChunkSize (length f))" "name_ok n"
      "writable q d" "calls_ok G Pm storable calls \<phi>" and r: "rep (length (sent_files calls) + k) w \<mu> \<sigma>"
      by (auto split: option.splits)
    with Cons.prems(5) have h: "\<mu> n = Some (assign_addr (file_record G n f))" "chunks_held f \<sigma>" "f \<noteq> []"
      "distinct (map (chunk_id f) [0 ..< chunkCount ChunkSize (length f)])" by (auto simp: dfs_holds_def)
    from f(3) have n: "n \<noteq> []" "length n \<le> max_payload" by (simp_all add: name_ok_def)
    have "gob_ok G" using assms(2) by (simp add: gob_small_def)
    from ReadFile_ok [OF assms(1) this h(3,4) r h(2,1) n f(2,4) assms(3)] obtain d1 w1 where
      w1: "ReadFile N Pm c sc order n q d w = (Ret None, (d1, w1))" "rep (length (sent_files calls) + k) w1 \<mu> \<sigma>"
      "file_at q d1 = f" by (auto simp: file_at_def)
    have "ran \<phi> \<union> set (sent_files calls) \<subseteq> F" using Cons.prems(3) ReadCall by simp
    from Cons.IH [OF f(5) Cons.prems(2) this w1(2) Cons.prems(5,6)]
    obtain w' \<mu>' \<sigma>' where "dfs_run N Pm c order calls w1 = (map (\<lambda>out. (Ret None, out)) (fst (dfs_spec calls \<phi>)), w')"
      "rep k w' \<mu>' \<sigma>'" "dfs_holds G (snd (dfs_spec calls \<phi>)) \<mu>' \<sigma>'" by (elim exE conjE)
    with w1(1,3) f(1) ReadCall show ?thesis
      by (intro exI [of _ w'] exI [of _ \<mu>'] exI [of _ \<sigma>']) (simp add: split_beta)
  qed
qed

end

end
