(* ===== verification/Client_System.thy ===== *)
theory Client_System
  imports Client_Files Pool_Properties
begin

text \<open>
  The client together with the servers: a network in which the metadata server's handler answers
  on the pooled connections and the chunk server's handler at the address that the metadata
  server assigns. Lemmas on one request, one chunk sent and one chunk read give the contract of
  \<open>Client_Files\<close> for the code's own servers.
\<close>

section \<open>The world behind the client\<close>

text \<open>
  The stores of both servers; the connections on which the client has sent a chunk and that the
  chunk server has not handled yet, by the bytes on them; the client's pool of connections to the
  metadata server; what is left to be read on the connection that the pool gave out last; and the
  number of exchanges so far.
\<close>

record 's dfs_world =
  dw_meta :: 's
  dw_chunks :: fs
  dw_sent :: "bytes list"
  dw_pool :: TCPPool
  dw_left :: bytes
  dw_time :: nat

text \<open>
  A chunk is sent without acknowledgement: the connection is closed by the client when all bytes have
  been given to it, and the chunk server handles it some time, before or after other ones.
  \<open>arr t now n\<close> says which of \<open>n\<close> waiting connections the chunk server handles before exchange \<open>t\<close>, in
  which order, each by its position among those that still wait; \<open>now\<close> says that the exchange is a
  read of a chunk. The chunk server handles one connection after the other; that several are handled
  at once is the subject of \<open>Chunk_Concurrency\<close>.
\<close>

type_synonym arrivals = "nat \<Rightarrow> bool \<Rightarrow> nat \<Rightarrow> nat list"

definition handle_sent :: "ChunkHandler \<Rightarrow> nat \<Rightarrow> 's dfs_world \<Rightarrow> 's dfs_world" where
  "handle_sent CH i w =
     (if i < length (dw_sent w)
      then w\<lparr>dw_chunks := snd (snd (chunk_Handle CH (dw_sent w ! i) new_conn (dw_chunks w))),
             dw_sent := take i (dw_sent w) @ drop (Suc i) (dw_sent w)\<rparr>
      else w)"

definition serve :: "ChunkHandler \<Rightarrow> arrivals \<Rightarrow> bool \<Rightarrow> 's dfs_world \<Rightarrow> 's dfs_world" where
  "serve CH arr now w =
     (fold (handle_sent CH) (arr (dw_time w) now (length (dw_sent w))) w)\<lparr>dw_time := dw_time w + 1\<rparr>"

text \<open>The list handles all of \<open>n\<close> waiting connections.\<close>

fun serves_all :: "nat list \<Rightarrow> nat \<Rightarrow> bool" where
  "serves_all [] n \<longleftrightarrow> n = 0"
| "serves_all (i # is) n \<longleftrightarrow> i < n \<and> serves_all is (n - 1)"

text \<open>
  What the code relies on without enforcing it: a chunk that was sent has been written by the time it
  is asked for.
\<close>

definition prompt :: "arrivals \<Rightarrow> bool" where
  "prompt arr \<longleftrightarrow> (\<forall>t n. serves_all (arr t True n) n)"

section \<open>The network of the servers\<close>

text \<open>
  A server closes the connection when its handler returns an error; after a request it has
  served, it waits for the next one.
\<close>

definition handler_failed :: "ret \<Rightarrow> bool" where
  "handler_failed r \<longleftrightarrow> (case r of Return (Some e) \<Rightarrow> True | _ \<Rightarrow> False)"

text \<open>\<open>Get\<close> of an open pool pings the first pooled connection; the metadata server's handler answers.\<close>

definition ping_answered :: "'s MetaServerHandler \<Rightarrow> TCPPool \<Rightarrow> 's \<Rightarrow> TCPPool \<times> 's" where
  "ping_answered MH t st =
     (case tp_connections t of
        [] \<Rightarrow> (t, st)
      | conn # cs \<Rightarrow>
          if tp_isClosed t then (t, st)
          else (case meta_Handle MH (wire ping_message) new_conn st of
             (r, c, st') \<Rightarrow>
               (t\<lparr>tp_connections := conn\<lparr>tc_in := tc_in conn @ cout c, tc_eof := tc_eof conn \<or> handler_failed r\<rparr> # cs\<rparr>, st')))"

definition fresh_conn :: "nat \<Rightarrow> tcp_conn" where
  "fresh_conn n = \<lparr>tc_id = n, tc_in = [], tc_eof = False, tc_out = new_conn, tc_closed = False\<rparr>"

definition pool_get :: "'s MetaServerHandler \<Rightarrow> 's dfs_world \<Rightarrow> (go_error + conn) \<times> 's dfs_world" where
  "pool_get MH w =
     (case ping_answered MH (dw_pool w) (dw_meta w) of
        (t, st) \<Rightarrow>
          (case Get_conn (Inr (fresh_conn (dw_time w))) t of
             (Inl e, cl, t') \<Rightarrow> (Inl e, w\<lparr>dw_meta := st, dw_pool := t'\<rparr>)
           | (Inr c, cl, t') \<Rightarrow>
               (Inr ((tc_out c)\<lparr>cout := []\<rparr>), w\<lparr>dw_meta := st, dw_pool := t', dw_left := tc_in c\<rparr>)))"

definition sys_net :: "'s MetaServerHandler \<Rightarrow> ChunkHandler \<Rightarrow> arrivals \<Rightarrow> 's dfs_world net" where
  "sys_net MH CH arr =
     \<lparr>net_get = (\<lambda>w. pool_get MH (serve CH arr False w)),
      net_meta = (\<lambda>inp w. case meta_Handle MH inp new_conn (dw_meta w) of
         (r, c, st') \<Rightarrow> ((dw_left w @ cout c, handler_failed r), w\<lparr>dw_meta := st'\<rparr>)),
      net_dial = (\<lambda>addr w. (if addr = '':5001'' then Inr new_conn else Inl ErrIO, w)),
      net_deadline = (\<lambda>addr w. None),
      net_chunk = (\<lambda>addr inp w0. let w = serve CH arr True w0 in
         case chunk_Handle CH inp new_conn (dw_chunks w) of
           (e, c, s') \<Rightarrow> ((cout c, e \<noteq> None), w\<lparr>dw_chunks := s'\<rparr>)),
      net_send = (\<lambda>addr inp w0. let w = serve CH arr False w0 in w\<lparr>dw_sent := dw_sent w @ [inp]\<rparr>)\<rparr>"

section \<open>The chunk server between two exchanges\<close>

lemma handle_sent_fields [simp]:
  "dw_meta (handle_sent CH i w) = dw_meta w" "dw_pool (handle_sent CH i w) = dw_pool w"
  "dw_left (handle_sent CH i w) = dw_left w" "dw_time (handle_sent CH i w) = dw_time w"
  by (simp_all add: handle_sent_def)

lemma handle_all_fields [simp]:
  "dw_meta (fold (handle_sent CH) is w) = dw_meta w" "dw_pool (fold (handle_sent CH) is w) = dw_pool w"
  "dw_left (fold (handle_sent CH) is w) = dw_left w" "dw_time (fold (handle_sent CH) is w) = dw_time w"
  by (induction "is" arbitrary: w) simp_all

lemma serve_fields [simp]:
  "dw_meta (serve CH arr now w) = dw_meta w" "dw_pool (serve CH arr now w) = dw_pool w"
  "dw_left (serve CH arr now w) = dw_left w"
  by (simp_all add: serve_def)

lemma handled_all: "serves_all is (length (dw_sent w)) \<Longrightarrow> dw_sent (fold (handle_sent CH) is w) = []"
proof (induction "is" arbitrary: w)
  case (Cons i "is")
  then have "length (dw_sent (handle_sent CH i w)) = length (dw_sent w) - 1" by (auto simp: handle_sent_def)
  with Cons show ?case by simp
qed simp

lemma serve_prompt: "prompt arr \<Longrightarrow> dw_sent (serve CH arr True w) = []"
  by (simp add: serve_def prompt_def handled_all)

lemma serve_nothing: "dw_sent w = [] \<Longrightarrow> dw_sent (serve CH arr now w) = [] \<and> dw_chunks (serve CH arr now w) = dw_chunks w"
proof -
  assume "dw_sent w = []"
  then have "fold (handle_sent CH) is w = w" for "is" by (induction "is") (simp_all add: handle_sent_def)
  with \<open>dw_sent w = []\<close> show ?thesis by (simp add: serve_def)
qed

text \<open>
  \<open>chunks_rep\<close>: the chunk server has the chunks \<open>\<sigma>\<close>, except that some of them are still on connections
  that it has not handled; there is no other chunk on them with one of their ids.
\<close>

definition waiting_puts :: "gob \<Rightarrow> request list \<Rightarrow> (string \<rightharpoonup> bytes) \<Rightarrow> bool" where
  "waiting_puts G rs \<sigma> \<longleftrightarrow> (\<forall>r \<in> set rs. \<exists>md b. r = Put md b \<and> req_ok G r \<and> HashContent b = cm_Id md \<and> \<sigma> (cm_Id md) = Some b)"

definition put_ids :: "request list \<Rightarrow> string set" where
  "put_ids rs = {cm_Id md | md b. Put md b \<in> set rs}"

definition chunks_rep :: "nat \<Rightarrow> gob \<Rightarrow> 's dfs_world \<Rightarrow> (string \<rightharpoonup> bytes) \<Rightarrow> bool" where
  "chunks_rep dp G w \<sigma> \<longleftrightarrow> (\<exists>\<sigma>0 rs. store_rep dp HashContent (dw_chunks w) \<sigma>0 \<and>
     dw_sent w = map (\<lambda>r. wire (req_msg G r)) rs \<and> waiting_puts G rs \<sigma> \<and> (\<forall>k. k \<notin> put_ids rs \<longrightarrow> \<sigma>0 k = \<sigma> k))"

lemma chunks_rep_cong:
  "chunks_rep dp G w \<sigma> \<Longrightarrow> dw_chunks w' = dw_chunks w \<Longrightarrow> dw_sent w' = dw_sent w \<Longrightarrow> chunks_rep dp G w' \<sigma>"
  by (simp add: chunks_rep_def)

lemma chunks_rep_served:
  assumes "chunks_rep dp G w \<sigma>" "dw_sent w = []"
  shows "store_rep dp HashContent (dw_chunks w) \<sigma>"
proof -
  from assms obtain \<sigma>0 where "store_rep dp HashContent (dw_chunks w) \<sigma>0" "\<forall>k. k \<notin> put_ids [] \<longrightarrow> \<sigma>0 k = \<sigma> k"
    by (auto simp: chunks_rep_def)
  moreover from this have "\<sigma>0 = \<sigma>" by (auto simp: put_ids_def)
  ultimately show ?thesis by simp
qed

lemma chunks_rep_none: "store_rep dp HashContent (dw_chunks w) \<sigma> \<Longrightarrow> dw_sent w = [] \<Longrightarrow> chunks_rep dp G w \<sigma>"
  unfolding chunks_rep_def by (rule exI [of _ \<sigma>], rule exI [of _ "[]"]) (simp add: waiting_puts_def)

lemma chunks_rep_handle:
  assumes H: "CH = NewChunkHandler (NewFileStorage DefaultPathTransform (int dp) HashContent) G" and G: "gob_ok G"
    and rep: "chunks_rep dp G w \<sigma>"
  shows "chunks_rep dp G (handle_sent CH i w) \<sigma>"
proof (cases "i < length (dw_sent w)")
  case False
  with rep show ?thesis by (simp add: handle_sent_def)
next
  case True
  from rep obtain \<sigma>0 rs where r: "store_rep dp HashContent (dw_chunks w) \<sigma>0" "dw_sent w = map (\<lambda>r. wire (req_msg G r)) rs"
    "waiting_puts G rs \<sigma>" "\<forall>k. k \<notin> put_ids rs \<longrightarrow> \<sigma>0 k = \<sigma> k" unfolding chunks_rep_def by blast
  from True r(2) have i: "i < length rs" by simp
  then have "rs ! i \<in> set rs" by simp
  with r(3) obtain md b where p: "rs ! i = Put md b" "req_ok G (Put md b)" "HashContent b = cm_Id md" "\<sigma> (cm_Id md) = Some b"
    unfolding waiting_puts_def by metis
  let ?rs = "take i rs @ drop (Suc i) rs"
  from chunk_Handle_implements [OF H G, of "[Put md b]" "dw_chunks w" \<sigma>0 new_conn, unfolded implements_def] p(2,3) r(1)
  have "store_rep dp HashContent (snd (snd (chunk_Handle CH (wire (req_msg G (Put md b))) new_conn (dw_chunks w)))) (\<sigma>0(cm_Id md \<mapsto> b))"
    by (auto simp del: req_payload.simps)
  then have "store_rep dp HashContent (dw_chunks (handle_sent CH i w)) (\<sigma>0(cm_Id md \<mapsto> b))"
    using True r(2) p(1) i by (simp add: handle_sent_def)
  moreover have "dw_sent (handle_sent CH i w) = map (\<lambda>r. wire (req_msg G r)) ?rs"
    using True r(2) by (simp add: handle_sent_def take_map drop_map)
  moreover have set: "set rs = insert (Put md b) (set ?rs)"
    using arg_cong [OF id_take_nth_drop [OF i], of set] p(1) by auto
  then have "waiting_puts G ?rs \<sigma>" using r(3) by (simp add: waiting_puts_def)
  moreover have "(\<sigma>0(cm_Id md \<mapsto> b)) k = \<sigma> k" if "k \<notin> put_ids ?rs" for k
  proof (cases "k = cm_Id md")
    case False
    with that set have "k \<notin> put_ids rs" by (auto simp: put_ids_def)
    with False r(4) show ?thesis by simp
  qed (simp add: p(4))
  ultimately show ?thesis unfolding chunks_rep_def by blast
qed

lemma chunks_rep_handle_all:
  assumes "CH = NewChunkHandler (NewFileStorage DefaultPathTransform (int dp) HashContent) G" "gob_ok G"
  shows "chunks_rep dp G w \<sigma> \<Longrightarrow> chunks_rep dp G (fold (handle_sent CH) is w) \<sigma>"
  by (induction "is" arbitrary: w) (simp_all add: chunks_rep_handle [OF assms])

lemma chunks_rep_serve:
  assumes "CH = NewChunkHandler (NewFileStorage DefaultPathTransform (int dp) HashContent) G" "gob_ok G" "chunks_rep dp G w \<sigma>"
  shows "chunks_rep dp G (serve CH arr now w) \<sigma>"
  by (rule chunks_rep_cong [OF chunks_rep_handle_all [OF assms, of "arr (dw_time w) now (length (dw_sent w))"]]) (simp_all add: serve_def)

lemma Encode_new_conn:
  assumes "length p \<le> max_payload"
  shows "\<exists>left c. Encode conn_Write (NewMessage t (Some p) (word_of_nat (length p))) new_conn = (None, left, c) \<and>
    cout c = wire (NewMessage t (Some p) (word_of_nat (length p)))"
  using Encode_bytes [OF new_conn_simps(2) assms, of t] by auto

section \<open>Requests to the metadata server\<close>

text \<open>An open pool whose connections have not been used.\<close>

definition conn_fresh :: "tcp_conn \<Rightarrow> bool" where
  "conn_fresh c \<longleftrightarrow> tc_in c = [] \<and> \<not> tc_eof c \<and> tc_out c = new_conn \<and> \<not> tc_closed c"

definition pool_fresh :: "TCPPool \<Rightarrow> bool" where
  "pool_fresh t \<longleftrightarrow> \<not> tp_isClosed t \<and> \<not> tp_chanClosed t \<and> list_all conn_fresh (tp_connections t)"

text \<open>Between \<open>w\<close> and \<open>w'\<close> nothing but the chunk server has gone on.\<close>

definition caught_up :: "ChunkHandler \<Rightarrow> 's dfs_world \<Rightarrow> 's dfs_world \<Rightarrow> bool" where
  "caught_up CH w w' \<longleftrightarrow> (\<exists>is. dw_chunks w' = dw_chunks (fold (handle_sent CH) is w) \<and>
     dw_sent w' = dw_sent (fold (handle_sent CH) is w))"

lemma chunks_rep_caught_up:
  assumes "CH = NewChunkHandler (NewFileStorage DefaultPathTransform (int dp) HashContent) G" "gob_ok G"
    and "chunks_rep dp G w \<sigma>" "caught_up CH w w'"
  shows "chunks_rep dp G w' \<sigma>"
  using assms(4) chunks_rep_cong [OF chunks_rep_handle_all [OF assms(1-3)]] by (auto simp: caught_up_def)

lemma caught_up_nothing: "caught_up CH w w' \<Longrightarrow> dw_sent w = [] \<Longrightarrow> dw_sent w' = [] \<and> dw_chunks w' = dw_chunks w"
proof -
  assume c: "caught_up CH w w'" and e: "dw_sent w = []"
  from e have "fold (handle_sent CH) is w = w" for "is" by (induction "is") (simp_all add: handle_sent_def)
  with c e show ?thesis by (auto simp: caught_up_def)
qed

lemma ping_wire: "wire ping_message = wire (NewMessage TypePing (Some (bytes_of_string ''PING'')) (word_of_nat (length (bytes_of_string ''PING''))))"
  by (simp add: ping_message_def ping_bytes(3))

text \<open>\<open>Get\<close> gives a connection that can be used, pooled and checked or new.\<close>

lemma pool_get_ok:
  assumes "pool_fresh (dw_pool w)"
  shows "\<exists>t. pool_get MH w = (Inr new_conn, w\<lparr>dw_pool := t, dw_left := []\<rparr>) \<and> pool_fresh t"
proof (cases "tp_connections (dw_pool w)")
  case Nil
  with assms show ?thesis
    by (intro exI [of _ "dw_pool w"])
      (simp add: pool_get_def ping_answered_def pool_fresh_def Get_conn_def Get_select_def createNewConnection_def fresh_conn_def new_conn_def)
next
  case (Cons conn cs)
  let ?P = "bytes_of_string ''PING''"
  from Cons assms have f: "conn_fresh conn" "list_all conn_fresh cs" "\<not> tp_isClosed (dw_pool w)" by (simp_all add: pool_fresh_def)
  from meta_ping_served [OF ping_bytes(1,2), of new_conn MH "dw_meta w"] obtain c where
    p: "meta_Handle MH (wire ping_message) new_conn (dw_meta w) = (Return None, c, dw_meta w)"
    "cout c = wire (NewMessage TypePingResponse (Some ?P) 4)" by (auto simp: ping_wire ping_bytes(3) new_conn_def)
  let ?c = "conn\<lparr>tc_in := tc_in conn @ cout c, tc_eof := tc_eof conn \<or> handler_failed (Return None)\<rparr>"
  have "\<not> tc_closed ?c" "tc_out ?c = new_conn" "tc_in ?c = wire (NewMessage TypePingResponse (Some ?P) 4)"
    using f(1) p(2) by (simp_all add: conn_fresh_def)
  from echo_passes [OF this] obtain c' where c': "performHealthCheck ?c = (True, c')" "tc_in c' = []" "croom (tc_out c') = None"
    by blast
  have "(tc_out c')\<lparr>cout := []\<rparr> = new_conn" using c'(3) by (cases "tc_out c'") (simp add: new_conn_def)
  with Cons f p(1) c' show ?thesis
    by (intro exI [of _ "(dw_pool w)\<lparr>tp_connections := cs\<rparr>"])
      (use assms in \<open>simp add: pool_get_def ping_answered_def pool_fresh_def Get_conn_def Get_select_def Let_def\<close>)
qed

lemma net_get_ok:
  assumes "pool_fresh (dw_pool w)"
  shows "\<exists>w'. net_get (sys_net MH CH arr) w = (Inr new_conn, w') \<and> dw_meta w' = dw_meta w \<and> caught_up CH w w' \<and>
    pool_fresh (dw_pool w') \<and> dw_left w' = []"
proof -
  have "pool_fresh (dw_pool (serve CH arr False w))" using assms by simp
  from pool_get_ok [OF this, of MH] obtain t where
    t: "pool_get MH (serve CH arr False w) = (Inr new_conn, (serve CH arr False w)\<lparr>dw_pool := t, dw_left := []\<rparr>)" "pool_fresh t" by blast
  have "caught_up CH w ((serve CH arr False w)\<lparr>dw_pool := t, dw_left := []\<rparr>)"
    unfolding caught_up_def by (rule exI [of _ "arr (dw_time w) False (length (dw_sent w))"]) (simp add: serve_def)
  with t show ?thesis by (simp add: sys_net_def)
qed

lemma caught_up_meta [simp]: "caught_up CH w (w'\<lparr>dw_meta := st\<rparr>) = caught_up CH w w'"
  by (simp add: caught_up_def)

lemma requestMetaServer_ok:
  assumes "length p \<le> max_payload" "length b \<le> max_payload" "pool_fresh (dw_pool w)"
    and "meta_Handle MH (wire (meta_response t p)) new_conn (dw_meta w) = (r, c, st')" "cout c = wire (meta_response t' b)"
  shows "\<exists>w'. requestMetaServer (sys_net MH CH arr) (NewMessage t (Some p) (word_of_nat (length p))) w = (Inr b, w') \<and>
    dw_meta w' = st' \<and> caught_up CH w w' \<and> pool_fresh (dw_pool w')"
proof -
  from net_get_ok [OF assms(3), of MH CH arr] obtain w1 where
    g: "net_get (sys_net MH CH arr) w = (Inr new_conn, w1)" "dw_meta w1 = dw_meta w" "caught_up CH w w1"
    "pool_fresh (dw_pool w1)" "dw_left w1 = []" by blast
  from Encode_new_conn [OF assms(1), of t] obtain left conn where
    e: "Encode conn_Write (NewMessage t (Some p) (word_of_nat (length p))) new_conn = (None, left, conn)"
    "cout conn = wire (meta_response t p)" by (auto simp: meta_response_def)
  have D: "Decode (cout c) = Inr (meta_response t' b, b)"
    using Decode_bytes [OF assms(2), of t' "[]"] assms(5) by (simp add: meta_response_def)
  have m: "net_meta (sys_net MH CH arr) (cout conn) w1 = ((cout c, handler_failed r), w1\<lparr>dw_meta := st'\<rparr>)"
    using e(2) g(2,5) assms(4) by (simp add: sys_net_def)
  have "requestMetaServer (sys_net MH CH arr) (NewMessage t (Some p) (word_of_nat (length p))) w = (Inr b, w1\<lparr>dw_meta := st'\<rparr>)"
    using g(1) e(1) m D assms(2) by (simp add: requestMetaServer_def meta_response_def)
  with g(3,4) show ?thesis by (intro exI [of _ "w1\<lparr>dw_meta := st'\<rparr>"]) simp
qed

lemma registerFileMetadata_ok:
  assumes "fs_inv Pe Pm mx (Suc k) (dw_meta w)" "meta_req_ok Pm (fs_storable Pe Pm mx) (AddFile m)" "pool_fresh (dw_pool w)"
  shows "\<exists>w'. registerFileMetadata (sys_net (NewMetaServerHandler (file_metastore Pe Pm) Pm) CH arr) Pm m w = (Inr (assign_addr m), w') \<and>
    fst (dw_meta w') = (fst (dw_meta w))(fm_Name m \<mapsto> assign_addr m) \<and> fs_inv Pe Pm mx k (dw_meta w') \<and>
    caught_up CH w w' \<and> pool_fresh (dw_pool w')"
proof -
  let ?H = "NewMetaServerHandler (file_metastore Pe Pm) Pm"
  from assms(2) have m: "marshals Pm m" "fs_storable Pe Pm mx (assign_addr m)" "length (meta_enc Pm (Some m)) \<le> max_payload"
    by (simp_all add: meta_req_ok_def)
  from m(1) have M: "Marshal Pm m = Inr (meta_enc Pm (Some m))"
    by (auto simp: marshals_def meta_enc_def marshal_ptr_def split: sum.splits)
  from m(2) have M': "Marshal Pm (assign_addr m) = Inr (meta_enc Pm (Some (assign_addr m)))"
    "length (meta_enc Pm (Some (assign_addr m))) \<le> max_payload"
    by (auto simp: fs_storable_def marshals_def meta_enc_def marshal_ptr_def split: sum.splits)
  have U: "Unmarshal Pm (meta_enc Pm (Some (assign_addr m))) = Inr (assign_addr m)"
    using proto_okD [OF _ M'(1)] assms(1) by (simp add: fs_inv_def)
  from fst_meta.refines [of Pm Pe mx "[AddFile m]" k "dw_meta w" new_conn] assms(1,2) obtain c st' where
    h: "meta_Handle ?H (wire (meta_req_msg Pm (AddFile m))) new_conn (dw_meta w) = (Return None, c, st')"
    "cout c = wire (meta_response TypeReadFileResponse (meta_enc Pm (Some (assign_addr m))))"
    "fst st' = (fst (dw_meta w))(fm_Name m \<mapsto> assign_addr m)" "fs_inv Pe Pm mx k st'"
    by (auto simp: Let_def simp del: fun_upd_apply)
  have "meta_Handle ?H (wire (meta_response TypeAddFile (meta_enc Pm (Some m)))) new_conn (dw_meta w) = (Return None, c, st')"
    using h(1) by (simp add: meta_req_msg_def meta_response_def)
  from requestMetaServer_ok [OF m(3) M'(2) assms(3) this h(2), of CH arr] obtain w' where
    w': "requestMetaServer (sys_net ?H CH arr) (NewMessage TypeAddFile (Some (meta_enc Pm (Some m)))
       (word_of_nat (length (meta_enc Pm (Some m))))) w = (Inr (meta_enc Pm (Some (assign_addr m))), w')"
    "dw_meta w' = st'" "caught_up CH w w'" "pool_fresh (dw_pool w')" by blast
  with M U h(3,4) show ?thesis by (intro exI [of _ w']) (simp add: registerFileMetadata_def del: fun_upd_apply)
qed

lemma fetchFileMetadata_ok:
  assumes "bytes_of_string n \<noteq> []" "length n \<le> max_payload" "proto_ok Pm" "fst (dw_meta w) n = None \<Longrightarrow> proto_empty_ok Pm"
    and "\<forall>m. fst (dw_meta w) n = Some m \<longrightarrow> marshals Pm m" "pool_fresh (dw_pool w)"
  shows "\<exists>w'. fetchFileMetadata (sys_net (NewMetaServerHandler (file_metastore Pe Pm) Pm) CH arr) Pm n w =
      (Inr (case fst (dw_meta w) n of None \<Rightarrow> empty_meta | Some m \<Rightarrow> m), w') \<and>
    dw_meta w' = dw_meta w \<and> caught_up CH w w' \<and> pool_fresh (dw_pool w')"
proof -
  let ?H = "NewMetaServerHandler (file_metastore Pe Pm) Pm" and ?m = "fst (dw_meta w) n"
  have l: "length (bytes_of_string n) \<le> max_payload" using assms(2) by simp
  from Handle_read [OF assms(1) l new_conn_simps(2) assms(5), of Pe] obtain c where
    c: "meta_Handle ?H (wire (meta_req_msg Pm (ReadFileMeta n))) new_conn (dw_meta w) = (Return None, c, dw_meta w)"
    "cout c = wire (meta_response TypeReadFileResponse (meta_enc Pm ?m))" by auto
  have b: "length (meta_enc Pm ?m) \<le> max_payload \<and>
      Unmarshal Pm (meta_enc Pm ?m) = Inr (case ?m of None \<Rightarrow> empty_meta | Some m \<Rightarrow> m)"
    using assms(3-5) by (cases ?m)
      (auto simp: meta_enc_def marshal_ptr_def marshals_def proto_empty_ok_def dest: proto_okD split: sum.splits)
  have "meta_Handle ?H (wire (meta_response TypeReadFile (bytes_of_string n))) new_conn (dw_meta w) = (Return None, c, dw_meta w)"
    using c(1) by (simp add: meta_req_msg_def meta_response_def)
  from requestMetaServer_ok [OF l _ assms(6) this c(2), of CH arr] b obtain w' where
    w': "requestMetaServer (sys_net ?H CH arr) (NewMessage TypeReadFile (Some (bytes_of_string n))
       (word_of_nat (length (bytes_of_string n)))) w = (Inr (meta_enc Pm ?m), w')"
    "dw_meta w' = dw_meta w" "caught_up CH w w'" "pool_fresh (dw_pool w')" by blast
  with b show ?thesis by (intro exI [of _ w']) (simp add: fetchFileMetadata_def Let_def)
qed

section \<open>Sending a chunk\<close>

text \<open>The chunk is on its way, whenever it will be handled.\<close>

lemma chunks_rep_send:
  assumes rep: "chunks_rep dp G w \<sigma>" and ok: "req_ok G (Put md b)" "HashContent b = cm_Id md"
    and apart: "\<sigma> (cm_Id md) = None \<or> \<sigma> (cm_Id md) = Some b"
  shows "chunks_rep dp G (w\<lparr>dw_sent := dw_sent w @ [wire (req_msg G (Put md b))]\<rparr>) (\<sigma>(cm_Id md \<mapsto> b))"
proof -
  from rep obtain \<sigma>0 rs where r: "store_rep dp HashContent (dw_chunks w) \<sigma>0" "dw_sent w = map (\<lambda>r. wire (req_msg G r)) rs"
    "waiting_puts G rs \<sigma>" "\<forall>k. k \<notin> put_ids rs \<longrightarrow> \<sigma>0 k = \<sigma> k" unfolding chunks_rep_def by blast
  have "waiting_puts G (rs @ [Put md b]) (\<sigma>(cm_Id md \<mapsto> b))" using r(3) ok apart by (fastforce simp: waiting_puts_def)
  moreover have "\<sigma>0 k = (\<sigma>(cm_Id md \<mapsto> b)) k" if "k \<notin> put_ids (rs @ [Put md b])" for k
    using that r(4) by (auto simp: put_ids_def)
  ultimately show ?thesis unfolding chunks_rep_def
    using r(1,2) by (intro exI [of _ \<sigma>0] exI [of _ "rs @ [Put md b]"]) simp
qed

lemma sendChunk_ok:
  assumes H: "CH = NewChunkHandler (NewFileStorage DefaultPathTransform (int dp) HashContent) G" and G: "gob_ok G"
    and ok: "req_ok G (Put md content)" "HashContent content = cm_Id md" "\<sigma> (cm_Id md) = None \<or> \<sigma> (cm_Id md) = Some content"
    and rep: "chunks_rep dp G w \<sigma>"
    and ch: "ck_Data ch = req_payload G (Put md content)" "ck_ChunkInfo ch = Some ci" "ci_Addr ci = '':5001''"
      "MaxMetadataSizeInBytes + ci_Size ci + word_of_nat (ck_MetadataLen ch) = word_of_nat (length (ck_Data ch))"
  shows "\<exists>ch' w'. sendChunk (sys_net MH CH arr) (ch, w) = (Inr (ck_Id ch), (ch', w')) \<and>
    dw_meta w' = dw_meta w \<and> dw_pool w' = dw_pool w \<and> chunks_rep dp G w' (\<sigma>(cm_Id md \<mapsto> content))"
proof -
  let ?r = "Put md content" and ?w = "serve CH arr False w"
  from ok(1) have l: "length (ck_Data ch) \<le> max_payload" using ch(1) by (simp add: req_ok_def)
  from Encode_new_conn [OF this, of TypeWrite] obtain left conn where
    e: "Encode conn_Write (NewMessage TypeWrite (Some (ck_Data ch)) (word_of_nat (length (ck_Data ch)))) new_conn = (None, left, conn)"
    "cout conn = wire (req_msg G ?r)" using ch(1) by (auto simp: req_msg_def)
  let ?w' = "?w\<lparr>dw_sent := dw_sent ?w @ [wire (req_msg G ?r)]\<rparr>"
  have "chunks_rep dp G ?w' (\<sigma>(cm_Id md \<mapsto> content))" by (rule chunks_rep_send [OF chunks_rep_serve [OF H G rep] ok])
  moreover have "net_send (sys_net MH CH arr) (ci_Addr ci) (cout conn) w = ?w'" using e(2) by (simp add: sys_net_def Let_def)
  then have "\<exists>ch'. sendChunk (sys_net MH CH arr) (ch, w) = (Inr (ck_Id ch), (ch', ?w'))"
    using e(1) ch by (simp add: sendChunk_def getChunkServerConn_def sys_net_def Let_def)
  moreover have "dw_meta ?w' = dw_meta w" "dw_pool ?w' = dw_pool w" by simp_all
  ultimately show ?thesis by blast
qed

section \<open>Reading a chunk\<close>

lemma readChunk_ok:
  assumes H: "CH = NewChunkHandler (NewFileStorage DefaultPathTransform (int dp) HashContent) G" and G: "gob_ok G"
    and ok: "req_ok G (Get cid)" and rep: "chunks_rep dp G w \<sigma>" "\<sigma> cid = Some b" "b \<noteq> []" and arr: "prompt arr"
    and ci: "ci_Addr ci = '':5001''" "ci_Size ci = word_of_nat (length b)" "ci_Offset ci = int off"
    and d: "fs_node d q = Some (File x y)" "room d q = None"
  shows "\<exists>w'. read_job (sys_net MH CH arr) q cid ci (d, w) =
      (Inr (''Read chunk '' @ cid), (fs_put q (File (write_at off b x) y) d, w')) \<and>
    dw_meta w' = dw_meta w \<and> dw_pool w' = dw_pool w \<and> chunks_rep dp G w' \<sigma>"
proof -
  let ?r = "Get cid" and ?id = "bytes_of_string cid" and ?w = "serve CH arr True w"
  from ok have l: "length ?id \<le> max_payload" by (simp add: req_ok_def)
  have rep': "store_rep dp HashContent (dw_chunks ?w) \<sigma>"
    by (rule chunks_rep_served [OF chunks_rep_serve [OF H G rep(1)] serve_prompt [OF arr]])
  with rep(2) have lb: "length b \<le> max_payload" by (auto simp: store_rep_def)
  from Encode_new_conn [OF l, of TypeRead] obtain left conn where
    e: "Encode conn_Write (NewMessage TypeRead (Some ?id) (word_of_nat (length ?id))) new_conn = (None, left, conn)"
    "cout conn = wire (req_msg G ?r)" by (auto simp: req_msg_def)
  from chunk_Handle_implements [OF H G, of "[?r]" "dw_chunks ?w" \<sigma> new_conn, unfolded implements_def] ok rep' rep(2,3) obtain c s' where
    c: "chunk_Handle CH (wire (req_msg G ?r)) new_conn (dw_chunks ?w) = (None, c, s')" "store_rep dp HashContent s' \<sigma>"
      "cout c = wire (NewMessage TypeReadResponse (Some b) (word_of_nat (length b)))" by auto
  let ?w' = "?w\<lparr>dw_chunks := s'\<rparr>"
  have n: "net_chunk (sys_net MH CH arr) (ci_Addr ci) (cout conn) w = ((cout c, False), ?w')"
    using e(2) c(1) by (simp add: sys_net_def Let_def)
  have D: "Decode (cout c) = Inr (NewMessage TypeReadResponse (Some b) (word_of_nat (length b)), b)"
    using Decode_bytes [OF lb, of TypeReadResponse "[]"] c(3) by simp
  have s: "unat (ci_Size ci) = length b" using ci(2) lb by simp
  have "fs_WriteAt q off b d = (length b, None, fs_put q (File (write_at off b x) y) d)"
    using fs_WriteAt_no_room_limit [of d q x y, OF d(2,1)] rep(3) by simp
  then have "\<exists>a. CopyN WriterAtAdapter_Write (length b) b (NewWriterAtAdapter q (int off), d) =
      (None, [], (a, fs_put q (File (write_at off b x) y) d))"
    using rep(3) by (simp add: CopyN_def WriterAtAdapter_Write_def os_WriteAt_def NewWriterAtAdapter_def)
  moreover have "getChunkServerConn (sys_net MH CH arr) (ci_Addr ci) w = (Inr new_conn, w)"
    "net_deadline (sys_net MH CH arr) (ci_Addr ci) w = None"
    using ci(1) by (simp_all add: getChunkServerConn_def sys_net_def)
  ultimately have "read_job (sys_net MH CH arr) q cid ci (d, w) =
      (Inr (''Read chunk '' @ cid), (fs_put q (File (write_at off b x) y) d, ?w'))"
    using e(1) n D s ci(3) lb by (auto simp: read_job_def readChunk_client_def Let_def)
  moreover have "chunks_rep dp G ?w' \<sigma>" using c(2) serve_prompt [OF arr] by (intro chunks_rep_none) simp_all
  ultimately show ?thesis by (intro exI [of _ ?w']) simp
qed

section \<open>The contract of the client\<close>

text \<open>The network of a metadata server over the file store and a chunk server with path depth \<open>dp\<close>.\<close>

definition dfs_net :: "WAL_Entry proto \<Rightarrow> FileMetadata proto \<Rightarrow> nat \<Rightarrow> gob \<Rightarrow> arrivals \<Rightarrow> FileStore dfs_world net" where
  "dfs_net Pe Pm dp G arr = sys_net (NewMetaServerHandler (file_metastore Pe Pm) Pm) (NewChunkServer (int dp) G) arr"

lemma chunk_server_eq: "NewChunkServer (int dp) G = NewChunkHandler (NewFileStorage DefaultPathTransform (int dp) HashContent) G"
  by (simp add: NewChunkServer_def)

text \<open>What the stores of both servers stand for.\<close>

definition dfs_rep ::
  "WAL_Entry proto \<Rightarrow> FileMetadata proto \<Rightarrow> u64 \<Rightarrow> nat \<Rightarrow> gob \<Rightarrow> nat \<Rightarrow> FileStore dfs_world \<Rightarrow> files \<Rightarrow> (string \<rightharpoonup> bytes) \<Rightarrow> bool" where
  "dfs_rep Pe Pm mx dp G k w \<mu> \<sigma> \<longleftrightarrow>
     gob_ok G \<and> fs_inv Pe Pm mx k (dw_meta w) \<and> fst (dw_meta w) = \<mu> \<and> pool_fresh (dw_pool w) \<and> chunks_rep dp G w \<sigma>"

lemma dfs_rep_register:
  assumes "dfs_rep Pe Pm mx dp G (Suc k) w \<mu> \<sigma>" "meta_req_ok Pm (fs_storable Pe Pm mx) (AddFile m)"
  shows "\<exists>w'. registerFileMetadata (dfs_net Pe Pm dp G arr) Pm m w = (Inr (assign_addr m), w') \<and>
    dfs_rep Pe Pm mx dp G k w' (\<mu>(fm_Name m \<mapsto> assign_addr m)) \<sigma>"
proof -
  from assms(1) have r: "gob_ok G" "fs_inv Pe Pm mx (Suc k) (dw_meta w)" "fst (dw_meta w) = \<mu>" "pool_fresh (dw_pool w)"
    "chunks_rep dp G w \<sigma>" by (simp_all add: dfs_rep_def)
  from registerFileMetadata_ok [OF r(2) assms(2) r(4), of "NewChunkServer (int dp) G" arr] obtain w' where
    w': "registerFileMetadata (dfs_net Pe Pm dp G arr) Pm m w = (Inr (assign_addr m), w')"
    "fst (dw_meta w') = \<mu>(fm_Name m \<mapsto> assign_addr m)" "fs_inv Pe Pm mx k (dw_meta w')"
    "caught_up (NewChunkServer (int dp) G) w w'" "pool_fresh (dw_pool w')" unfolding dfs_net_def r(3) by blast
  with r(1) chunks_rep_caught_up [OF chunk_server_eq r(1,5) w'(4)] show ?thesis by (auto simp: dfs_rep_def)
qed

lemma dfs_rep_put:
  assumes "dfs_rep Pe Pm mx dp G k w \<mu> \<sigma>" "req_ok G (Put md b)" "HashContent b = cm_Id md"
    and "\<sigma> (cm_Id md) = None \<or> \<sigma> (cm_Id md) = Some b"
    and "ck_Data ch = req_payload G (Put md b)" "ck_ChunkInfo ch = Some ci" "ci_Addr ci = '':5001''"
    and "MaxMetadataSizeInBytes + ci_Size ci + word_of_nat (ck_MetadataLen ch) = word_of_nat (length (ck_Data ch))"
  shows "\<exists>ch' w'. sendChunk (dfs_net Pe Pm dp G arr) (ch, w) = (Inr (ck_Id ch), (ch', w')) \<and>
    dfs_rep Pe Pm mx dp G k w' \<mu> (\<sigma>(cm_Id md \<mapsto> b))"
proof -
  from assms(1) have r: "gob_ok G" "fs_inv Pe Pm mx k (dw_meta w)" "fst (dw_meta w) = \<mu>" "pool_fresh (dw_pool w)"
    "chunks_rep dp G w \<sigma>" by (simp_all add: dfs_rep_def)
  from sendChunk_ok [OF chunk_server_eq r(1) assms(2-4) r(5) assms(5-8)] obtain ch' w' where
    "sendChunk (dfs_net Pe Pm dp G arr) (ch, w) = (Inr (ck_Id ch), (ch', w'))"
    "dw_meta w' = dw_meta w" "dw_pool w' = dw_pool w" "chunks_rep dp G w' (\<sigma>(cm_Id md \<mapsto> b))" unfolding dfs_net_def by blast
  with r show ?thesis by (intro exI [of _ ch'] exI [of _ w']) (simp add: dfs_rep_def del: fun_upd_apply)
qed

lemma dfs_rep_fetch:
  assumes "dfs_rep Pe Pm mx dp G k w \<mu> \<sigma>" "\<mu> n = Some m" "n \<noteq> []" "length n \<le> max_payload"
  shows "\<exists>w'. fetchFileMetadata (dfs_net Pe Pm dp G arr) Pm n w = (Inr m, w') \<and> dfs_rep Pe Pm mx dp G k w' \<mu> \<sigma>"
proof -
  from assms(1) have r: "gob_ok G" "fs_inv Pe Pm mx k (dw_meta w)" "fst (dw_meta w) = \<mu>" "pool_fresh (dw_pool w)"
    "chunks_rep dp G w \<sigma>" by (simp_all add: dfs_rep_def)
  then have "\<forall>m. fst (dw_meta w) n = Some m \<longrightarrow> marshals Pm m" "proto_ok Pm" by (auto simp: fs_inv_def fs_storable_def)
  moreover have "bytes_of_string n \<noteq> []" using assms(3) by (simp add: bytes_of_string_def)
  ultimately obtain w' where
    w': "fetchFileMetadata (dfs_net Pe Pm dp G arr) Pm n w = (Inr m, w')" "dw_meta w' = dw_meta w"
    "caught_up (NewChunkServer (int dp) G) w w'" "pool_fresh (dw_pool w')"
    using fetchFileMetadata_ok [of n Pm w Pe "NewChunkServer (int dp) G" arr] assms(2,4) r(3,4) by (auto simp: dfs_net_def)
  with r chunks_rep_caught_up [OF chunk_server_eq r(1,5) w'(3)] show ?thesis
    by (intro exI [of _ w']) (simp add: dfs_rep_def)
qed

lemma dfs_rep_get:
  assumes "dfs_rep Pe Pm mx dp G k w \<mu> \<sigma>" "prompt arr" "req_ok G (Get cid)" "\<sigma> cid = Some b" "b \<noteq> []"
    and "ci_Addr ci = '':5001''" "ci_Size ci = word_of_nat (length b)" "ci_Offset ci = int off"
    and "fs_node d q = Some (File x y)" "room d q = None"
  shows "\<exists>w'. read_job (dfs_net Pe Pm dp G arr) q cid ci (d, w) =
      (Inr (''Read chunk '' @ cid), (fs_put q (File (write_at off b x) y) d, w')) \<and> dfs_rep Pe Pm mx dp G k w' \<mu> \<sigma>"
proof -
  from assms(1) have r: "gob_ok G" "fs_inv Pe Pm mx k (dw_meta w)" "fst (dw_meta w) = \<mu>" "pool_fresh (dw_pool w)"
    "chunks_rep dp G w \<sigma>" by (simp_all add: dfs_rep_def)
  from readChunk_ok [OF chunk_server_eq r(1) assms(3) r(5) assms(4,5,2,6-10)] obtain w' where
    "read_job (dfs_net Pe Pm dp G arr) q cid ci (d, w) =
      (Inr (''Read chunk '' @ cid), (fs_put q (File (write_at off b x) y) d, w'))"
    "dw_meta w' = dw_meta w" "dw_pool w' = dw_pool w" "chunks_rep dp G w' \<sigma>" unfolding dfs_net_def by blast
  with r show ?thesis by (intro exI [of _ w']) (simp add: dfs_rep_def)
qed

text \<open>Files can be sent whenever the chunk server handles them; to read them it has to be prompt.\<close>

interpretation dfs_send: file_sender "dfs_net Pe Pm dp G arr" Pm G "fs_storable Pe Pm mx" "dfs_rep Pe Pm mx dp G"
  by unfold_locales (fact dfs_rep_register, fact dfs_rep_put)

interpretation dfs: file_service "dfs_net Pe Pm dp G arr" Pm G "fs_storable Pe Pm mx"
  "\<lambda>k w \<mu> \<sigma>. prompt arr \<and> dfs_rep Pe Pm mx dp G k w \<mu> \<sigma>"
proof (unfold_locales, goal_cases)
  case (1 k w \<mu> \<sigma> m)
  then show ?case using dfs_rep_register by blast
next
  case (2 k w \<mu> \<sigma> md b ch ci)
  then show ?case using dfs_rep_put by blast
next
  case (3 k w \<mu> \<sigma> n m)
  then show ?case using dfs_rep_fetch by blast
next
  case (4 k w \<mu> \<sigma> cid b ci off d q x y)
  then show ?case using dfs_rep_get [of Pe Pm mx dp G k w \<mu> \<sigma> arr cid b ci off d q x y] by blast
qed

end
