(* ===== verification/Client_Ready.thy ===== *)
theory Client_Ready
  imports Client_Jobs
begin

text \<open>
  When \<open>NewClient\<close> returns, and that the client it returns is ready for use.
\<close>

lemma client_pool_config:
  "pool_config (client_pool_options n r d t) =
     \<lparr>minWorkers = n sdiv 2, maxWorkers = n, maxRetries = r, retryDelay = d, bufferSize = n, shutdownTimeout = t\<rparr>"
  by (simp add: pool_config_def client_pool_options_def defaultPoolConfig_def WithMinWorkers_def WithMaxWorkers_def
      WithBufferSize_def WithRetryDelay_def WithMaxRetries_def WithShutdownTimeout_def)

text \<open>A worker pool as \<open>NewClient\<close> makes it: half of its workers have been started.\<close>

definition pool_ready :: "int \<Rightarrow> int \<Rightarrow> bool \<Rightarrow> 'o pool \<Rightarrow> bool" where
  "pool_ready workers retries ctxDone p \<longleftrightarrow> \<not> rp_isClosed p \<and> rp_ctxDone p = ctxDone \<and>
     size (rp_workers p) = nat (workers sdiv 2) \<and> bufferSize (rp_conf p) = workers \<and> maxRetries (rp_conf p) = retries"

lemma NewRetriableWorkerPool_client:
  "if n < 0 then NewRetriableWorkerPool ctxDone (client_pool_options n r d t) = (Inl Panic :: go_error + 'o pool)
   else \<exists>p :: 'o pool. NewRetriableWorkerPool ctxDone (client_pool_options n r d t) = Inr p \<and> pool_ready n r ctxDone p"
  by (simp add: NewRetriableWorkerPool_def client_pool_config Let_def start_pool_def pool_ready_def addWorker_iter(4))

text \<open>What the options make of the default configuration.\<close>

definition configured_client :: "gob \<Rightarrow> ClientOption list \<Rightarrow> Client" where
  "configured_client G opts = fold (\<lambda>opt c. opt c) opts (defaultClient G)"

definition client_dials :: "Client \<Rightarrow> (nat \<Rightarrow> 'a list) \<Rightarrow> 'a list" where
  "client_dials c ds = ds (unat (tr_connections (cc_transportConfig (cl_config c))))"

definition workers_ok :: "Client \<Rightarrow> bool" where
  "workers_ok c \<longleftrightarrow> 0 \<le> rc_workers (cc_readConfig (cl_config c)) \<and> 0 \<le> wr_workers (cc_writeConfig (cl_config c))"

definition client_ready :: "Client \<Rightarrow> bool \<Rightarrow> tcp_conn list \<Rightarrow> Client \<Rightarrow> bool" where
  "client_ready c0 ctxDone conns c \<longleftrightarrow> cl_config c = cl_config c0 \<and> cl_hasher c = cl_hasher c0 \<and> cl_encoder c = cl_encoder c0 \<and>
     (case cl_connPool c of None \<Rightarrow> False | Some t \<Rightarrow> tp_connections t = conns \<and> \<not> tp_isClosed t \<and> \<not> tp_chanClosed t) \<and>
     (case cl_readWorkerPool c of None \<Rightarrow> False
      | Some p \<Rightarrow> pool_ready (rc_workers (cc_readConfig (cl_config c0))) (rc_maxRetries (cc_readConfig (cl_config c0))) ctxDone p) \<and>
     (case cl_writeWorkerPool c of None \<Rightarrow> False
      | Some p \<Rightarrow> pool_ready (wr_workers (cc_writeConfig (cl_config c0))) (wr_maxRetries (cc_writeConfig (cl_config c0))) ctxDone p)"

lemma NewClient_iff:
  "(NewClient G ctxDone opts ds = Blocks \<longleftrightarrow> 5 < length (oks (client_dials (configured_client G opts) ds))) \<and>
   ((\<exists>c. NewClient G ctxDone opts ds = Returns (Inr c) \<and>
        client_ready (configured_client G opts) ctxDone (oks (client_dials (configured_client G opts) ds)) c) \<longleftrightarrow>
      length (oks (client_dials (configured_client G opts) ds)) \<le> 5 \<and>
      \<not> (\<exists>x. x \<in> set (client_dials (configured_client G opts) ds) \<and> isl x) \<and> workers_ok (configured_client G opts)) \<and>
   ((\<exists>e. NewClient G ctxDone opts ds = Returns (Inl e)) \<longleftrightarrow>
      length (oks (client_dials (configured_client G opts) ds)) \<le> 5 \<and>
      \<not> (\<not> (\<exists>x. x \<in> set (client_dials (configured_client G opts) ds) \<and> isl x) \<and> workers_ok (configured_client G opts)))"
proof -
  define c where "c = configured_client G opts"
  define r where "r = client_dials c ds"
  note folds = c_def [symmetric] r_def [symmetric]
  let ?rc = "cc_readConfig (cl_config c)" and ?wc = "cc_writeConfig (cl_config c)" and ?tc = "cc_transportConfig (cl_config c)"
  have c_eq: "fold (\<lambda>opt c. opt c) opts (defaultClient G) = c" by (simp add: c_def configured_client_def)
  have r_eq: "ds (unat (tr_connections ?tc)) = r" by (simp add: r_def client_dials_def)
  let ?n1 = "NewRetriableWorkerPool ctxDone (client_pool_options (rc_workers ?rc) (rc_maxRetries ?rc) (rc_retryDelay ?rc) (rc_shutdownTimeout ?rc)) :: go_error + string pool"
  let ?n2 = "NewRetriableWorkerPool ctxDone (client_pool_options (wr_workers ?wc) (wr_maxRetries ?wc) (wr_retryDelay ?wc) (wr_shutdownTimeout ?wc)) :: go_error + string pool"
  consider "5 < length (oks r)" | "length (oks r) \<le> 5" "\<exists>x. x \<in> set r \<and> isl x" | "length (oks r) \<le> 5" "\<not> (\<exists>x. x \<in> set r \<and> isl x)"
    using not_less by blast
  then show ?thesis
  proof cases
    case 3
    obtain t where t: "NewTCPPool '':5002'' [WithDialTimeout (tr_dialTimeout ?tc), WithMaxConn (tr_connections ?tc),
        WithPoolShutdownTimeout (tr_shutdownTimeout ?tc)] ds = Returns (Inr t, [])" "tp_connections t = oks r" "\<not> tp_isClosed t" "\<not> tp_chanClosed t"
      using 3 by (auto simp: NewTCPPool_client Let_def defaultTCPPoolConfig_def r_eq)
    note n1 = NewRetriableWorkerPool_client [of "rc_workers ?rc" ctxDone "rc_maxRetries ?rc" "rc_retryDelay ?rc" "rc_shutdownTimeout ?rc", where 'o = string]
    note n2 = NewRetriableWorkerPool_client [of "wr_workers ?wc" ctxDone "wr_maxRetries ?wc" "wr_retryDelay ?wc" "wr_shutdownTimeout ?wc", where 'o = string]
    show ?thesis
    proof (cases "rc_workers ?rc < 0 \<or> wr_workers ?wc < 0")
      case True
      then have "NewClient G ctxDone opts ds = Returns (Inl Panic)"
        using n1 n2 t by (auto simp: NewClient_def Let_def c_eq split: if_splits)
      with 3 True show ?thesis by (auto simp: workers_ok_def folds)
    next
      case False
      with n1 n2 obtain p1 p2 where p: "?n1 = Inr p1" "pool_ready (rc_workers ?rc) (rc_maxRetries ?rc) ctxDone p1"
        "?n2 = Inr p2" "pool_ready (wr_workers ?wc) (wr_maxRetries ?wc) ctxDone p2" by auto
      then have "NewClient G ctxDone opts ds =
          Returns (Inr (c\<lparr>cl_connPool := Some t, cl_readWorkerPool := Some p1, cl_writeWorkerPool := Some p2\<rparr>))"
        using t by (simp add: NewClient_def Let_def c_eq)
      with 3 False p t show ?thesis by (auto simp: client_ready_def workers_ok_def folds)
    qed
  qed (auto simp: NewClient_def Let_def NewTCPPool_client c_eq r_eq folds)
qed

text \<open>
  C19: \<open>NewClient\<close> never returns if more than five dials to the metadata server succeed. Otherwise it
  returns a client exactly if no dial failed and neither number of workers is negative (it
  returns an error in the first case and panics in the second), and that client has the configuration
  of the options, all dialled connections in its pool, which is open, and two open worker pools.
\<close>

theorem NewClient_returns:
  "(NewClient G ctxDone opts ds = Blocks \<longleftrightarrow> 5 < length (oks (client_dials (configured_client G opts) ds))) \<and>
   ((\<exists>c. NewClient G ctxDone opts ds = Returns (Inr c) \<and>
        client_ready (configured_client G opts) ctxDone (oks (client_dials (configured_client G opts) ds)) c) \<longleftrightarrow>
      length (oks (client_dials (configured_client G opts) ds)) \<le> 5 \<and>
      \<not> (\<exists>x. x \<in> set (client_dials (configured_client G opts) ds) \<and> isl x) \<and> workers_ok (configured_client G opts)) \<and>
   ((\<exists>e. NewClient G ctxDone opts ds = Returns (Inl e)) \<longleftrightarrow>
      length (oks (client_dials (configured_client G opts) ds)) \<le> 5 \<and>
      \<not> (\<not> (\<exists>x. x \<in> set (client_dials (configured_client G opts) ds) \<and> isl x) \<and> workers_ok (configured_client G opts)))"
  by (rule NewClient_iff)

end
