(* ===== verification/Client_Properties.thy ===== *)
theory Client_Properties
  imports Client_System Client_Ready
begin

text \<open>
  The properties of the client over the network of both servers: a file that is sent is stored, and
  the whole system is a map from file names to contents.
\<close>

section \<open>Properties of files sent and read\<close>

text \<open>
  The servers before the file \<open>f\<close> is registered under \<open>name\<close>: the metadata server has room in its log,
  the record of the file fits a segment of it (\<open>meta_req_ok\<close> with \<open>fs_storable\<close>; with the default of 400
  bytes this is a file of about six chunks), the client's pool is open, and no other content is stored
  under the id of a chunk of the file.
\<close>

definition servers_ready ::
  "WAL_Entry proto \<Rightarrow> FileMetadata proto \<Rightarrow> u64 \<Rightarrow> nat \<Rightarrow> gob \<Rightarrow> string \<Rightarrow> bytes \<Rightarrow> (string \<rightharpoonup> bytes) \<Rightarrow> FileStore dfs_world \<Rightarrow> bool" where
  "servers_ready Pe Pm mx dp G name f \<sigma> w \<longleftrightarrow> gob_small G \<and> fs_inv Pe Pm mx 1 (dw_meta w) \<and>
     meta_req_ok Pm (fs_storable Pe Pm mx) (AddFile (file_record G name f)) \<and> pool_fresh (dw_pool w) \<and>
     chunks_rep dp G w \<sigma> \<and> stored_apart f \<sigma>"

lemma servers_ready_rep:
  assumes "servers_ready Pe Pm mx dp G name f \<sigma> w"
  shows "gob_small G" "gob_ok G" "meta_req_ok Pm (fs_storable Pe Pm mx) (AddFile (file_record G name f))"
    "dfs_rep Pe Pm mx dp G (Suc 0) w (fst (dw_meta w)) \<sigma>" "stored_apart f \<sigma>"
  using assms by (simp_all add: servers_ready_def dfs_rep_def gob_small_def)

lemma send_then_read:
  assumes "client_ok G c" "sendable_file p d f" "sched_ok sc (chunkCount ChunkSize (length f))"
    and "servers_ready Pe Pm mx dp G (last (split_on CHR ''/'' p)) f \<sigma> w0" "prompt arr"
    and "last (split_on CHR ''/'' p) \<noteq> []" "length (last (split_on CHR ''/'' p)) \<le> max_payload"
    and "sched_ok sc' (chunkCount ChunkSize (length f))" "writable q d'" "range_ok order"
  shows "\<exists>w d'' w'. SendFile (dfs_net Pe Pm dp G arr) Pm c sc p d w0 = (Ret None, w) \<and>
    ReadFile (dfs_net Pe Pm dp G arr) Pm c sc' order (last (split_on CHR ''/'' p)) q d' w = (Ret None, (d'', w')) \<and>
    fs_Open q d'' = Inr f"
proof -
  note ready = servers_ready_rep [OF assms(4)]
  from assms(2) have f: "f \<noteq> []" "distinct (map (chunk_id f) [0 ..< chunkCount ChunkSize (length f)])"
    by (simp_all add: sendable_file_def)
  have r: "prompt arr \<and> dfs_rep Pe Pm mx dp G (Suc 0) w0 (fst (dw_meta w0)) \<sigma>" using assms(5) ready(4) by blast
  from dfs.SendFile_ok [OF assms(1) ready(1) assms(2) r ready(3) assms(3) ready(5)] obtain w' \<sigma>' where
    send: "SendFile (dfs_net Pe Pm dp G arr) Pm c sc p d w0 = (Ret None, w')"
    and w': "prompt arr \<and> dfs_rep Pe Pm mx dp G 0 w' ((fst (dw_meta w0))(last (split_on CHR ''/'' p) \<mapsto>
        assign_addr (file_record G (last (split_on CHR ''/'' p)) f))) \<sigma>'" "chunks_held f \<sigma>'"
    by (blast dest: chunks_stored_held)
  from dfs.ReadFile_ok [OF assms(1) ready(2) f w' fun_upd_same assms(6-10)] send show ?thesis by blast
qed

text \<open>
  C17: what a successful \<open>SendFile\<close> leaves behind, on a network and disks without faults, for a file
  that can be read, is not empty, is shorter than 2^63 bytes and has no two equal chunks, and whose
  record fits a segment of the metadata server's log (\<open>servers_ready\<close>). It returns nil. By then the
  metadata server has its record, with the address of the chunk server, and no other has changed.
  The chunks need not have been written: nobody acknowledges them. But whatever the chunk server
  has handled by then (\<open>arr\<close>), once it has handled the connections that still wait, one after the
  other in any order, it has every chunk under its id, and nothing else has changed.
\<close>

theorem sent_file_is_stored:
  assumes "client_ok G c" "sendable_file p d f" "sched_ok sc (chunkCount ChunkSize (length f))"
    and "servers_ready Pe Pm mx dp G (last (split_on CHR ''/'' p)) f \<sigma> w"
  shows "\<exists>w' \<sigma>'. SendFile (dfs_net Pe Pm dp G arr) Pm c sc p d w = (Ret None, w') \<and>
    fst (dw_meta w') = (fst (dw_meta w))(last (split_on CHR ''/'' p) \<mapsto>
      assign_addr (file_record G (last (split_on CHR ''/'' p)) f)) \<and> fs_inv Pe Pm mx 0 (dw_meta w') \<and>
    (\<forall>is. serves_all is (length (dw_sent w')) \<longrightarrow>
       dw_sent (fold (handle_sent (NewChunkServer (int dp) G)) is w') = [] \<and>
       store_rep dp HashContent (dw_chunks (fold (handle_sent (NewChunkServer (int dp) G)) is w')) \<sigma>') \<and>
    (\<forall>i < chunkCount ChunkSize (length f). \<sigma>' (HashContent (piece ChunkSize f i)) = Some (piece ChunkSize f i)) \<and>
    (\<forall>k. k \<notin> (\<lambda>i. HashContent (piece ChunkSize f i)) ` {..<chunkCount ChunkSize (length f)} \<longrightarrow> \<sigma>' k = \<sigma> k)"
proof -
  note ready = servers_ready_rep [OF assms(4)]
  let ?fold = "\<lambda>is w'. fold (handle_sent (NewChunkServer (int dp) G)) is w'"
  from dfs_send.SendFile_ok [OF assms(1) ready(1) assms(2) ready(4,3) assms(3) ready(5)] obtain w' \<sigma>' where
    w': "SendFile (dfs_net Pe Pm dp G arr) Pm c sc p d w = (Ret None, w')"
    "dfs_rep Pe Pm mx dp G 0 w' ((fst (dw_meta w))(last (split_on CHR ''/'' p) \<mapsto>
        assign_addr (file_record G (last (split_on CHR ''/'' p)) f))) \<sigma>'"
    "chunks_stored f {..<chunkCount ChunkSize (length f)} \<sigma> \<sigma>'" by blast
  from w'(2) have rep: "chunks_rep dp G w' \<sigma>'" by (simp add: dfs_rep_def)
  have "dw_sent (?fold is w') = [] \<and> store_rep dp HashContent (dw_chunks (?fold is w')) \<sigma>'"
    if "serves_all is (length (dw_sent w'))" for "is"
    using handled_all [OF that, of "NewChunkServer (int dp) G"]
      chunks_rep_served [OF chunks_rep_handle_all [OF chunk_server_eq ready(2) rep, of "is"]] by blast
  with w' show ?thesis unfolding dfs_rep_def chunks_stored_def chunk_id_def
    by (intro exI [of _ w'] exI [of _ \<sigma>']) (simp del: fun_upd_apply)
qed

text \<open>
  C1: the system is a map from names to contents, within these limits: the network, the disks and the
  processes do not fail and the client's pool is open; every file that is sent can be read, is not
  empty, is shorter than 2^63 bytes, has no two equal chunks, and its record fits a segment of the
  metadata server's log (about six chunks with the default of 400 bytes) which has room; only names
  that the map knows are read, to files that can be written (\<open>calls_ok\<close>, \<open>dfs_rep\<close>); no two different
  chunks that are ever stored have the same MD5 (\<open>chunks_apart\<close>, \<open>stored_apart\<close>); and, since nobody
  acknowledges a chunk, the chunk server has handled what was sent to it before a chunk is asked
  for (\<open>prompt\<close>), at any time until then and in any order. Then any sequence of
  \<open>SendFile\<close> and \<open>ReadFile\<close> calls through the client, the connection pool with its health
  checks, the protocol, both handlers, the log and the storage returns nil at every call, and
  every read leaves what the map has under its name at that point.
\<close>

theorem dfs_implements_files:
  assumes "client_ok G c" "gob_small G" "range_ok order" "prompt arr" "calls_ok G Pm (fs_storable Pe Pm mx) calls \<phi>"
    and "chunks_apart (ran \<phi> \<union> set (sent_files calls))" "\<forall>f \<in> ran \<phi> \<union> set (sent_files calls). stored_apart f \<sigma>"
    and "dfs_rep Pe Pm mx dp G (length (sent_files calls) + k) w \<mu> \<sigma>" "dfs_holds G \<phi> \<mu> \<sigma>"
  shows "\<exists>w' \<mu>' \<sigma>'. dfs_run (dfs_net Pe Pm dp G arr) Pm c order calls w =
      (map (\<lambda>out. (Ret None, out)) (fst (dfs_spec calls \<phi>)), w') \<and>
    dfs_rep Pe Pm mx dp G k w' \<mu>' \<sigma>' \<and> dfs_holds G (snd (dfs_spec calls \<phi>)) \<mu>' \<sigma>'"
proof -
  have "prompt arr \<and> dfs_rep Pe Pm mx dp G (length (sent_files calls) + k) w \<mu> \<sigma>" using assms(4,8) by blast
  from dfs.dfs_run_implements [OF assms(1-3,5,6) order.refl this assms(9,7)] show ?thesis by blast
qed

section \<open>A concrete file\<close>

definition demo_string_pool :: "string pool" where
  "demo_string_pool = projr (NewRetriableWorkerPool False (client_pool_options 6 3 2000000000 5000000000))"

definition demo_client :: Client where
  "demo_client = (defaultClient sample_gob)\<lparr>cl_readWorkerPool := Some demo_string_pool, cl_writeWorkerPool := Some demo_string_pool\<rparr>"

definition demo_sched :: sched where
  "demo_sched = \<lparr>sc_order = (\<lambda>n. rev [0 ..< n]), sc_env = (\<lambda>i. \<lparr>je_done = (\<lambda>_. False), je_since = (\<lambda>_. 0)\<rparr>),
     sc_id = int, sc_cancelled = (\<lambda>_. False)\<rparr>"

definition demo_range :: "(string \<rightharpoonup> ChunkInfo) \<Rightarrow> string list" where
  "demo_range M = sorted_list_of_set (dom M)"

definition demo_home :: fs where
  "demo_home = empty_fs\<lparr>entries := [(''home/f.bin'', File [1, 2, 3] [])]\<rparr>"

definition demo_record :: FileMetadata where
  "demo_record = file_record sample_gob ''f.bin'' [1, 2, 3]"

definition demo_files_codec :: "FileMetadata proto" where
  "demo_files_codec = sample_meta [demo_record, assign_addr demo_record]"

definition demo_conns :: TCPPool where
  "demo_conns = defaultTCPPoolConfig\<lparr>tp_cap := 5, tp_connections := [fresh_conn 0, fresh_conn 1]\<rparr>"

definition demo_servers :: "FileStore dfs_world" where
  "demo_servers = \<lparr>dw_meta = (Map.empty, demo_wal sample_entry []), dw_chunks = empty_fs, dw_sent = [],
     dw_pool = demo_conns, dw_left = [], dw_time = 0\<rparr>"

text \<open>The chunk server handles nothing until a chunk is read, and then everything, the last first.\<close>

definition demo_arrivals :: arrivals where
  "demo_arrivals t now n = (if now then rev [0 ..< n] else [])"

lemma demo_string_pool_open: "pool_open demo_string_pool" "\<not> rp_isClosed demo_string_pool"
  using NewRetriableWorkerPool_client [of 6 False 3 2000000000 5000000000, where 'o = string]
  by (auto simp: demo_string_pool_def pool_open_def pool_ready_def)

lemma demo_arrivals_prompt: "prompt demo_arrivals"
proof -
  have "serves_all (rev [0 ..< n]) n" for n by (induction n) simp_all
  then show ?thesis by (simp add: prompt_def demo_arrivals_def)
qed

lemma demo_conns_fresh: "pool_fresh demo_conns"
  by (simp add: demo_conns_def pool_fresh_def conn_fresh_def fresh_conn_def defaultTCPPoolConfig_def)

lemma demo_client_ok: "client_ok sample_gob demo_client"
  using demo_string_pool_open by (simp add: client_ok_def demo_client_def defaultClient_def)

lemma demo_sched_ok: "sched_ok demo_sched n"
  by (auto simp: sched_ok_def demo_sched_def)

lemma demo_range_ok: "range_ok demo_range"
  by (simp add: range_ok_def demo_range_def)

lemma demo_gob_small: "gob_small sample_gob"
  by (auto simp: gob_small_def sample_gob_ok) (simp add: sample_gob_def)

lemma demo_pieces: "[0 ..< chunkCount ChunkSize (length ([1, 2, 3] :: bytes))] = [0]"
  by (simp add: chunkCount_def ChunkSize_def upt_rec)

lemma demo_sendable: "sendable_file ''home/f.bin'' demo_home [1, 2, 3]"
  unfolding sendable_file_def demo_pieces
  by (simp add: demo_home_def empty_fs_def fs_Open_def fs_node_def)

lemma demo_name: "last (split_on CHR ''/'' ''home/f.bin'') = ''f.bin''"
  by code_simp

lemma demo_files_Marshal:
  "\<exists>b. Marshal demo_files_codec demo_record = Inr [b]" "\<exists>b. Marshal demo_files_codec (assign_addr demo_record) = Inr [b]"
  by (simp_all add: demo_files_codec_def sample_meta_def)

lemma demo_files_marshals: "marshals demo_files_codec demo_record" "fs_storable sample_entry demo_files_codec 400 (assign_addr demo_record)"
  using demo_files_Marshal sample_entry_fits
  by (auto simp: marshals_def fs_storable_def meta_fits_def max_payload_def)

lemma demo_dfs:
  "k < 1000 \<Longrightarrow> fs_inv sample_entry demo_files_codec 400 k (dw_meta demo_servers)"
  "meta_req_ok demo_files_codec (fs_storable sample_entry demo_files_codec 400) (AddFile demo_record)"
proof -
  have rep: "wal_rep sample_entry (demo_wal sample_entry []) 1 [] []"
    by (rule demo_rep(1)) (simp_all add: numbered_def)
  have "store_inv sample_entry demo_files_codec Map.empty (Map.empty, demo_wal sample_entry []) 1 [] []"
    by (rule store_inv_no_snapshot [OF rep]) (simp_all add: demo_fields)
  then show "k < 1000 \<Longrightarrow> fs_inv sample_entry demo_files_codec 400 k (dw_meta demo_servers)"
    by (auto simp: demo_servers_def fs_inv_def sample_entry_ok demo_files_codec_def sample_meta_ok demo_fields log_room_def)
  obtain b where "meta_enc demo_files_codec (Some demo_record) = [b]"
    using demo_files_Marshal(1) by (auto simp: meta_enc_def marshal_ptr_def)
  then show "meta_req_ok demo_files_codec (fs_storable sample_entry demo_files_codec 400) (AddFile demo_record)"
    using demo_files_marshals by (simp add: meta_req_ok_def max_payload_def)
qed

lemma demo_chunks_rep: "chunks_rep 5 sample_gob demo_servers Map.empty"
  using demo_store_rep by (intro chunks_rep_none) (simp_all add: demo_servers_def)

lemma demo_servers_ready: "servers_ready sample_entry demo_files_codec 400 5 sample_gob ''f.bin'' [1, 2, 3] Map.empty demo_servers"
  using demo_dfs demo_chunks_rep demo_conns_fresh
  by (simp add: servers_ready_def demo_gob_small demo_record_def stored_apart_def) (simp add: demo_servers_def)

lemma demo_servers_ready_path:
  "servers_ready sample_entry demo_files_codec 400 5 sample_gob (last (split_on CHR ''/'' ''home/f.bin'')) [1, 2, 3] Map.empty demo_servers"
  using demo_servers_ready by (simp only: demo_name)

lemma serves_all_zeros: "serves_all (replicate n 0) n"
  by (induction n) simp_all

lemma sent_file_is_stored_witness:
  "\<exists>w' \<sigma>'. SendFile (dfs_net sample_entry demo_files_codec 5 sample_gob demo_arrivals) demo_files_codec demo_client demo_sched
      ''home/f.bin'' demo_home demo_servers = (Ret None, w') \<and>
    fst (dw_meta w') = (fst (dw_meta demo_servers))(''f.bin'' \<mapsto> assign_addr (file_record sample_gob ''f.bin'' [1, 2, 3])) \<and>
    store_rep 5 HashContent (dw_chunks (fold (handle_sent (NewChunkServer (int 5) sample_gob)) (replicate (length (dw_sent w')) 0) w')) \<sigma>' \<and>
    \<sigma>' (HashContent (piece ChunkSize [1, 2, 3] 0)) = Some (piece ChunkSize [1, 2, 3] 0)"
proof -
  have "0 < chunkCount ChunkSize (length ([1, 2, 3] :: bytes))" using chunkCount_less [of ChunkSize 0] by simp
  with sent_file_is_stored [OF demo_client_ok demo_sendable demo_sched_ok demo_servers_ready_path, of demo_arrivals] serves_all_zeros
  show ?thesis unfolding demo_name by blast
qed

text \<open>The file is sent, read back, sent again and read back.\<close>

definition demo_calls :: "dfs_call list" where
  "demo_calls = [SendCall demo_sched ''home/f.bin'' demo_home, ReadCall demo_sched ''f.bin'' ''copy'' empty_fs,
     SendCall demo_sched ''home/f.bin'' demo_home, ReadCall demo_sched ''f.bin'' ''home/f.bin'' demo_home]"

lemma demo_file_at: "file_at ''home/f.bin'' demo_home = [1, 2, 3]" "base_name ''home/f.bin'' = ''f.bin''"
  using demo_sendable demo_name by (simp_all add: file_at_def sendable_file_def base_name_def)

lemma demo_writable: "writable ''copy'' empty_fs" "writable ''home/f.bin'' demo_home"
  by (simp_all add: writable_def demo_home_def empty_fs_def fs_node_def)

lemma demo_calls_ok: "calls_ok sample_gob demo_files_codec (fs_storable sample_entry demo_files_codec 400) demo_calls Map.empty"
  using demo_dfs(2) by (simp add: demo_calls_def demo_file_at demo_sendable demo_sched_ok demo_record_def demo_writable name_ok_def max_payload_def)

lemma dfs_implements_files_witness:
  "\<exists>w'. dfs_run (dfs_net sample_entry demo_files_codec 5 sample_gob demo_arrivals) demo_files_codec demo_client demo_range demo_calls demo_servers =
     ([(Ret None, None), (Ret None, Some [1, 2, 3]), (Ret None, None), (Ret None, Some [1, 2, 3])], w')"
proof -
  have "chunkCount ChunkSize (length ([1, 2, 3] :: bytes)) = Suc 0"
    using arg_cong [OF demo_pieces, of length] by simp
  then have "chunks_apart (ran Map.empty \<union> set (sent_files demo_calls))"
    by (simp add: chunks_apart_def demo_calls_def demo_file_at)
  moreover have "stored_apart f Map.empty" for f by (simp add: stored_apart_def)
  moreover have "dfs_rep sample_entry demo_files_codec 400 5 sample_gob (length (sent_files demo_calls) + 0) demo_servers
      (fst (dw_meta demo_servers)) Map.empty"
    using demo_dfs(1) [of 2] demo_chunks_rep demo_conns_fresh sample_gob_ok
    by (simp add: dfs_rep_def demo_calls_def numeral_2_eq_2) (simp add: demo_servers_def)
  moreover have "dfs_holds sample_gob Map.empty (fst (dw_meta demo_servers)) Map.empty" by (simp add: dfs_holds_def)
  ultimately show ?thesis
    using dfs_implements_files [OF demo_client_ok demo_gob_small demo_range_ok demo_arrivals_prompt demo_calls_ok]
    by (fastforce simp: demo_calls_def demo_file_at)
qed

end
