(* ===== verification/Client_Failures.thy ===== *)
theory Client_Failures
  imports Client_Properties
begin

text \<open>
  What goes wrong in the client: calls that never return, a dial that fails, and retries of a chunk
  whose reader has been consumed.
\<close>

section \<open>Calls without chunks\<close>

lemma sched_order_0: "sched_ok sc 0 \<Longrightarrow> sc_order sc 0 = []"
  by (simp add: sched_ok_def)

text \<open>
  C25: reading a file that the metadata server does not know never returns: the server answers with no
  bytes, which decode to an empty record, and no chunk of it ever gives a result. By then the
  client's own file has been emptied. Nothing has changed on the servers but that the chunk server
  may have handled connections that waited before.
\<close>

theorem read_unknown_file_hangs:
  assumes "client_ok G c" "proto_ok Pm" "proto_empty_ok Pm" "fst (dw_meta w) name = None"
    and "name \<noteq> []" "length name \<le> max_payload" "range_ok order" "sched_ok sc 0"
    and "\<not> faults d OpCreate q" "fs_node d q \<noteq> Some Dir" "pool_fresh (dw_pool w)"
  shows "\<exists>w'. ReadFile (dfs_net Pe Pm dp G arr) Pm c sc order name q d w = (Hang, (fs_put q (File [] []) d, w')) \<and>
    dw_meta w' = dw_meta w \<and> caught_up (NewChunkServer (int dp) G) w w' \<and>
    (dw_sent w = [] \<longrightarrow> dw_sent w' = [] \<and> dw_chunks w' = dw_chunks w)"
proof -
  from assms(1) obtain rp where rp: "cl_readWorkerPool c = Some rp" by (auto simp: client_ok_def)
  have "bytes_of_string name \<noteq> []" "\<forall>m. fst (dw_meta w) name = Some m \<longrightarrow> marshals Pm m"
    using assms(4,5) by (simp_all add: bytes_of_string_def)
  from fetchFileMetadata_ok [OF this(1) assms(6,2,3) this(2) assms(11), of Pe "NewChunkServer (int dp) G" arr] assms(4) obtain w' where
    w': "fetchFileMetadata (dfs_net Pe Pm dp G arr) Pm name w = (Inr empty_meta, w')" "dw_meta w' = dw_meta w"
    "caught_up (NewChunkServer (int dp) G) w w'" by (auto simp: dfs_net_def)
  have "order (fm_ChunkInfo empty_meta) = []"
  proof -
    have "set (order Map.empty) = {}" using assms(7) by (simp add: range_ok_def)
    then show ?thesis by (simp add: empty_meta_def)
  qed
  then have "processReadFile (dfs_net Pe Pm dp G arr) c sc order empty_meta q s' = (Hang, s')" for s'
    using collect_results_none [OF sched_order_0 [OF assms(8)]] rp by (simp add: processReadFile_def)
  with w'(1) assms(9,10) have "ReadFile (dfs_net Pe Pm dp G arr) Pm c sc order name q d w = (Hang, (fs_put q (File [] []) d, w'))"
    by (simp add: ReadFile_def fs_Create_def)
  with w'(2,3) caught_up_nothing [OF w'(3)] show ?thesis by blast
qed

lemma read_unknown_file_hangs_witness:
  "\<exists>w'. ReadFile (dfs_net sample_entry demo_files_codec 5 sample_gob demo_arrivals) demo_files_codec demo_client demo_sched demo_range
     ''nope'' ''home/f.bin'' demo_home demo_servers = (Hang, (fs_put ''home/f.bin'' (File [] []) demo_home, w')) \<and>
   dw_meta w' = dw_meta demo_servers \<and> dw_sent w' = [] \<and> dw_chunks w' = dw_chunks demo_servers"
proof -
  have "dw_sent demo_servers = []" "dw_pool demo_servers = demo_conns" "fst (dw_meta demo_servers) ''nope'' = None"
    by (simp_all add: demo_servers_def)
  moreover have "proto_ok demo_files_codec" "proto_empty_ok demo_files_codec" "length ''nope'' \<le> max_payload"
    "\<not> faults demo_home OpCreate ''home/f.bin''" "fs_node demo_home ''home/f.bin'' \<noteq> Some Dir"
    by (simp_all add: demo_files_codec_def sample_meta_ok sample_meta_empty_ok max_payload_def demo_home_def empty_fs_def fs_node_def)
  ultimately show ?thesis
    using read_unknown_file_hangs [OF demo_client_ok _ _ _ _ _ demo_range_ok demo_sched_ok, where w = demo_servers and name = "''nope''"
        and Pm = demo_files_codec and Pe = sample_entry and dp = 5 and arr = demo_arrivals and d = demo_home and q = "''home/f.bin''"]
      demo_conns_fresh by (metis list.distinct(1))
qed

section \<open>A chunk that is asked for too early\<close>

text \<open>
  Nothing keeps a read from overtaking a write: as long as the chunk server has not handled the
  connection of a chunk, an attempt to read the chunk fails, though \<open>SendFile\<close> has returned nil.
\<close>

lemma unhandled_chunk_not_read:
  assumes "gob_ok G" "req_ok G (Get cid)" "store_rep dp HashContent (dw_chunks w) \<sigma>" "\<sigma> cid = None"
    and "arr (dw_time w) True (length (dw_sent w)) = []" "ci_Addr ci = '':5001''"
  shows "isl (fst (read_job (dfs_net Pe Pm dp G arr) q cid ci (d, w)))"
proof -
  let ?r = "Get cid" and ?id = "bytes_of_string cid" and ?w = "serve (NewChunkServer (int dp) G) arr True w"
  have w: "dw_chunks ?w = dw_chunks w" using assms(5) by (simp add: serve_def)
  from assms(2) have l: "length ?id \<le> max_payload" by (simp add: req_ok_def)
  from Encode_new_conn [OF l, of TypeRead] obtain left conn where
    e: "Encode conn_Write (NewMessage TypeRead (Some ?id) (word_of_nat (length ?id))) new_conn = (None, left, conn)"
    "cout conn = wire (req_msg G ?r)" by (auto simp: req_msg_def)
  from chunk_Handle_implements [OF chunk_server_eq [of dp G] assms(1), of "[?r]" "dw_chunks w" \<sigma> new_conn, unfolded implements_def] assms(2-4)
  obtain er c s' where "chunk_Handle (NewChunkServer (int dp) G) (wire (req_msg G ?r)) new_conn (dw_chunks w) = (er, c, s')"
    "cout c = []" by auto
  moreover have "Decode [] = Inl EOF" by (simp add: Decode_def ReadFull_def Headersize_def)
  ultimately show ?thesis using e w assms(6)
    by (auto simp: read_job_def readChunk_client_def getChunkServerConn_def dfs_net_def sys_net_def Let_def)
qed

text \<open>Sending an empty file registers it and never returns either.\<close>

lemma send_empty_file_hangs:
  assumes "client_ok G c" "fs_Open p d = Inr []" "\<not> faults d OpStat p" "sched_ok sc 0"
    and "registerFileMetadata N Pm (file_record G (last (split_on CHR ''/'' p)) []) w = (Inr m, w')"
  shows "SendFile N Pm c sc p d w = (Hang, w')"
proof -
  from assms(1) obtain wp where wp: "cl_writeWorkerPool c = Some wp" "\<forall>b. cl_hasher c b = Inr (HashContent b)"
    "cl_encoder c = G" by (auto simp: client_ok_def)
  have "sendChunks N c sc [] w' = (Hang, w')"
    using collect_results_none [OF sched_order_0 [OF assms(4)]] wp(1) by (simp add: sendChunks_def)
  with assms(2,3,5) chunkFiles_eq [OF wp(2), of "[]"] wp(3) show ?thesis
    by (simp add: SendFile_def file_record_def file_chunks_def updateChunkInfo_def)
qed

section \<open>Failing attempts\<close>

text \<open>\<open>performWork\<close> makes at least one attempt more than it has made, and never succeeds without a success.\<close>

lemma perform_loop_attempts: "i \<le> attempts_made (fst (perform_loop conf env job k i lastErr ws))"
proof (induction k arbitrary: i lastErr ws)
  case (Suc k)
  show ?case
  proof (cases "je_done env i")
    case True
    then show ?thesis by (simp add: Let_def attempts_made_def)
  next
    case False
    show ?thesis
    proof (cases "job_work job i")
      case (Inl e)
      with False Suc.IH [of "Suc i" "Some e"] show ?thesis by (auto simp: Let_def isRetriable_def intro: Suc_leD)
    next
      case (Inr x)
      with False show ?thesis by (simp add: Let_def attempts_made_def nat_add_distrib)
    qed
  qed
qed (simp add: attempts_made_def)

lemma performWork_attempts:
  assumes "\<not> je_done env 0" "0 \<le> maxRetries conf"
  shows "0 < attempts_made (fst (performWork conf env job))"
proof -
  obtain k where k: "nat (maxRetries conf + 1) = Suc k" using assms(2) by (cases "nat (maxRetries conf + 1)") auto
  show ?thesis
  proof (cases "job_work job 0")
    case (Inl e)
    with k assms(1) have "fst (performWork conf env job) = fst (perform_loop conf env job k 1 (Some e) [0])"
      by (simp add: performWork_def Let_def isRetriable_def)
    with perform_loop_attempts [of 1 conf env job k "Some e" "[0]"] show ?thesis by simp
  next
    case (Inr x)
    with k assms(1) show ?thesis by (simp add: performWork_def Let_def attempts_made_def)
  qed
qed

lemma perform_loop_no_success:
  "\<forall>m. isl (job_work job m) \<Longrightarrow> Status (fst (perform_loop conf env job k i lastErr ws)) \<noteq> StatusSuccess"
proof (induction k arbitrary: i lastErr ws)
  case (Suc k)
  then show ?case by (cases "job_work job i") (auto simp: Let_def isRetriable_def, metis sum.disc(2))
qed simp

lemma run_job_crash:
  assumes "\<not> je_done env 0" "0 \<le> maxRetries conf" "fst (attempt s) = Inl Panic"
  shows "fst (run_job conf env jid attempt s) = Crash"
proof -
  let ?job = "\<lparr>job_id = jid, job_work = attempt_work attempt s, job_results = 0\<rparr> :: 'a Job"
  have "attempt_work attempt s 0 = Inl Panic" using assms(3) by (simp add: attempt_work_def)
  with performWork_attempts [OF assms(1,2), of ?job] have "panics attempt s (attempts_made (fst (performWork conf env ?job)))"
    by (auto simp: panics_def list_ex_iff intro!: bexI [of _ 0])
  then show ?thesis by (simp add: run_job_def Let_def)
qed

text \<open>
  A chunk server that cannot be reached crashes the client: if the dial of the first attempt of a
  chunk fails, the deferred \<open>Close\<close> of the nil connection ends the program, for a chunk that is
  read as for one that is sent; the configured retries never happen.
\<close>

lemma failed_dial_crashes_client:
  assumes "\<not> je_done env 0" "0 \<le> maxRetries conf" "net_dial N (ci_Addr ci) w = (Inl e, w')" "ck_ChunkInfo chunk = Some ci"
  shows "fst (run_job conf env jid (read_job N q cid ci) (d, w)) = Crash \<and>
    fst (run_job conf env jid (sendChunk N) (chunk, w)) = Crash"
  using assms by (intro conjI run_job_crash [OF assms(1,2)])
    (simp_all add: read_job_def readChunk_client_def sendChunk_def getChunkServerConn_def)

lemma failed_dial_crashes_client_witness:
  "fst (run_job defaultPoolConfig (sc_env demo_sched 0) 7
     (read_job (dfs_net sample_entry demo_files_codec 5 sample_gob demo_arrivals) ''copy'' ''c1'' \<lparr>ci_Size = 3, ci_Offset = 0, ci_Addr = '':9999''\<rparr>)
     (empty_fs, demo_servers)) = Crash"
  using failed_dial_crashes_client [of "sc_env demo_sched 0" defaultPoolConfig "dfs_net sample_entry demo_files_codec 5 sample_gob demo_arrivals"
      "\<lparr>ci_Size = 3, ci_Offset = 0, ci_Addr = '':9999''\<rparr>" demo_servers ErrIO demo_servers
      "\<lparr>ck_Id = ''c1'', ck_ChunkInfo = Some \<lparr>ci_Size = 3, ci_Offset = 0, ci_Addr = '':9999''\<rparr>, ck_MetadataLen = 0, ck_Data = []\<rparr>"]
  by (simp add: demo_sched_def defaultPoolConfig_def dfs_net_def sys_net_def)

section \<open>Retrying a chunk whose reader has been consumed\<close>

definition declared :: "Chunk \<Rightarrow> ChunkInfo \<Rightarrow> u32" where
  "declared ch ci = MaxMetadataSizeInBytes + ci_Size ci + word_of_nat (ck_MetadataLen ch)"

lemma CopyN_left: "CopyN wr n src s = (e, left, s') \<Longrightarrow> length left \<le> length src"
  by (auto simp: CopyN_def Let_def split: if_splits prod.splits option.splits)

lemma Encode_left:
  assumes "Encode wr m s = (e, left, s')" "Payload m = Some p"
  shows "\<exists>l. left = Some l \<and> length l \<le> length p"
  using assms(1) [unfolded Encode_def assms(2)]
  by (auto split: if_splits prod.splits option.splits dest: CopyN_left)

text \<open>The reader of the chunk holds fewer bytes than the message announces.\<close>

definition consumed :: "ChunkInfo \<Rightarrow> Chunk \<Rightarrow> bool" where
  "consumed ci ch \<longleftrightarrow> ck_ChunkInfo ch = Some ci \<and> length (ck_Data ch) < unat (declared ch ci)"

lemma sendChunk_consumed:
  assumes "consumed ci ch" "sendChunk N (ch, w) = (r, (ch', w'))"
  shows "isl r \<and> consumed ci ch'"
proof (cases "getChunkServerConn N (ci_Addr ci) w")
  case (Pair c w1)
  show ?thesis
  proof (cases c)
    case (Inl e)
    with assms Pair show ?thesis by (auto simp: sendChunk_def consumed_def)
  next
    case (Inr conn)
    let ?m = "NewMessage TypeWrite (Some (ck_Data ch)) (declared ch ci)"
    obtain e left conn' where e: "Encode conn_Write ?m conn = (e, left, conn')" by (cases "Encode conn_Write ?m conn")
    have "fst (Encode conn_Write ?m conn) \<noteq> None"
      using assms(1) by (intro cw.Encode_short_payload [where p = "ck_Data ch"]) (simp_all add: consumed_def)
    with e obtain er where er: "e = Some er" by auto
    from Encode_left [OF e, of "ck_Data ch"] obtain l where l: "left = Some l" "length l \<le> length (ck_Data ch)" by auto
    with assms Pair Inr e er show ?thesis
      by (auto simp: sendChunk_def consumed_def declared_def Let_def)
  qed
qed

lemma attempts_consumed:
  assumes "consumed ci (fst (attempt_state (sendChunk N) s i))" "i \<le> m"
  shows "consumed ci (fst (attempt_state (sendChunk N) s m)) \<and> isl (attempt_work (sendChunk N) s m)"
  using assms(2)
proof (induction m rule: dec_induct)
  case base
  obtain ch w where s: "attempt_state (sendChunk N) s i = (ch, w)" by (cases "attempt_state (sendChunk N) s i")
  obtain r ch' w' where r: "sendChunk N (ch, w) = (r, (ch', w'))" by (metis surj_pair)
  from sendChunk_consumed [OF _ r, of ci] assms(1) s r show ?case by (simp add: attempt_work_def)
next
  case (step m)
  obtain ch w where s: "attempt_state (sendChunk N) s m = (ch, w)" by (cases "attempt_state (sendChunk N) s m")
  obtain r ch' w' where r: "sendChunk N (ch, w) = (r, (ch', w'))" by (metis surj_pair)
  have c: "consumed ci ch'" using sendChunk_consumed [OF _ r, of ci] step.IH s by simp
  obtain r2 ch2 w2 where r2: "sendChunk N (ch', w') = (r2, (ch2, w2))" by (metis surj_pair)
  from sendChunk_consumed [OF c r2] c s r r2 show ?case by (simp add: attempt_work_def attempt_state_Suc)
qed

text \<open>A first attempt on a connection that breaks within the payload.\<close>

lemma sendChunk_breaks:
  assumes "ck_ChunkInfo ch = Some ci" "length (ck_Data ch) = unat (declared ch ci)" "declared ch ci \<le> MaxPayloadLen"
    and "net_dial N (ci_Addr ci) w = (Inr \<lparr>cout = [], croom = Some k\<rparr>, w1)" "net_deadline N (ci_Addr ci) w1 = None"
    and "8 \<le> k" "k < 8 + length (ck_Data ch)"
  shows "\<exists>e ch' w'. sendChunk N (ch, w) = (Inl e, (ch', w')) \<and> consumed ci ch'"
proof -
  let ?m = "NewMessage TypeWrite (Some (ck_Data ch)) (declared ch ci)" and ?c = "\<lparr>cout = header (NewMessage TypeWrite (Some (ck_Data ch)) (declared ch ci)), croom = Some (k - 8)\<rparr>"
  have pos: "0 < length (ck_Data ch)" using assms(6,7) by linarith
  then have w0: "0 < declared ch ci" using assms(2) by (simp add: unat_gt_0_word)
  have h: "conn_Write (header ?m) \<lparr>cout = [], croom = Some k\<rparr> = (8, None, ?c)" using assms(6) by (simp add: conn_Write_def)
  have "\<exists>c'. CopyN conn_Write (unat (declared ch ci)) (ck_Data ch) ?c =
      (Some ErrClosedConn, drop (min (length (ck_Data ch)) (((k - 8) div 32768 + 1) * 32768)) (ck_Data ch), c')"
    using pos assms(2,6,7) by (auto simp: CopyN_def conn_Write_def)
  then obtain c' where c: "CopyN conn_Write (unat (declared ch ci)) (ck_Data ch) ?c =
      (Some ErrClosedConn, drop (min (length (ck_Data ch)) (((k - 8) div 32768 + 1) * 32768)) (ck_Data ch), c')" by blast
  have "Encode conn_Write ?m \<lparr>cout = [], croom = Some k\<rparr> =
      (Some (wrap ''failed to encode data and write payload'' ErrClosedConn),
       Some (drop (min (length (ck_Data ch)) (((k - 8) div 32768 + 1) * 32768)) (ck_Data ch)), c')"
    unfolding Encode_def h NewMessage_simps using c w0 leD [OF assms(3)] by simp
  with assms(1,2,4,5) pos show ?thesis
    by (auto simp: sendChunk_def getChunkServerConn_def consumed_def declared_def Let_def)
qed

text \<open>
  C26: a chunk that could not be sent at once is never sent: if the connection of the first attempt breaks
  within the payload, the bytes already taken from the chunk's reader are gone, so that every
  retry fails, whatever the network does then. The job never succeeds.
\<close>

theorem broken_send_is_never_repaired:
  assumes "ck_ChunkInfo ch = Some ci" "length (ck_Data ch) = unat (declared ch ci)" "declared ch ci \<le> MaxPayloadLen"
    and "net_dial N (ci_Addr ci) w = (Inr \<lparr>cout = [], croom = Some k\<rparr>, w1)" "net_deadline N (ci_Addr ci) w1 = None"
    and "8 \<le> k" "k < 8 + length (ck_Data ch)"
    and "fst (run_job conf env jid (sendChunk N) (ch, w)) = Ret r"
  shows "Status r \<noteq> StatusSuccess"
proof -
  from sendChunk_breaks [OF assms(1-7)] obtain e ch' w' where b: "sendChunk N (ch, w) = (Inl e, (ch', w'))" "consumed ci ch'"
    by blast
  have "isl (attempt_work (sendChunk N) (ch, w) m)" for m
  proof (cases m)
    case 0
    with b show ?thesis by (simp add: attempt_work_def)
  next
    case (Suc n)
    with attempts_consumed [of ci N "(ch, w)" 1 m] b show ?thesis by (simp add: attempt_state_def)
  qed
  then have "Status (fst (performWork conf env \<lparr>job_id = jid, job_work = attempt_work (sendChunk N) (ch, w), job_results = 0\<rparr>)) \<noteq> StatusSuccess"
    unfolding performWork_def by (intro perform_loop_no_success) simp
  with assms(8) show ?thesis by (auto simp: run_job_def Let_def split: if_splits)
qed

lemma sendChunk_no_panic:
  assumes "ck_ChunkInfo ch = Some ci" "net_dial N (ci_Addr ci) w = (Inr c, w1)" "net_deadline N (ci_Addr ci) w1 = None"
  shows "fst (sendChunk N (ch, w)) \<noteq> Inl Panic \<and> ck_ChunkInfo (fst (snd (sendChunk N (ch, w)))) = Some ci"
proof -
  let ?m = "NewMessage TypeWrite (Some (ck_Data ch)) (MaxMetadataSizeInBytes + ci_Size ci + word_of_nat (ck_MetadataLen ch))"
  obtain e left c' where e: "Encode conn_Write ?m c = (e, left, c')" by (cases "Encode conn_Write ?m c")
  then have "e \<noteq> Some Panic"
    by (auto simp: Encode_def wrap_def errmsg_def split: if_splits prod.splits option.splits)
  with e assms show ?thesis
    by (cases e) (simp_all add: sendChunk_def getChunkServerConn_def Let_def)
qed

definition demo_break_net :: "unit net" where
  "demo_break_net = \<lparr>net_get = (\<lambda>w. (Inr new_conn, w)), net_meta = (\<lambda>inp w. (([], True), w)),
     net_dial = (\<lambda>addr w. (Inr \<lparr>cout = [], croom = Some 10\<rparr>, w)), net_deadline = (\<lambda>addr w. None),
     net_chunk = (\<lambda>addr inp w. (([], True), w)), net_send = (\<lambda>addr inp w. w)\<rparr>"

definition demo_break_chunk :: Chunk where
  "demo_break_chunk = \<lparr>ck_Id = ''c1'', ck_ChunkInfo = Some \<lparr>ci_Size = 3, ci_Offset = 0, ci_Addr = '':5001''\<rparr>,
     ck_MetadataLen = 1, ck_Data = [0, 0, 0, 1, 9, 1, 2, 3]\<rparr>"

lemma broken_send_is_never_repaired_witness:
  "\<exists>r. fst (run_job defaultPoolConfig (sc_env demo_sched 0) 7 (sendChunk demo_break_net) (demo_break_chunk, ())) = Ret r \<and>
    Status r \<noteq> StatusSuccess"
proof -
  have no_panic: "fst (sendChunk demo_break_net (ch, ())) \<noteq> Inl Panic \<and> ck_ChunkInfo (fst (snd (sendChunk demo_break_net (ch, ())))) =
      Some \<lparr>ci_Size = 3, ci_Offset = 0, ci_Addr = '':5001''\<rparr>" if "ck_ChunkInfo ch = Some \<lparr>ci_Size = 3, ci_Offset = 0, ci_Addr = '':5001''\<rparr>" for ch
    by (rule sendChunk_no_panic [OF that, of _ _ "\<lparr>cout = [], croom = Some 10\<rparr>" "()"]) (simp_all add: demo_break_net_def)
  have info: "ck_ChunkInfo (fst (attempt_state (sendChunk demo_break_net) (demo_break_chunk, ()) i)) =
      Some \<lparr>ci_Size = 3, ci_Offset = 0, ci_Addr = '':5001''\<rparr>" for i
  proof (induction i)
    case (Suc i)
    obtain ch where s: "attempt_state (sendChunk demo_break_net) (demo_break_chunk, ()) i = (ch, ())" by (metis surj_pair unit.exhaust)
    with no_panic [of ch] Suc show ?case by (simp add: attempt_state_Suc)
  qed (simp add: demo_break_chunk_def)
  have "attempt_work (sendChunk demo_break_net) (demo_break_chunk, ()) i \<noteq> Inl Panic" for i
    using info [of i] no_panic [of "fst (attempt_state (sendChunk demo_break_net) (demo_break_chunk, ()) i)"]
    by (cases "attempt_state (sendChunk demo_break_net) (demo_break_chunk, ()) i") (simp add: attempt_work_def)
  then have "\<not> panics (sendChunk demo_break_net) (demo_break_chunk, ()) n" for n
    by (auto simp: panics_def list_ex_iff split: sum.splits)
  then obtain r where r: "fst (run_job defaultPoolConfig (sc_env demo_sched 0) 7 (sendChunk demo_break_net) (demo_break_chunk, ())) = Ret r"
    by (simp add: run_job_def Let_def)
  have "Status r \<noteq> StatusSuccess"
    by (rule broken_send_is_never_repaired [OF _ _ _ _ _ _ _ r, of "\<lparr>ci_Size = 3, ci_Offset = 0, ci_Addr = '':5001''\<rparr>" 10 "()"])
      (simp_all add: demo_break_chunk_def demo_break_net_def declared_def MaxMetadataSizeInBytes_def MaxPayloadLen_def)
  with r show ?thesis by blast
qed

end
