(* ===== verification/Tcp_Transport.thy ===== *)
theory Tcp_Transport
  imports Wal "HOL-Library.Multiset"
begin

text \<open>
  The TCP server of both servers, \<open>internal/transport/tcp_transport.go\<close>: a goroutine accepts
  connections and hands them to a second one, which starts a handler for each; \<open>Close\<close> stops
  them. The goroutines are a step relation; \<open>Listen\<close> and \<open>Close\<close> are functions of the state.
  A connection is a number; what the handler does with it is modelled with the handlers.
  The properties stand at the end, with their witnesses.
\<close>

section \<open>The model\<close>

text \<open>
  A goroutine in \<open>acceptConnections\<close> is before its \<open>Accept\<close> or offers the connection it has
  accepted. \<open>tt_listener\<close> is nil, open or closed; \<open>tt_accepted\<close> and \<open>tt_closed\<close> record the
  connections that were accepted and closed.
\<close>

datatype accept_state = Accepting | Handing nat

record TCPTransport =
  tt_wg :: nat
  tt_listenerPort :: string
  tt_listener :: "bool option"
  tt_shutdown :: bool
  tt_shutdownTimeout :: duration
  tt_acceptors :: "accept_state multiset"
  tt_dispatchers :: nat
  tt_handlers :: "nat multiset"
  tt_accepted :: "nat multiset"
  tt_closed :: "nat multiset"

type_synonym TCPTransportOpts = "TCPTransport \<Rightarrow> TCPTransport"

definition WithTransportShutdownTimeout :: "duration \<Rightarrow> TCPTransportOpts" where
  "WithTransportShutdownTimeout timeout t = t\<lparr>tt_shutdownTimeout := timeout\<rparr>"

definition defaultTCPTransport :: TCPTransport where
  "defaultTCPTransport = \<lparr>tt_wg = 0, tt_listenerPort = '''', tt_listener = None, tt_shutdown = False,
     tt_shutdownTimeout = 5000000000, tt_acceptors = {#}, tt_dispatchers = 0, tt_handlers = {#},
     tt_accepted = {#}, tt_closed = {#}\<rparr>"

definition NewTCPTransport :: "string \<Rightarrow> TCPTransportOpts list \<Rightarrow> TCPTransport" where
  "NewTCPTransport listenerPort opts =
     fold (\<lambda>opt t. opt t) opts (defaultTCPTransport\<lparr>tt_listenerPort := listenerPort\<rparr>)"

text \<open>\<open>listen\<close> is what \<open>net.Listen\<close> returns.\<close>

definition Listen :: "go_error option \<Rightarrow> TCPTransport \<Rightarrow> go_error option \<times> TCPTransport" where
  "Listen listen t =
     (case listen of
        Some e \<Rightarrow> (Some e, t)
      | None \<Rightarrow> (None, t\<lparr>tt_listener := Some True, tt_wg := tt_wg t + 2,
                       tt_acceptors := add_mset Accepting (tt_acceptors t), tt_dispatchers := tt_dispatchers t + 1\<rparr>))"

text \<open>
  \<open>Close\<close> up to its wait: closing the channel twice panics, and so does a listener that was
  never opened.
\<close>

definition Close_start :: "TCPTransport \<Rightarrow> go_error option \<times> TCPTransport" where
  "Close_start t =
     (if tt_shutdown t then (Some Panic, t)
      else if tt_listener t = None then (Some Panic, t\<lparr>tt_shutdown := True\<rparr>)
      else (None, t\<lparr>tt_shutdown := True, tt_listener := Some False\<rparr>))"

text \<open>The wait of \<open>Close\<close> ends without a time-out when all goroutines are done.\<close>

definition Close_done :: "TCPTransport \<Rightarrow> bool" where
  "Close_done t \<longleftrightarrow> tt_wg t = 0"

text \<open>\<open>Close\<close> returns then, or when its time-out has passed.\<close>

definition Close_returns :: "duration \<Rightarrow> TCPTransport \<Rightarrow> bool" where
  "Close_returns elapsed t \<longleftrightarrow> Close_done t \<or> tt_shutdownTimeout t \<le> elapsed"

inductive acceptConnections_step :: "TCPTransport \<Rightarrow> TCPTransport \<Rightarrow> bool" where
  Stopped: "Accepting \<in># tt_acceptors t \<Longrightarrow> tt_shutdown t \<Longrightarrow>
    acceptConnections_step t (t\<lparr>tt_acceptors := tt_acceptors t - {#Accepting#}, tt_wg := tt_wg t - 1\<rparr>)"
| Accept: "Accepting \<in># tt_acceptors t \<Longrightarrow> tt_listener t = Some True \<Longrightarrow>
    acceptConnections_step t (t\<lparr>tt_acceptors := add_mset (Handing c) (tt_acceptors t - {#Accepting#}),
                              tt_accepted := add_mset c (tt_accepted t)\<rparr>)"
| AcceptError: "Accepting \<in># tt_acceptors t \<Longrightarrow>
    acceptConnections_step t (t\<lparr>tt_acceptors := tt_acceptors t - {#Accepting#}, tt_wg := tt_wg t - 1\<rparr>)"
| CloseOnShutdown: "Handing c \<in># tt_acceptors t \<Longrightarrow> tt_shutdown t \<Longrightarrow>
    acceptConnections_step t (t\<lparr>tt_acceptors := tt_acceptors t - {#Handing c#}, tt_wg := tt_wg t - 1,
                              tt_closed := add_mset c (tt_closed t)\<rparr>)"

text \<open>The receive from \<open>connections\<close> takes the connection from a goroutine that offers it.\<close>

inductive handleConnections_step :: "TCPTransport \<Rightarrow> TCPTransport \<Rightarrow> bool" where
  Dispatch: "Handing c \<in># tt_acceptors t \<Longrightarrow> 0 < tt_dispatchers t \<Longrightarrow>
    handleConnections_step t (t\<lparr>tt_acceptors := add_mset Accepting (tt_acceptors t - {#Handing c#}),
                              tt_wg := tt_wg t + 1, tt_handlers := add_mset c (tt_handlers t)\<rparr>)"
| DispatchStopped: "0 < tt_dispatchers t \<Longrightarrow> tt_shutdown t \<Longrightarrow>
    handleConnections_step t (t\<lparr>tt_dispatchers := tt_dispatchers t - 1, tt_wg := tt_wg t - 1\<rparr>)"

text \<open>The end of a handler: the connection is closed, whatever \<open>Handle\<close> has returned.\<close>

inductive handleConnection_step :: "TCPTransport \<Rightarrow> TCPTransport \<Rightarrow> bool" where
  Handled: "c \<in># tt_handlers t \<Longrightarrow>
    handleConnection_step t (t\<lparr>tt_handlers := tt_handlers t - {#c#}, tt_wg := tt_wg t - 1,
                             tt_closed := add_mset c (tt_closed t)\<rparr>)"

inductive transport_step :: "TCPTransport \<Rightarrow> TCPTransport \<Rightarrow> bool" where
  accept: "acceptConnections_step t u \<Longrightarrow> transport_step t u"
| dispatch: "handleConnections_step t u \<Longrightarrow> transport_step t u"
| handler: "handleConnection_step t u \<Longrightarrow> transport_step t u"
| shutdown: "Close_start t = (None, u) \<Longrightarrow> transport_step t u"

inductive_cases transport_stepE: "transport_step t u"
inductive_cases acceptConnections_stepE: "acceptConnections_step t u"
inductive_cases handleConnections_stepE: "handleConnections_step t u"
inductive_cases handleConnection_stepE: "handleConnection_step t u"

lemmas transport_step_elims =
  transport_stepE acceptConnections_stepE handleConnections_stepE handleConnection_stepE

section \<open>Invariants\<close>

fun offered :: "accept_state \<Rightarrow> nat multiset" where
  "offered (Handing c) = {#c#}"
| "offered Accepting = {#}"

definition offers :: "accept_state multiset \<Rightarrow> nat multiset" where
  "offers as = sum_mset (image_mset offered as)"

lemma offers_simps [simp]: "offers {#} = {#}" "offers (add_mset a as) = offered a + offers as"
  by (simp_all add: offers_def)

definition transport_inv :: "TCPTransport \<Rightarrow> bool" where
  "transport_inv t \<longleftrightarrow>
     tt_accepted t = offers (tt_acceptors t) + tt_handlers t + tt_closed t \<and>
     tt_wg t = size (tt_acceptors t) + tt_dispatchers t + size (tt_handlers t) \<and>
     (tt_shutdown t \<longrightarrow> tt_listener t \<noteq> Some True)"

lemma transport_inv_step: "transport_step t u \<Longrightarrow> transport_inv t \<Longrightarrow> transport_inv u"
  by (auto elim!: transport_step_elims simp: transport_inv_def Close_start_def dest!: multi_member_split split: if_splits)

lemma transport_inv_steps: "transport_step\<^sup>*\<^sup>* t u \<Longrightarrow> transport_inv t \<Longrightarrow> transport_inv u"
  by (induction rule: rtranclp_induct) (auto intro: transport_inv_step)

text \<open>The transport as both servers start it.\<close>

definition server_transport :: "string \<Rightarrow> duration \<Rightarrow> TCPTransport" where
  "server_transport port timeout = snd (Listen None (NewTCPTransport port [WithTransportShutdownTimeout timeout]))"

lemma server_transport_fields:
  "tt_acceptors (server_transport port timeout) = {#Accepting#}" "tt_dispatchers (server_transport port timeout) = 1"
  "tt_handlers (server_transport port timeout) = {#}" "tt_accepted (server_transport port timeout) = {#}"
  "tt_closed (server_transport port timeout) = {#}" "tt_wg (server_transport port timeout) = 2"
  "\<not> tt_shutdown (server_transport port timeout)" "tt_listener (server_transport port timeout) = Some True"
  by (simp_all add: server_transport_def Listen_def NewTCPTransport_def defaultTCPTransport_def WithTransportShutdownTimeout_def)

lemma server_transport_inv: "transport_inv (server_transport port timeout)"
  by (simp add: transport_inv_def server_transport_fields)

lemma transport_reachable_inv: "transport_step\<^sup>*\<^sup>* (server_transport port timeout) t \<Longrightarrow> transport_inv t"
  using transport_inv_steps server_transport_inv by blast

text \<open>After the shutdown every goroutine can end.\<close>

lemma acceptor_ends:
  assumes "tt_shutdown t" "a \<in># tt_acceptors t"
  shows "\<exists>u. transport_step t u \<and> tt_acceptors u = tt_acceptors t - {#a#} \<and> tt_dispatchers u = tt_dispatchers t \<and>
    tt_handlers u = tt_handlers t \<and> tt_shutdown u"
proof (cases a)
  case Accepting
  with accept [OF Stopped [of t]] assms show ?thesis
    by (intro exI [of _ "t\<lparr>tt_acceptors := tt_acceptors t - {#a#}, tt_wg := tt_wg t - 1\<rparr>"]) simp
next
  case (Handing c)
  with accept [OF CloseOnShutdown [of c t]] assms show ?thesis
    by (intro exI [of _ "t\<lparr>tt_acceptors := tt_acceptors t - {#a#}, tt_wg := tt_wg t - 1, tt_closed := add_mset c (tt_closed t)\<rparr>"]) simp
qed

lemma wind_down:
  "tt_shutdown t \<Longrightarrow> size (tt_acceptors t) + tt_dispatchers t + size (tt_handlers t) = n \<Longrightarrow>
   \<exists>u. transport_step\<^sup>*\<^sup>* t u \<and> tt_acceptors u = {#} \<and> tt_dispatchers u = 0 \<and> tt_handlers u = {#}"
proof (induction n arbitrary: t)
  case 0
  then have "transport_step\<^sup>*\<^sup>* t t \<and> tt_acceptors t = {#} \<and> tt_dispatchers t = 0 \<and> tt_handlers t = {#}" by simp
  then show ?case by blast
next
  case (Suc n)
  have "\<exists>u. transport_step t u \<and> tt_shutdown u \<and> size (tt_acceptors u) + tt_dispatchers u + size (tt_handlers u) = n"
  proof -
    consider a where "a \<in># tt_acceptors t" | "0 < tt_dispatchers t" | c where "c \<in># tt_handlers t"
      using Suc.prems(2) by (cases "tt_acceptors t = {#}"; cases "tt_handlers t = {#}") (auto dest: multiset_nonemptyE)
    then show ?thesis
    proof cases
      case 1
      from acceptor_ends [OF Suc.prems(1) this] 1 Suc.prems(2) show ?thesis
        by (auto simp: size_Diff_singleton dest!: multi_member_split)
    next
      case 2
      from dispatch [OF DispatchStopped [OF 2 Suc.prems(1)]] 2 Suc.prems show ?thesis
        by (intro exI [of _ "t\<lparr>tt_dispatchers := tt_dispatchers t - 1, tt_wg := tt_wg t - 1\<rparr>"]) simp
    next
      case 3
      from handler [OF Handled [OF 3]] 3 Suc.prems show ?thesis
        by (intro exI [of _ "t\<lparr>tt_handlers := tt_handlers t - {#c#}, tt_wg := tt_wg t - 1, tt_closed := add_mset c (tt_closed t)\<rparr>"])
          (auto dest!: multi_member_split)
    qed
  qed
  then obtain u where u: "transport_step t u" "tt_shutdown u"
    "size (tt_acceptors u) + tt_dispatchers u + size (tt_handlers u) = n" by blast
  from Suc.IH [OF u(2,3)] u(1) show ?case by (meson converse_rtranclp_into_rtranclp)
qed

section \<open>Properties\<close>

text \<open>
  C39: every accepted connection is offered to the dispatcher, in the hands of one handler, or
  closed; and when the wait of \<open>Close\<close> ends without a time-out, all of them are closed.
\<close>

theorem transport_connections_owned:
  assumes "transport_step\<^sup>*\<^sup>* (server_transport port timeout) t"
  shows "tt_accepted t = offers (tt_acceptors t) + tt_handlers t + tt_closed t \<and>
    (Close_done t \<longrightarrow> tt_closed t = tt_accepted t \<and> tt_acceptors t = {#} \<and> tt_handlers t = {#})"
  using transport_reachable_inv [OF assms] by (auto simp: transport_inv_def Close_done_def)

lemma demo_accept:
  "transport_step\<^sup>*\<^sup>* (server_transport '':5001'' 5)
     ((server_transport '':5001'' 5)\<lparr>tt_acceptors := {#Handing 7#}, tt_accepted := {#7#}\<rparr>)"
  using accept [OF Accept [of "server_transport '':5001'' 5" 7]] by (simp add: server_transport_fields r_into_rtranclp)

lemma transport_connections_owned_witness:
  "tt_accepted ((server_transport '':5001'' 5)\<lparr>tt_acceptors := {#Handing 7#}, tt_accepted := {#7#}\<rparr>) =
     offers {#Handing 7#} + {#} + {#}"
  using transport_connections_owned [OF demo_accept] by (simp add: server_transport_fields)

text \<open>
  C40: once the shutdown has begun and while handlers return, \<open>Close\<close> can always finish without a
  time-out.
\<close>

theorem transport_shutdown_completes:
  assumes "transport_step\<^sup>*\<^sup>* (server_transport port timeout) t" "tt_shutdown t"
  shows "\<exists>u. transport_step\<^sup>*\<^sup>* t u \<and> Close_done u"
proof -
  from wind_down [OF assms(2) refl] obtain u where
    u: "transport_step\<^sup>*\<^sup>* t u" "tt_acceptors u = {#}" "tt_dispatchers u = 0" "tt_handlers u = {#}" by blast
  with transport_reachable_inv [of port timeout u] assms(1) have "transport_inv u" by (meson rtranclp_trans)
  with u show ?thesis by (auto simp: transport_inv_def Close_done_def)
qed

lemma transport_shutdown_completes_witness:
  "\<exists>u. transport_step\<^sup>*\<^sup>* ((server_transport '':5001'' 5)\<lparr>tt_shutdown := True, tt_listener := Some False\<rparr>) u \<and> Close_done u"
proof (rule transport_shutdown_completes)
  have "Close_start (server_transport '':5001'' 5) =
      (None, (server_transport '':5001'' 5)\<lparr>tt_shutdown := True, tt_listener := Some False\<rparr>)"
    by (simp add: Close_start_def server_transport_fields)
  then show "transport_step\<^sup>*\<^sup>* (server_transport '':5001'' 5)
      ((server_transport '':5001'' 5)\<lparr>tt_shutdown := True, tt_listener := Some False\<rparr>)"
    using shutdown by (blast intro: r_into_rtranclp)
qed simp

text \<open>
  One failed \<open>Accept\<close> stops the server for good: the goroutine that accepts ends, the listener stays open, and
  no connection is ever accepted again.
\<close>

lemma accept_error_stops_server:
  assumes "tt_acceptors t = {#Accepting#}"
  shows "\<exists>u. transport_step t u \<and> tt_shutdown u = tt_shutdown t \<and> tt_listener u = tt_listener t \<and>
    (\<forall>v. transport_step\<^sup>*\<^sup>* u v \<longrightarrow> tt_accepted v = tt_accepted t)"
proof (intro exI conjI allI impI)
  let ?u = "t\<lparr>tt_acceptors := {#}, tt_wg := tt_wg t - 1\<rparr>"
  show "transport_step t ?u" using accept [OF AcceptError [of t]] assms by simp
  fix v assume "transport_step\<^sup>*\<^sup>* ?u v"
  then have "tt_acceptors v = {#} \<and> tt_accepted v = tt_accepted t"
    by (induction rule: rtranclp_induct) (auto elim!: transport_step_elims simp: Close_start_def split: if_splits)
  then show "tt_accepted v = tt_accepted t" ..
qed simp_all

lemma accept_error_stops_server_witness:
  "\<exists>u. transport_step (server_transport '':5001'' 5) u \<and> \<not> tt_shutdown u \<and> tt_listener u = Some True \<and>
    \<not> (\<exists>v. transport_step u v \<and> tt_accepted v \<noteq> {#})"
proof -
  from accept_error_stops_server [of "server_transport '':5001'' 5"] obtain u where
    u: "transport_step (server_transport '':5001'' 5) u" "tt_shutdown u = tt_shutdown (server_transport '':5001'' 5)"
    "tt_listener u = tt_listener (server_transport '':5001'' 5)"
    "\<forall>v. transport_step\<^sup>*\<^sup>* u v \<longrightarrow> tt_accepted v = tt_accepted (server_transport '':5001'' 5)"
    by (auto simp: server_transport_fields)
  then show ?thesis by (auto simp: server_transport_fields intro!: exI [of _ u])
qed

end
