(* ===== verification/Server_Processes.thy ===== *)
theory Server_Processes
  imports Client_Failures Tcp_Transport Wal_Frame
begin

text \<open>
  The two servers as processes and the three programs under \<open>cmd\<close>: the factories that put a handler
  on a transport (\<open>chunkserver/factory.go\<close>, \<open>metaserver/factory.go\<close>), \<open>Start\<close> and \<open>Stop\<close>
  (\<open>server.go\<close>), and the \<open>main\<close> functions up to the point where they wait for a signal.
\<close>

section \<open>The chunk server\<close>

record ChunkServerConfig =
  csc_ListenerPort :: string
  csc_ShutdownTimeout :: duration
  csc_FileDepth :: int

record ChunkServer =
  cs_handler :: ChunkHandler
  cs_transport :: TCPTransport

definition chunkserver_New :: "gob \<Rightarrow> ChunkServerConfig \<Rightarrow> ChunkServer" where
  "chunkserver_New G c =
     \<lparr>cs_handler = NewChunkServer (csc_FileDepth c) G,
      cs_transport = NewTCPTransport (csc_ListenerPort c) [WithTransportShutdownTimeout (csc_ShutdownTimeout c)]\<rparr>"

text \<open>\<open>listen\<close> is what \<open>net.Listen\<close> returns. \<open>Stop\<close> waits until the transport's \<open>Close\<close> returns.\<close>

definition ChunkServer_Start :: "go_error option \<Rightarrow> ChunkServer \<Rightarrow> go_error option \<times> ChunkServer" where
  "ChunkServer_Start listen cs = (case Listen listen (cs_transport cs) of (e, t) \<Rightarrow> (e, cs\<lparr>cs_transport := t\<rparr>))"

definition ChunkServer_Stop :: "ChunkServer \<Rightarrow> go_error option \<times> ChunkServer" where
  "ChunkServer_Stop cs = (case Close_start (cs_transport cs) of (e, t) \<Rightarrow> (e, cs\<lparr>cs_transport := t\<rparr>))"

section \<open>The metadata server\<close>

record 's MetaServer =
  ms_handler :: "'s MetaServerHandler"
  ms_transport :: TCPTransport

definition metaserver_New ::
  "WAL_Entry proto \<Rightarrow> FileMetadata proto \<Rightarrow> (files \<Rightarrow> string list) \<Rightarrow> go_error + string \<Rightarrow> (string \<Rightarrow> fs) \<Rightarrow>
     MetaServerConfig \<Rightarrow> (ret \<times> FileStore MetaServer option) \<times> FileStore" where
  "metaserver_New Pe Pm order getwd disks m =
     (case NewMetaServer Pe Pm order getwd disks m of
        ((res, None), st) \<Rightarrow> ((res, None), st)
      | ((res, Some H), st) \<Rightarrow>
          ((res, Some \<lparr>ms_handler = H,
             ms_transport = NewTCPTransport (mc_ListenerPort m) [WithTransportShutdownTimeout (mc_ShutdownTimeout m)]\<rparr>), st))"

definition MetaServer_Start :: "go_error option \<Rightarrow> 's MetaServer \<Rightarrow> go_error option \<times> 's MetaServer" where
  "MetaServer_Start listen ms = (case Listen listen (ms_transport ms) of (e, t) \<Rightarrow> (e, ms\<lparr>ms_transport := t\<rparr>))"

definition MetaServer_Stop :: "'s MetaServer \<Rightarrow> go_error option \<times> 's MetaServer" where
  "MetaServer_Stop ms = (case Close_start (ms_transport ms) of (e, t) \<Rightarrow> (e, ms\<lparr>ms_transport := t\<rparr>))"

section \<open>The programs\<close>

text \<open>
  A program has exited, has crashed, never gets any further, or waits for a signal; then its
  deferred \<open>Stop\<close> or \<open>Close\<close> runs.
\<close>

datatype 'a proc = Exited nat | Crashed | Hanging | Waiting 'a

definition chunkserver_main :: "gob \<Rightarrow> go_error option \<Rightarrow> ChunkServer proc" where
  "chunkserver_main G listen =
     (let config = \<lparr>csc_ListenerPort = '':5001'', csc_ShutdownTimeout = 5000000000, csc_FileDepth = 5\<rparr>
      in case ChunkServer_Start listen (chunkserver_New G config) of
           (Some e, cs) \<Rightarrow> Exited 1
         | (None, cs) \<Rightarrow> Waiting cs)"

definition metaserver_main ::
  "WAL_Entry proto \<Rightarrow> FileMetadata proto \<Rightarrow> (files \<Rightarrow> string list) \<Rightarrow> go_error + string \<Rightarrow> (string \<Rightarrow> fs) \<Rightarrow>
     go_error option \<Rightarrow> (FileStore MetaServer \<times> FileStore) proc" where
  "metaserver_main Pe Pm order getwd disks listen =
     (let config = \<lparr>mc_ListenerPort = '':5002'', mc_ShutdownTimeout = 5000000000,
          mc_WALConfig = \<lparr>wc_dir = [], wc_enableFsSync = False, wc_maxSegmentSize = 0, wc_flushInterval = 0,
                          wc_maxSegements = 0, wc_snapshotInterval = 0\<rparr>\<rparr>
      in case metaserver_New Pe Pm order getwd disks config of
           ((Return None, Some ms), st) \<Rightarrow>
             (case MetaServer_Start listen ms of
                (Some e, ms') \<Rightarrow> Exited 1
              | (None, ms') \<Rightarrow> Waiting (ms', st))
         | ((Return (Some e), x), st) \<Rightarrow> if e = Panic then Crashed else Exited 1
         | ((Return None, None), st) \<Rightarrow> Crashed
         | ((Blocked, x), st) \<Rightarrow> Hanging)"

text \<open>\<open>filepath.Join\<close> of a directory as \<open>os.Getwd\<close> returns it (empty if it fails) and a relative path.\<close>

definition filepath_Join :: "string \<Rightarrow> string \<Rightarrow> string" where
  "filepath_Join wd path = (if wd = [] then path else if wd = ''/'' then ''/'' @ path else wd @ ''/'' @ path)"

text \<open>
  \<open>SendFile\<close> and \<open>ReadFile\<close> on a nil client: both open their file first, and dereference the client
  once that has worked.
\<close>

definition SendFile_nil :: "string \<Rightarrow> fs \<Rightarrow> go_error option run" where
  "SendFile_nil filePath d =
     (case fs_Open filePath d of
        Inl e \<Rightarrow> Ret (Some (wrap ''failed to open file'' e))
      | Inr f \<Rightarrow> if faults d OpStat filePath then Ret (Some (wrap ''failed to get file stats'' ErrIO)) else Crash)"

definition ReadFile_nil :: "string \<Rightarrow> fs \<Rightarrow> go_error option run \<times> fs" where
  "ReadFile_nil filePath d =
     (case fs_Create filePath d of
        (Some e, d1) \<Rightarrow> (Ret (Some e), d1)
      | (None, d1) \<Rightarrow> (Crash, d1))"

text \<open>
  The client program: it sends a file, reads it back under another name, and waits. An error of
  \<open>NewClient\<close> is printed, and the program goes on with a nil client. \<open>world\<close> gives the rest of the
  system once the client has the pool that \<open>NewClient\<close> has made.
\<close>

definition client_main ::
  "'w net \<Rightarrow> FileMetadata proto \<Rightarrow> gob \<Rightarrow> (nat \<Rightarrow> (go_error + tcp_conn) list) \<Rightarrow> sched \<Rightarrow> sched \<Rightarrow>
     ((string \<rightharpoonup> ChunkInfo) \<Rightarrow> string list) \<Rightarrow> string \<Rightarrow> fs \<Rightarrow> (TCPPool option \<Rightarrow> 'w) \<Rightarrow>
     (Client option \<times> fs \<times> 'w) proc" where
  "client_main N Pm G dials sc sc' order wd d world =
     (let filePath = filepath_Join wd ''test/test1/test.mov'';
          readFilePath = filepath_Join wd ''test/test1/test-1-read-result.mov''
      in case NewClient G False [] dials of
           Blocks \<Rightarrow> Hanging
         | Returns (Inl e) \<Rightarrow>
             if e = Panic then Crashed
             else (case SendFile_nil filePath d of
                     Ret e1 \<Rightarrow> (case ReadFile_nil readFilePath d of
                                 (Ret e2, d1) \<Rightarrow> Waiting (None, d1, world None)
                               | (Crash, d1) \<Rightarrow> Crashed
                               | (Hang, d1) \<Rightarrow> Hanging)
                   | Crash \<Rightarrow> Crashed
                   | Hang \<Rightarrow> Hanging)
         | Returns (Inr c) \<Rightarrow>
             (case SendFile N Pm c sc filePath d (world (cl_connPool c)) of
                (Ret e1, w1) \<Rightarrow> (case ReadFile N Pm c sc' order ''test.mov'' readFilePath d w1 of
                                   (Ret e2, (d2, w2)) \<Rightarrow> Waiting (Some c, d2, w2)
                                 | (Crash, s2) \<Rightarrow> Crashed
                                 | (Hang, s2) \<Rightarrow> Hanging)
              | (Crash, w1) \<Rightarrow> Crashed
              | (Hang, w1) \<Rightarrow> Hanging))"

section \<open>Starting\<close>

lemma chunkserver_main_waits:
  "chunkserver_main G None =
     Waiting \<lparr>cs_handler = NewChunkServer 5 G, cs_transport = server_transport '':5001'' 5000000000\<rparr>"
  by (simp add: chunkserver_main_def ChunkServer_Start_def chunkserver_New_def server_transport_def Listen_def)

lemma metaserver_main_waits:
  assumes "metaserver_main Pe Pm order getwd disks None = Waiting (ms, st)"
  shows "ms = \<lparr>ms_handler = NewMetaServerHandler (file_metastore Pe Pm) Pm, ms_transport = server_transport '':5002'' 5000000000\<rparr>"
  using assms by (auto simp: metaserver_main_def metaserver_New_def NewMetaServer_def MetaServer_Start_def server_transport_def Listen_def
      Let_def split: prod.splits option.splits ret.splits if_splits)

text \<open>A metadata server on a new directory comes up with an empty store that is ready for use.\<close>

definition main_WALConfig :: WALConfig where
  "main_WALConfig = \<lparr>wc_dir = [], wc_enableFsSync = False, wc_maxSegmentSize = 0, wc_flushInterval = 0,
     wc_maxSegements = 0, wc_snapshotInterval = 0\<rparr>"

definition new_directory :: "go_error + string \<Rightarrow> (string \<Rightarrow> fs) \<Rightarrow> bool" where
  "new_directory getwd disks \<longleftrightarrow>
     (let d = disks (w_dir (configured getwd main_WALConfig)) in log_disk d 1 [] \<and> fs_node d SnapshotFile = None)"

lemma main_WALConfig_ok: "config_ok main_WALConfig" "w_maxSegmentSize (configured getwd main_WALConfig) = 400"
  by (simp_all add: main_WALConfig_def config_ok_def configured_def Let_def defaultWALConfig_def)

lemma metaserver_main_new:
  assumes P: "proto_ok Pe" "proto_ok Pm" and d: "new_directory getwd disks"
  shows "\<exists>ms st. metaserver_main Pe Pm order getwd disks None = Waiting (ms, st) \<and> fst st = Map.empty \<and>
    fs_inv Pe Pm 400 1 st"
proof -
  from d have l: "log_disk (disks (w_dir (configured getwd main_WALConfig))) 1 []"
    "fs_node (disks (w_dir (configured getwd main_WALConfig))) SnapshotFile = None"
    by (simp_all add: new_directory_def Let_def)
  from InitWAL_fresh [where disks = disks and P = Pe, OF main_WALConfig_ok(1) l(1)] obtain w where
    w: "InitWALwithConfig Pe getwd disks main_WALConfig = (None, w)" "wal_rep Pe w 1 [] []"
    "w_lastSequenceNo w = 0" "w_lastSnapshot w = 0" "\<not> w_cancelled w"
    "w_maxSegmentSize w = 400" "\<forall>x. x \<noteq> seg_name 1 \<longrightarrow> fs_node (w_disk w) x = fs_node (disks (w_dir (configured getwd main_WALConfig))) x"
    using main_WALConfig_ok(2) [of getwd] by metis
  have "SnapshotFile \<noteq> seg_name 1" using HasPrefix_seg_name [of 1] snapshot_names(1) by metis
  with w(7) l(2) have "fs_node (w_disk w) SnapshotFile = None" by simp
  moreover have "\<not> faults (w_disk w) OpOpen SnapshotFile"
    using w(2) by (auto simp: wal_rep_def wal_store_def dest: log_diskD(2) no_faultsD)
  ultimately have "fs_Open SnapshotFile (w_disk w) = Inl ErrNotExist" by (simp add: fs_Open_def)
  from EnableSnapshots_no_snapshot [OF this, of Pe Pm order] w(4)
  have e: "EnableSnapshots Pe (file_snapshotable Pe Pm order) (NewFileStore w) = (Return None, (Map.empty, w))"
    by (simp add: FileStore_EnableSnapshots_def)
  have "store_inv Pe Pm Map.empty (Map.empty, w) 1 [] []"
    using w(2,4) by (intro store_inv_no_snapshot) simp_all
  moreover have "unat (w_lastSegmentNo w) = 1" using w(2) by (simp add: wal_rep_def wal_store_def)
  ultimately have "fs_inv Pe Pm 400 1 (Map.empty, w)"
    using P w(3,5,6) by (auto simp: fs_inv_def log_room_def)
  with w(1) e show ?thesis
    by (simp add: metaserver_main_def metaserver_New_def NewMetaServer_def MetaServer_Start_def Listen_def Let_def
        main_WALConfig_def)
qed

text \<open>The client of the program: five new connections to the metadata server, none of them failed.\<close>

definition dials_ok :: "(nat \<Rightarrow> (go_error + tcp_conn) list) \<Rightarrow> bool" where
  "dials_ok dials \<longleftrightarrow> length (dials 5) = 5 \<and> list_all (\<lambda>r. \<not> isl r) (dials 5) \<and>
     list_all conn_fresh (oks (dials 5))"

lemma NewClient_ok:
  assumes "dials_ok dials"
  shows "\<exists>c t. NewClient G False [] dials = Returns (Inr c) \<and> client_ok G c \<and> cl_connPool c = Some t \<and> pool_fresh t"
proof -
  have d: "client_dials (configured_client G []) dials = dials 5"
    by (simp add: client_dials_def configured_client_def defaultClient_def)
  have "length (oks (dials 5)) \<le> 5" using assms length_filter_le [of "\<lambda>d. \<not> isl d" "dials 5"]
    by (simp add: dials_ok_def oks_def)
  moreover have "\<not> (\<exists>x. x \<in> set (dials 5) \<and> isl x)" using assms by (auto simp: dials_ok_def list_all_iff)
  moreover have "workers_ok (configured_client G [])" by (simp add: workers_ok_def configured_client_def defaultClient_def)
  ultimately obtain c where c: "NewClient G False [] dials = Returns (Inr c)"
    "client_ready (configured_client G []) False (oks (dials 5)) c"
    using NewClient_iff [of G False "[]" dials] unfolding d by blast
  then have "client_ok G c"
    by (auto simp: client_ready_def client_ok_def configured_client_def defaultClient_def pool_ready_def pool_open_def
        split: option.splits)
  moreover obtain t where "cl_connPool c = Some t" "tp_connections t = oks (dials 5)" "\<not> tp_isClosed t" "\<not> tp_chanClosed t"
    using c(2) by (auto simp: client_ready_def split: option.splits)
  ultimately show ?thesis using c(1) assms by (auto simp: pool_fresh_def dials_ok_def)
qed

lemma demo_path_last: "last (split_on CHR ''/'' (filepath_Join wd ''test/test1/test.mov'')) = ''test.mov''"
proof -
  have p: "filepath_Join wd ''test/test1/test.mov'' = (filepath_Join wd ''test/test1'') @ CHR ''/'' # ''test.mov''"
    by (simp add: filepath_Join_def)
  show ?thesis unfolding p by (rule last_split_on_append) simp
qed

lemma transport_timeout_kept: "transport_step\<^sup>*\<^sup>* t u \<Longrightarrow> tt_shutdownTimeout u = tt_shutdownTimeout t"
  by (induction rule: rtranclp_induct) (auto elim!: transport_step_elims simp: Close_start_def split: if_splits)

section \<open>Properties\<close>

text \<open>The world that the client program finds: the two servers and its own pool of connections.\<close>

definition main_world :: "'s \<Rightarrow> fs \<Rightarrow> TCPPool option \<Rightarrow> 's dfs_world" where
  "main_world st s t = \<lparr>dw_meta = st, dw_chunks = s, dw_sent = [],
     dw_pool = (case t of None \<Rightarrow> defaultTCPPoolConfig | Some p \<Rightarrow> p), dw_left = [], dw_time = 0\<rparr>"

text \<open>C2: the three programs together, on a network and disks without faults: in a directory without a
  log and a snapshot both servers come up, and the client program, started against them with five
  new connections, sends \<open>test.mov\<close>, reads it back, and waits for its signal with an exact copy on its
  disk. This needs of \<open>test.mov\<close> that it can be read, is not empty, is shorter than 2^63 bytes, has no
  two equal chunks, no chunk with the MD5 of another one that is stored, and that its record fits a
  segment of 400 bytes of the log, that is about six chunks; and of the chunk server, which
  acknowledges nothing, that it has handled the chunks that were sent, in any order, before one of
  them is asked for (\<open>prompt\<close>). An empty file makes the program hang (\<open>send_empty_file_hangs\<close>).\<close>

theorem programs_copy_file:
  assumes "proto_ok Pe" "proto_ok Pm" "new_directory getwd disks" "dials_ok dials" "prompt arr"
    and "sendable_file (filepath_Join wd ''test/test1/test.mov'') d f" "gob_small G"
    and "meta_req_ok Pm (fs_storable Pe Pm 400) (AddFile (file_record G ''test.mov'' f))"
    and "store_rep 5 HashContent s \<sigma>" "stored_apart f \<sigma>"
    and "sched_ok sc (chunkCount ChunkSize (length f))" "sched_ok sc' (chunkCount ChunkSize (length f))"
    and "writable (filepath_Join wd ''test/test1/test-1-read-result.mov'') d" "range_ok order'"
  shows "\<exists>ms st cs c d' w'. metaserver_main Pe Pm order getwd disks None = Waiting (ms, st) \<and>
    chunkserver_main G None = Waiting cs \<and>
    client_main (sys_net (ms_handler ms) (cs_handler cs) arr) Pm G dials sc sc' order' wd d (main_world st s) =
      Waiting (Some c, d', w') \<and>
    fs_Open (filepath_Join wd ''test/test1/test-1-read-result.mov'') d' = Inr f"
proof -
  from metaserver_main_new [OF assms(1-3), of order] obtain ms st where
    ms: "metaserver_main Pe Pm order getwd disks None = Waiting (ms, st)" "fs_inv Pe Pm 400 1 st" by blast
  then have N: "sys_net (ms_handler ms) (NewChunkServer 5 G) arr = dfs_net Pe Pm 5 G arr"
    using metaserver_main_waits [OF ms(1)] by (simp add: dfs_net_def)
  from NewClient_ok [OF assms(4)] obtain c t where
    c: "NewClient G False [] dials = Returns (Inr c)" "client_ok G c" "cl_connPool c = Some t" "pool_fresh t" by blast
  have "chunks_rep 5 G (main_world st s (Some t)) \<sigma>" using assms(9) by (intro chunks_rep_none) (simp_all add: main_world_def)
  then have ready: "servers_ready Pe Pm 400 5 G ''test.mov'' f \<sigma> (main_world st s (Some t))"
    using ms(2) c(4) assms(7,8,10) by (simp add: servers_ready_def) (simp add: main_world_def)
  from send_then_read [OF c(2) assms(6,11), unfolded demo_path_last, OF ready assms(5) _ _ assms(12-14)]
  obtain w d' w' where
    "SendFile (dfs_net Pe Pm 5 G arr) Pm c sc (filepath_Join wd ''test/test1/test.mov'') d (main_world st s (Some t)) = (Ret None, w)"
    "ReadFile (dfs_net Pe Pm 5 G arr) Pm c sc' order' ''test.mov'' (filepath_Join wd ''test/test1/test-1-read-result.mov'') d w =
       (Ret None, (d', w'))"
    "fs_Open (filepath_Join wd ''test/test1/test-1-read-result.mov'') d' = Inr f"
    by (auto simp: max_payload_def)
  with N c(1,3) ms(1) show ?thesis
    by (intro exI [of _ ms] exI [of _ st] exI [of _ "\<lparr>cs_handler = NewChunkServer 5 G, cs_transport = server_transport '':5001'' 5000000000\<rparr>"]
        exI [of _ c] exI [of _ d'] exI [of _ w'] conjI) (simp_all add: client_main_def chunkserver_main_waits Let_def)
qed

text \<open>The client program after a failed \<open>NewClient\<close>: it crashes on the nil client, unless neither the
  file to send nor the file to write can be opened; in that case it waits for a signal, to crash
  in \<open>Close\<close>.\<close>

lemma client_program_crashes:
  assumes "NewClient G False [] dials = Returns (Inl e)" "e \<noteq> Panic"
  shows "client_main N Pm G dials sc sc' order wd d w = Crashed \<longleftrightarrow>
    (\<exists>f. fs_Open (filepath_Join wd ''test/test1/test.mov'') d = Inr f \<and>
       \<not> faults d OpStat (filepath_Join wd ''test/test1/test.mov'')) \<or>
    fst (fs_Create (filepath_Join wd ''test/test1/test-1-read-result.mov'') d) = None"
  using assms by (auto simp: client_main_def Let_def SendFile_nil_def ReadFile_nil_def
      split: sum.splits option.splits prod.splits)

text \<open>C38: stopping a server while a client is connected: as long as a handler has not returned, \<open>Stop\<close>
  returns only after the whole time-out, and the connection is still open then.\<close>

theorem connected_client_delays_stop:
  assumes "chunkserver_main G None = Waiting cs" "transport_step\<^sup>*\<^sup>* (cs_transport cs) t" "c \<in># tt_handlers t"
  shows "(Close_returns elapsed t \<longleftrightarrow> 5000000000 \<le> elapsed) \<and> count (tt_closed t) c < count (tt_accepted t) c"
proof -
  have r: "transport_step\<^sup>*\<^sup>* (server_transport '':5001'' 5000000000) t"
    using assms(1,2) by (auto simp: chunkserver_main_waits)
  note inv = transport_reachable_inv [OF r]
  have "tt_shutdownTimeout t = 5000000000"
    using transport_timeout_kept [OF r]
    by (simp add: server_transport_def Listen_def NewTCPTransport_def WithTransportShutdownTimeout_def)
  moreover have "\<not> Close_done t" using inv assms(3) by (auto simp: transport_inv_def Close_done_def)
  moreover have "0 < count (tt_handlers t) c" using assms(3) by simp
  ultimately show ?thesis using inv by (simp add: transport_inv_def Close_returns_def)
qed

section \<open>Witnesses\<close>

definition demo_mov :: FileMetadata where
  "demo_mov = file_record sample_gob ''test.mov'' [1, 2, 3]"

definition demo_mov_codec :: "FileMetadata proto" where
  "demo_mov_codec = sample_meta [demo_mov, assign_addr demo_mov]"

definition demo_cwd :: fs where
  "demo_cwd = empty_fs\<lparr>entries := [(''/w/test/test1/test.mov'', File [1, 2, 3] [])]\<rparr>"

definition demo_dials :: "nat \<Rightarrow> (go_error + tcp_conn) list" where
  "demo_dials n = replicate n (Inr \<lparr>tc_id = 0, tc_in = [], tc_eof = False, tc_out = new_conn, tc_closed = False\<rparr>)"

lemma demo_mov_ok: "proto_ok demo_mov_codec"
  "meta_req_ok demo_mov_codec (fs_storable sample_entry demo_mov_codec 400) (AddFile (file_record sample_gob ''test.mov'' [1, 2, 3]))"
proof -
  show "proto_ok demo_mov_codec" by (simp add: demo_mov_codec_def sample_meta_ok)
  have M: "\<exists>b. Marshal demo_mov_codec demo_mov = Inr [b]" "\<exists>b. Marshal demo_mov_codec (assign_addr demo_mov) = Inr [b]"
    by (simp_all add: demo_mov_codec_def sample_meta_def)
  then have "marshals demo_mov_codec demo_mov" "fs_storable sample_entry demo_mov_codec 400 (assign_addr demo_mov)"
    using sample_entry_fits by (auto simp: marshals_def fs_storable_def meta_fits_def max_payload_def)
  moreover obtain b where "meta_enc demo_mov_codec (Some demo_mov) = [b]"
    using M(1) by (auto simp: meta_enc_def marshal_ptr_def)
  ultimately have "meta_req_ok demo_mov_codec (fs_storable sample_entry demo_mov_codec 400) (AddFile demo_mov)"
    by (simp add: meta_req_ok_def max_payload_def)
  then show "meta_req_ok demo_mov_codec (fs_storable sample_entry demo_mov_codec 400)
      (AddFile (file_record sample_gob ''test.mov'' [1, 2, 3]))" by (simp add: demo_mov_def)
qed

lemma demo_cwd_ok: "sendable_file (filepath_Join ''/w'' ''test/test1/test.mov'') demo_cwd [1, 2, 3]"
  "writable (filepath_Join ''/w'' ''test/test1/test-1-read-result.mov'') demo_cwd"
proof -
  show "sendable_file (filepath_Join ''/w'' ''test/test1/test.mov'') demo_cwd [1, 2, 3]"
    unfolding sendable_file_def demo_pieces
    by (simp add: filepath_Join_def demo_cwd_def empty_fs_def fs_Open_def fs_node_def)
  show "writable (filepath_Join ''/w'' ''test/test1/test-1-read-result.mov'') demo_cwd"
    by (simp add: writable_def filepath_Join_def demo_cwd_def empty_fs_def fs_node_def)
qed

lemma demo_new_directory: "new_directory (Inr ''/srv'') (\<lambda>_. empty_fs)"
  by (simp add: new_directory_def log_disk_def empty_fs_def no_faults_def dir_wf_def fs_node_def)

lemma programs_copy_file_witness:
  "\<exists>ms st cs c d' w'. metaserver_main sample_entry demo_mov_codec demo_order (Inr ''/srv'') (\<lambda>_. empty_fs) None = Waiting (ms, st) \<and>
    chunkserver_main sample_gob None = Waiting cs \<and>
    client_main (sys_net (ms_handler ms) (cs_handler cs) demo_arrivals) demo_mov_codec sample_gob demo_dials demo_sched demo_sched demo_range
      ''/w'' demo_cwd (main_world st empty_fs) = Waiting (Some c, d', w') \<and>
    fs_Open ''/w/test/test1/test-1-read-result.mov'' d' = Inr [1, 2, 3]"
proof -
  have d: "dials_ok demo_dials" by (simp add: dials_ok_def demo_dials_def list_all_iff oks_def conn_fresh_def)
  have "filepath_Join ''/w'' ''test/test1/test-1-read-result.mov'' = ''/w/test/test1/test-1-read-result.mov''"
    by (simp add: filepath_Join_def)
  moreover have "stored_apart f Map.empty" for f by (simp add: stored_apart_def)
  ultimately show ?thesis
    using programs_copy_file [OF sample_entry_ok demo_mov_ok(1) demo_new_directory d demo_arrivals_prompt demo_cwd_ok(1) demo_gob_small
      demo_mov_ok(2) demo_store_rep _ demo_sched_ok demo_sched_ok demo_cwd_ok(2) demo_range_ok, of demo_order] by simp
qed

lemma client_program_crashes_witness:
  "client_main N demo_mov_codec sample_gob (\<lambda>n. replicate n (Inl ErrIO)) demo_sched demo_sched demo_range ''/w'' empty_fs w = Crashed"
proof -
  have "NewClient sample_gob False [] (\<lambda>n. replicate n (Inl ErrIO)) =
      Returns (Inl (wrap ''failed to create new tcp connection'' ErrTCPAccept))"
    by (simp add: NewClient_def NewTCPPool_client Let_def defaultClient_def defaultTCPPoolConfig_def oks_def)
  from client_program_crashes [OF this, of N demo_mov_codec demo_sched demo_sched demo_range "''/w''" empty_fs w]
  show ?thesis by (simp add: wrap_def fs_Create_def empty_fs_def fs_node_def)
qed

lemma connected_client_delays_stop_witness:
  "\<not> Close_returns 4 ((server_transport '':5001'' 5000000000)\<lparr>tt_accepted := {#7#}, tt_acceptors := {#Accepting#}, tt_wg := 3, tt_handlers := {#7#}\<rparr>)"
proof -
  let ?t = "server_transport '':5001'' 5000000000"
  have "transport_step ?t (?t\<lparr>tt_acceptors := {#Handing 7#}, tt_accepted := {#7#}\<rparr>)"
    using accept [OF Accept [of ?t 7]] by (simp add: server_transport_fields)
  moreover have "transport_step (?t\<lparr>tt_acceptors := {#Handing 7#}, tt_accepted := {#7#}\<rparr>)
      (?t\<lparr>tt_accepted := {#7#}, tt_acceptors := {#Accepting#}, tt_wg := 3, tt_handlers := {#7#}\<rparr>)"
    using dispatch [OF Dispatch [of 7 "?t\<lparr>tt_acceptors := {#Handing 7#}, tt_accepted := {#7#}\<rparr>"]]
    by (simp add: server_transport_fields)
  ultimately have "transport_step\<^sup>*\<^sup>* ?t (?t\<lparr>tt_accepted := {#7#}, tt_acceptors := {#Accepting#}, tt_wg := 3, tt_handlers := {#7#}\<rparr>)"
    by (meson rtranclp.rtrancl_into_rtrancl rtranclp.rtrancl_refl)
  from connected_client_delays_stop [OF chunkserver_main_waits, of _ _ 7 4] this show ?thesis by simp
qed

end
