(* ===== verification/Spec2Isabelle.thy ===== *)
theory Spec2Isabelle
  imports Wal_Properties Chunk_Concurrency Store_Crash Adaptors Meta_Properties Worker_Properties Pool_Properties
    Server_Processes
begin

text \<open>
  MyDFS is a small distributed file system in Go. A client splits a file into chunks of 64 MiB,
  registers them with a metadata server and sends each chunk to a chunk server; reading goes the
  other way. This library models the code under \<open>src/internal\<close> and \<open>src/cmd\<close> and states what makes
  it correct.

  \<^bold>\<open>The parts and how they interact.\<close> Client and servers exchange messages with a binary
  header (\<open>protocol/protocol.go\<close>). Both servers run a connection handler on a TCP transport
  (\<open>transport/tcp_transport.go\<close>). The chunk server's handler
  (\<open>chunkserver/handler.go\<close>) stores chunks as files whose path comes from the chunk's id, the MD5
  of its contents (\<open>storage\<close>, \<open>hasher\<close>). The metadata server's handler
  (\<open>metaserver/handler.go\<close>) works on a file store (\<open>files/file_store.go\<close>): a map of
  file records that is logged to a write-ahead log with segments and snapshots (\<open>wal\<close>). The
  client (\<open>client\<close>) takes connections to the metadata server from a pool
  (\<open>transport/tcp_pool.go\<close>), and sends and reads chunks as jobs of two worker pools with retries
  (\<open>wokers/worker_pool.go\<close>). Three programs (\<open>cmd\<close>) start the servers and a client
  that copies a file through them.

  \<^bold>\<open>Theories.\<close> In the order of their imports:

  \<^item> \<open>DFS_Prelude\<close>: bytes, the error values, big-endian integers, numerals, string functions, lists;
  \<open>Go_IO\<close>: readers as the bytes they still deliver, writers as functions with the contract
  \<open>io_writer\<close> (a locale, interpreted for connections, files, file handles and the adaptor), \<open>bufio\<close>;
  \<open>File_System\<close>: files, their synced part, operations that may fail; \<open>Framing\<close>: the locales
  \<open>framing\<close> and \<open>strict_framing\<close> of self-delimiting records.
  \<^item> \<open>Protocol\<close>: \<open>Encode\<close>, \<open>Decode\<close>. \<open>Hasher\<close>: MD5, the locale \<open>content_hasher\<close>. \<open>Adaptors\<close>:
  \<open>WriterAtAdaptper\<close>. \<open>File_Types\<close>: the protobuf and chunk records, the codecs (parameters),
  \<open>encoder.go\<close>. \<open>Sample_Codecs\<close>: codecs for the witnesses only.
  \<^item> \<open>Storage\<close>: \<open>storage.go\<close> and \<open>path_transform.go\<close>, the locale \<open>chunk_storage\<close>. \<open>Chunk_Server\<close>:
  the handler (\<open>chunk_Handle\<close>), its factory, the abstract chunk store \<open>chunk_spec\<close>.
  \<open>Chunk_Concurrency\<close>: the storage as system calls on a shared disk with inodes, for several
  connections (\<open>disk_step\<close>).
  \<^item> \<open>Wal_Segments\<close>: names, CRC, entries and reading them. \<open>Wal\<close>: all operations of \<open>manager.go\<close>,
  \<open>write.go\<close>, \<open>read.go\<close> on the record \<open>WAL\<close>. \<open>Wal_Disk\<close>, \<open>Wal_Log\<close>, \<open>Wal_Recovery\<close>: the log
  represents a list of entries (\<open>wal_rep\<close>) and what every operation does to that list. \<open>Wal_Snapshot\<close>:
  \<open>snapshot.go\<close>, the locale \<open>snapshotable\<close>. \<open>Wal_Frame\<close>: which files the log's operations touch.
  \<^item> \<open>File_Store\<close>: \<open>file_store.go\<close>. \<open>Store_Recovery\<close>, \<open>Store_Replay\<close>: entries as updates of the map,
  and a map as a snapshot with a log over it (\<open>replays\<close>). \<open>Store_System\<close>: the invariant \<open>store_inv\<close>.
  \<open>Store_Properties\<close>: the properties of the store. \<open>Wal_Properties\<close>: the log with waiting callers, the
  goroutine that flushes and the one that takes snapshots, which reads its numbers at one moment and
  writes the map at a later one (\<open>wal_step\<close>; \<open>fitting_step\<close> if all entries fit a segment).
  \<open>Store_Calls\<close>: the calls of several connections, each split at its wait for the flush and a deletion
  also between its lookup and its append, with the same two goroutines (\<open>store_step\<close>), and the
  invariant of the runs that are timed as the code silently expects (\<open>calm_step\<close>). \<open>Store_Concurrency\<close>: what such runs keep, and runs that go
  wrong. \<open>Store_Crash\<close>: the server killed in the middle of such a run and started again.
  \<^item> \<open>Meta_Server\<close>: the handler over the interface \<open>MetaStore\<close>, \<open>NewMetaServer\<close>, the abstract service
  \<open>meta_spec\<close>, and the locale \<open>meta_store\<close>, which the file store interprets. \<open>Meta_Properties\<close>.
  \<^item> \<open>Worker_Pool\<close>, \<open>Worker_Properties\<close>: \<open>performWork\<close> as a function, the pool as a step relation
  \<open>pool_step\<close> in which every access to shared state is a step. \<open>Tcp_Pool\<close>, \<open>Pool_Properties\<close>: the
  connection pool and its users. \<open>Tcp_Transport\<close>: the goroutines of a server.
  \<^item> \<open>Client_Config\<close>: options, \<open>NewClient\<close>, \<open>Close\<close>. \<open>Client\<close>: \<open>chunkFiles\<close>, \<open>requestMetaServer\<close>,
  \<open>sendChunk\<close>, \<open>readChunk\<close>, \<open>SendFile\<close>, \<open>ReadFile\<close> over a network given as functions.
  \<open>Client_Chunks\<close>: splitting and the record of a file. \<open>Client_Jobs\<close>: jobs in any order.
  \<open>Client_Ready\<close>: \<open>NewClient\<close>. \<open>Client_Files\<close>: the locales \<open>file_sender\<close> and \<open>file_service\<close>, what the client relies on to send and
  to read, with \<open>SendFile\<close>, \<open>ReadFile\<close> and sequences of them (\<open>dfs_run\<close>, \<open>dfs_spec\<close>) proved under them.
  \<open>Client_System\<close>: the client over the handlers of both servers (\<open>sys_net\<close>), which interprets these
  locales: requests go through the connection pool with its health checks, and a chunk that was sent
  waits, unacknowledged, until the chunk server handles its connection, before, between or after later
  exchanges (\<open>arrivals\<close>). \<open>Client_Properties\<close>, \<open>Client_Failures\<close>: what holds of sending and reading files.
  \<^item> \<open>Server_Processes\<close>: the two servers with their factories, \<open>Start\<close> and \<open>Stop\<close>, and the three
  \<open>main\<close> functions.

  \<^bold>\<open>What is shown.\<close> Through client, connection pool, protocol, both handlers, log and
  storage the system implements a map from file names to contents, for any sequence of files sent and read, as
  long as nothing fails, the files are not empty and have no equal chunks, their records fit a segment of the
  metadata log, and the chunk server has handled a chunk before it is asked for. Each handler implements its
  abstract service on any sequence of requests, and the chunk server keeps every readable chunk equal to what
  its id says on any input, also with connections in parallel as long as they write different chunks. The
  three programs, started in a new directory, copy the client's file under the same conditions. With entries
  that fit, the log stays well formed and an acknowledged entry durable in every interleaving with the flushes
  and the two parts of a snapshot. If no two calls of one name overlap and no snapshot overtakes a call,
  snapshot and log always say what the map will be when the waiting calls have ended, and a restart recovers
  it, also after the server has been killed while calls and a snapshot were under way. The worker pool neither
  loses nor duplicates a job, keeps its bounds, never sends on a closed channel, and drains its queue while
  its context lives, a worker is left and the results are received; pooled and accepted connections have
  exactly one owner. Encoders and decoders are inverse. Where the code does not do what it means to, the
  property states what it does: replayed deletions, restarts without a snapshot, with a torn tail or with
  nothing but an empty segment, failed additions reported as successes, entries that do not fit a segment,
  equal chunks, chunks asked for before they are written, empty files and reads that never return, crashes and
  retries that cannot work, and what calls of the same name or chunk, or a snapshot in the middle of a call,
  can do to each other.

  \<^bold>\<open>How the code is represented.\<close> Methods are functions from the state to the error and
  the new state; structs are records and fixed-width integers words (a \<open>time.Duration\<close> and an
  \<open>int64\<close> field are integers, with the wrap-around written out where products are formed). A nil
  dereference, an index out of range and a call of \<open>make\<close> with a negative size are the error
  \<open>Panic\<close>. A call that never returns is the value \<open>Blocked\<close> (log),
  \<open>Blocks\<close> (pool) or \<open>Hang\<close> (client). Goroutines are step relations; the methods of
  the log run under its lock and are one step each. All loops are structural or have a measure, so that no
  fuel is used.

  \<^bold>\<open>Parameters and what is assumed of them.\<close> The protobuf and gob libraries are records of
  functions; the properties assume \<open>proto_ok\<close>, \<open>gob_ok\<close> (decoding inverts encoding),
  \<open>proto_empty_ok\<close> (no bytes decode to the empty message) and \<open>gob_small\<close> (a chunk's
  metadata takes less than 1 MiB); marshalling is taken to be a function of the message. The order of
  \<open>range\<close> over a map is a parameter that lists its keys. The sample codecs show that these
  hypotheses can hold.

  \<^bold>\<open>Not modelled.\<close> Printing and the delivery of signals; the reflection code of the
  generated \<open>.pb.go\<close> files; \<open>WithProtocol\<close> (there is one protocol). Time passes only
  as an event: a deadline or time-out that expires is a failing operation or a step, and a wait that ends
  after a time-out is a predicate over the time elapsed. In the network of \<open>Client_System\<close> the
  chunk server handles one connection after the other, each as a whole. Where parallel connections meet, at
  the storage and at the file store, their calls are interleaved; the parsing and answering of requests around
  them is sequential, and a data race on a Go map, which the runtime may detect and abort on, is treated as
  the sequence of its accesses. The second half of a snapshot, which writes the map and removes old segments,
  is one step, in which the map does not change; a crash ends the process between two steps and leaves the
  files as the operating system has them (the synced part alone, which a loss of power would leave, is kept by
  \<open>File_System\<close> but not used). Paths are compared as strings, without links or normalisation, and
  the directories that \<open>MkdirAll\<close> makes are not entries of the disk: it either works or fails.
  The jobs of one \<open>SendFile\<close> or \<open>ReadFile\<close> are executed in any order but each as a
  whole, and the client's local file does not change meanwhile. \<close>

end
